(* ===== verification/Prelude.thy ===== *)
theory Prelude
  imports Main "HOL-Library.Word"
begin

text \<open>
  Shared vocabulary of the development: the fixed-width integer types of the kernel, the faults a
  kernel function can end in, the sequencing of fallible steps and of loops over an index range,
  and the word and list lemmas several components use.

  A kernel function that can fail is modelled with the result type \<open>fault + 'a\<close>.
  \<open>Panic m\<close> is \<^verbatim>\<open>PANIC(m)\<close> of \<^verbatim>\<open>Definitions.h\<close>, which never returns; \<open>OutOfBounds\<close> is an access
  outside the array or buffer the code indexes; \<open>NullDeref\<close> is an access through a null pointer;
  \<open>Hang\<close> is a loop that makes a turn without progress, so that it is back in the same state and never
  ends; \<open>BadCast\<close> is the conversion of a floating point number to an integer type that cannot hold it.
  The code does not detect the last four; the models make them visible so that their absence
  is something to prove.
\<close>

unbundle bit_operations_syntax

type_synonym u8 = "8 word"
type_synonym u16 = "16 word"
type_synonym u32 = "32 word"
type_synonym u64 = "64 word"

section \<open>Faults and fallible steps\<close>

datatype fault = Panic string | OutOfBounds | NullDeref | Hang | BadCast

named_theorems result_simps \<open>execution rules of fallible steps\<close>
named_theorems kernel_defs \<open>definitions of straight-line kernel code\<close>
named_theorems bitmap_simps \<open>reading a bit array after an update\<close>

definition bindR :: "fault + 'a \<Rightarrow> ('a \<Rightarrow> fault + 'b) \<Rightarrow> fault + 'b" where
  "bindR m f = (case m of Inl e \<Rightarrow> Inl e | Inr x \<Rightarrow> f x)"

lemma bindR_Inl [simp, result_simps]: "bindR (Inl e) f = Inl e"
  by (simp add: bindR_def)

lemma bindR_Inr [simp, result_simps]: "bindR (Inr x) f = f x"
  by (simp add: bindR_def)

lemma bindR_eq_Inr [result_simps]:
  "bindR m f = Inr y \<longleftrightarrow> (\<exists>x. m = Inr x \<and> f x = Inr y)"
  by (cases m) auto

lemma bindR_eq_Inl [result_simps]:
  "bindR m f = Inl e \<longleftrightarrow> m = Inl e \<or> (\<exists>x. m = Inr x \<and> f x = Inl e)"
  by (cases m) auto

lemma bindR_InrE:
  assumes "bindR m f = Inr y"
  obtains x where "m = Inr x" and "f x = Inr y"
  using assms by (cases m) auto

lemma bindR_cong [fundef_cong]:
  "m = m' \<Longrightarrow> (\<And>x. m' = Inr x \<Longrightarrow> f x = g x) \<Longrightarrow> bindR m f = bindR m' g"
  by (cases m') auto

lemma bindR_assoc: "bindR (bindR m f) g = bindR m (\<lambda>x. bindR (f x) g)"
  by (cases m) auto

text \<open>Sequencing of steps that may fail or never return.\<close>

definition bindO :: "(fault + 'a) option \<Rightarrow> ('a \<Rightarrow> (fault + 'b) option) \<Rightarrow> (fault + 'b) option" where
  "bindO m f = (case m of None \<Rightarrow> None | Some (Inl e) \<Rightarrow> Some (Inl e) | Some (Inr x) \<Rightarrow> f x)"

lemma bindO_simps [simp]:
  "bindO None f = None" "bindO (Some (Inl e)) f = Some (Inl e)" "bindO (Some (Inr x)) f = f x"
  by (simp_all add: bindO_def)

text \<open>A counted loop whose body may fail: the body runs once per index, in order.\<close>

fun foldR :: "('x \<Rightarrow> 's \<Rightarrow> fault + 's) \<Rightarrow> 'x list \<Rightarrow> 's \<Rightarrow> fault + 's" where
  "foldR f [] s = Inr s"
| "foldR f (x # xs) s = bindR (f x s) (foldR f xs)"

lemma foldR_append: "foldR f (xs @ ys) s = bindR (foldR f xs s) (foldR f ys)"
  by (induction xs arbitrary: s) (auto simp: bindR_assoc fun_eq_iff intro!: bindR_cong)

text \<open>A loop invariant, indexed by the part of the range already visited.\<close>

lemma foldR_invariant:
  assumes "P [] s"
    and "\<And>xs x ys s. zs = xs @ x # ys \<Longrightarrow> P xs s \<Longrightarrow> \<exists>s'. f x s = Inr s' \<and> P (xs @ [x]) s'"
  shows "\<exists>s'. foldR f zs s = Inr s' \<and> P zs s'"
proof -
  have "\<exists>s'. foldR f ys s = Inr s' \<and> P (xs @ ys) s'" if "zs = xs @ ys" "P xs s" for xs ys s
    using that
  proof (induction ys arbitrary: xs s)
    case Nil
    then show ?case by simp
  next
    case (Cons y ys)
    obtain s' where s': "f y s = Inr s'" "P (xs @ [y]) s'"
      using assms(2) [OF Cons.prems] by blast
    then show ?case
      using Cons.IH [of "xs @ [y]" s'] Cons.prems(1) by simp
  qed
  from this [of "[]" zs s] assms(1) show ?thesis by simp
qed

text \<open>A body that only touches the state when it succeeds keeps any property it preserves.\<close>

lemma foldR_preserves:
  assumes "foldR f xs s = Inr s'" and "P s"
    and "\<And>x s s'. x \<in> set xs \<Longrightarrow> f x s = Inr s' \<Longrightarrow> P s \<Longrightarrow> P s'"
  shows "P s'"
  using assms
proof (induction xs arbitrary: s)
  case (Cons x xs)
  from Cons.prems(1) obtain s1 where "f x s = Inr s1" and "foldR f xs s1 = Inr s'"
    by (auto simp: result_simps)
  with Cons show ?case by (metis list.set_intros)
qed simp

section \<open>Word lemmas\<close>

lemma unat_add_no_wrap:
  "unat (a :: u64) + unat b < 2 ^ 64 \<Longrightarrow> unat (a + b) = unat a + unat b"
  by (simp add: unat_word_ariths)

lemma unat_of_nat_u64 [simp]: "n < 2 ^ 64 \<Longrightarrow> unat (of_nat n :: u64) = n"
  by (simp add: unat_of_nat)

text \<open>The simplifier writes the one-bit word \<open>1 << k\<close> as \<open>2 ^ k\<close>; the rules are stated for that form.\<close>

lemma word_and_one_bit_nonzero:
  "(w :: 'a::len word) AND 2 ^ k \<noteq> 0 \<longleftrightarrow> bit w k"
proof
  assume "w AND 2 ^ k \<noteq> 0"
  then obtain n where "bit (w AND 2 ^ k) n"
    by (metis bit_eq_iff bit_0_eq bot_fun_def bot_bool_def)
  then show "bit w k"
    by (auto simp: bit_simps)
next
  assume "bit w k"
  then have "bit (w AND 2 ^ k) k"
    using bit_imp_le_length [of w k] by (auto simp: bit_simps)
  then show "w AND 2 ^ k \<noteq> 0" by auto
qed

lemma bit_or_one_bit:
  "k < LENGTH('a) \<Longrightarrow> bit ((w :: 'a::len word) OR 2 ^ k) n \<longleftrightarrow> bit w n \<or> n = k"
  by (auto simp: bit_simps)

lemma bit_and_not_one_bit:
  "bit ((w :: 'a::len word) AND NOT (2 ^ k)) n \<longleftrightarrow> bit w n \<and> n \<noteq> k"
  by (auto simp: bit_simps dest: bit_imp_le_length)

text \<open>The same for registers and masks as the code writes them; used with \<open>unfolding\<close>, before the simplifier sees numerals.\<close>

lemma feature_bit: "(w :: 'a::len word) AND push_bit k 1 = 0 \<longleftrightarrow> \<not> bit w k"
  using word_and_one_bit_nonzero [of w k] by (auto simp: push_bit_eq_mult)

lemma bit_set_flag:
  "k < LENGTH('a) \<Longrightarrow> bit ((w :: 'a::len word) OR push_bit k 1) n \<longleftrightarrow> bit w n \<or> n = k"
  using bit_or_one_bit [of k w n] by (simp add: push_bit_eq_mult)

lemma bit_clear_flag:
  "bit ((w :: 'a::len word) AND NOT (push_bit k 1)) n \<longleftrightarrow> bit w n \<and> n \<noteq> k"
  using bit_and_not_one_bit [of w k n] by (simp add: push_bit_eq_mult)

lemma set_flag_idem: "bit (w :: 'a::len word) k \<Longrightarrow> w OR push_bit k 1 = w"
  using bit_imp_le_length [of w k] by (intro bit_word_eqI) (auto simp: bit_or_one_bit push_bit_eq_mult)

lemmas register_bits = feature_bit bit_set_flag bit_clear_flag

end
