(* ===== verification/Math_Util.thy ===== *)
theory Math_Util
  imports Prelude
begin

text \<open>
  The arithmetic templates of \<^verbatim>\<open>Utility/Math.h\<close> and the constants of \<^verbatim>\<open>Definitions.h\<close>. The kernel
  instantiates \<^verbatim>\<open>AlignUp\<close> and \<^verbatim>\<open>AlignDown\<close> at \<^verbatim>\<open>uint64_t\<close>; they are modelled on 64-bit words, so a
  sum past the end of the address space wraps as it does in the code.
\<close>

unbundle bit_operations_syntax

abbreviation KiB :: u64 where "KiB \<equiv> 1024"
abbreviation MiB :: u64 where "MiB \<equiv> 1048576"
abbreviation PageSize :: u64 where "PageSize \<equiv> 4096"

definition Min :: "'a::linorder \<Rightarrow> 'a \<Rightarrow> 'a" where
  "Min a b = (if a < b then a else b)"

definition Max :: "'a::linorder \<Rightarrow> 'a \<Rightarrow> 'a" where
  "Max a b = (if a > b then a else b)"

definition Clamp :: "'a::linorder \<Rightarrow> 'a \<Rightarrow> 'a \<Rightarrow> 'a" where
  "Clamp v lo hi = Max lo (Min hi v)"

definition AlignUp :: "u64 \<Rightarrow> u64 \<Rightarrow> u64" where
  "AlignUp v a = (v + a - 1) AND NOT (a - 1)"

definition AlignDown :: "u64 \<Rightarrow> u64 \<Rightarrow> u64" where
  "AlignDown v a = v AND NOT (a - 1)"

text \<open>The counted loop of \<^verbatim>\<open>Pow\<close> at an unsigned type: one multiplication per unit of the exponent.\<close>

fun pow_loop :: "u64 \<Rightarrow> nat \<Rightarrow> u64 \<Rightarrow> u64" where
  "pow_loop b 0 r = r"
| "pow_loop b (Suc n) r = pow_loop b n (r * b)"

definition Pow :: "u64 \<Rightarrow> u64 \<Rightarrow> u64" where
  "Pow b e = (if e = 0 then 1 else pow_loop b (unat e) 1)"

section \<open>Alignment to a power of two\<close>

lemma and_not_mask_unat:
  "unat ((v :: u64) AND NOT (mask k)) = unat v div 2 ^ k * 2 ^ k"
proof -
  have "v AND NOT (mask k) = push_bit k (drop_bit k v)"
    by (rule bit_word_eqI) (auto simp: bit_simps)
  also have "\<dots> = v - take_bit k v"
    by (simp add: minus_mod_eq_mult_div push_bit_eq_mult drop_bit_eq_div take_bit_eq_mod mult.commute)
  finally have eq: "v AND NOT (mask k) = v - take_bit k v" .
  have le: "take_bit k v \<le> v"
    by (simp add: word_le_nat_alt unsigned_take_bit_eq take_bit_nat_eq_self_iff take_bit_nat_less_eq_self)
  have "unat (v - take_bit k v) = unat v - unat (take_bit k v)"
    using le by (rule unat_sub)
  also have "unat (take_bit k v) = unat v mod 2 ^ k"
    by (simp only: unsigned_take_bit_eq) (simp add: take_bit_eq_mod)
  finally show ?thesis
    using eq by (simp add: minus_mod_eq_div_mult)
qed

lemma PageSize_mask: "PageSize - 1 = mask 12"
  by (simp add: mask_eq_exp_minus_1)

lemma unat_AlignDown_page: "unat (AlignDown v PageSize) = unat v div 4096 * 4096"
  unfolding AlignDown_def PageSize_mask by (simp add: and_not_mask_unat)

lemma unat_AlignUp_page:
  assumes "unat v + 4095 < 2 ^ 64"
  shows "unat (AlignUp v PageSize) = (unat v + 4095) div 4096 * 4096"
proof -
  have "AlignUp v PageSize = AlignDown (v + 4095) PageSize"
    by (simp add: AlignUp_def AlignDown_def add.commute)
  moreover have "unat (v + 4095) = unat v + 4095"
    using assms by (subst unat_add_no_wrap) simp_all
  ultimately show ?thesis by (simp add: unat_AlignDown_page)
qed

lemma pow_loop_eq: "pow_loop b n r = r * b ^ n"
  by (induction n arbitrary: r) (simp_all add: algebra_simps)

end
