(* ===== verification/Bitmap.thy ===== *)
theory Bitmap
  imports Prelude
begin

text \<open>
  Bit arrays stored in bytes, as the physical memory manager and the interrupt vector allocator
  keep them: bit \<open>p\<close> is bit \<open>p mod 8\<close> of byte \<open>p div 8\<close>. The three accesses are the ones the code
  writes inline: \<^verbatim>\<open>b[p / 8] & (1 << p % 8)\<close>, \<^verbatim>\<open>b[p / 8] |= (1 << p % 8)\<close> and
  \<^verbatim>\<open>b[p / 8] &= ~(1 << p % 8)\<close>. The locale \<open>bit_array\<close> is the contract of such an array and holds the
  facts about ranges of bits that its clients use; it is interpreted on the byte lists.
\<close>

unbundle bit_operations_syntax

definition bm_get :: "u8 list \<Rightarrow> nat \<Rightarrow> bool" where
  "bm_get bm p = (bm ! (p div 8) AND push_bit (p mod 8) 1 \<noteq> 0)"

definition bm_set :: "u8 list \<Rightarrow> nat \<Rightarrow> u8 list" where
  "bm_set bm p = bm[p div 8 := bm ! (p div 8) OR push_bit (p mod 8) 1]"

definition bm_clear :: "u8 list \<Rightarrow> nat \<Rightarrow> u8 list" where
  "bm_clear bm p = bm[p div 8 := bm ! (p div 8) AND NOT (push_bit (p mod 8) 1)]"

text \<open>The same updates where the code does not check the index first.\<close>

definition bm_setR :: "nat \<Rightarrow> u8 list \<Rightarrow> fault + u8 list" where
  "bm_setR p bm = (if p div 8 < length bm then Inr (bm_set bm p) else Inl OutOfBounds)"

definition bm_clearR :: "nat \<Rightarrow> u8 list \<Rightarrow> fault + u8 list" where
  "bm_clearR p bm = (if p div 8 < length bm then Inr (bm_clear bm p) else Inl OutOfBounds)"

definition bm_bits :: "u8 list \<Rightarrow> nat" where
  "bm_bits bm = 8 * length bm"

section \<open>The contract of a bit array\<close>

locale bit_array =
  fixes get :: "'b \<Rightarrow> nat \<Rightarrow> bool"
    and put :: "nat \<Rightarrow> 'b \<Rightarrow> fault + 'b"
    and drop :: "nat \<Rightarrow> 'b \<Rightarrow> fault + 'b"
    and bits :: "'b \<Rightarrow> nat"
  assumes put_ok: "p < bits b \<Longrightarrow> \<exists>b'. put p b = Inr b' \<and> bits b' = bits b \<and> (\<forall>q. get b' q = (q = p \<or> get b q))"
    and drop_ok: "p < bits b \<Longrightarrow> \<exists>b'. drop p b = Inr b' \<and> bits b' = bits b \<and> (\<forall>q. get b' q = (q \<noteq> p \<and> get b q))"
    and put_bad: "\<not> p < bits b \<Longrightarrow> put p b = Inl OutOfBounds"
begin

lemma put_range:
  assumes "\<And>p. p \<in> set ps \<Longrightarrow> p < bits b"
  shows "\<exists>b'. foldR put ps b = Inr b' \<and> bits b' = bits b \<and> (\<forall>q. get b' q = (q \<in> set ps \<or> get b q))"
proof (rule foldR_invariant [where P = "\<lambda>xs b'. bits b' = bits b \<and> (\<forall>q. get b' q = (q \<in> set xs \<or> get b q))"])
  fix xs x ys b1
  assume "ps = xs @ x # ys" and inv: "bits b1 = bits b \<and> (\<forall>q. get b1 q = (q \<in> set xs \<or> get b q))"
  then have "x < bits b1" using assms by simp
  from put_ok [OF this] inv
  show "\<exists>s'. put x b1 = Inr s' \<and> bits s' = bits b \<and> (\<forall>q. get s' q = (q \<in> set (xs @ [x]) \<or> get b q))"
    by auto
qed simp

lemma drop_range:
  assumes "\<And>p. p \<in> set ps \<Longrightarrow> p < bits b"
  shows "\<exists>b'. foldR drop ps b = Inr b' \<and> bits b' = bits b \<and> (\<forall>q. get b' q = (q \<notin> set ps \<and> get b q))"
proof (rule foldR_invariant [where P = "\<lambda>xs b'. bits b' = bits b \<and> (\<forall>q. get b' q = (q \<notin> set xs \<and> get b q))"])
  fix xs x ys b1
  assume "ps = xs @ x # ys" and inv: "bits b1 = bits b \<and> (\<forall>q. get b1 q = (q \<notin> set xs \<and> get b q))"
  then have "x < bits b1" using assms by simp
  from drop_ok [OF this] inv
  show "\<exists>s'. drop x b1 = Inr s' \<and> bits s' = bits b \<and> (\<forall>q. get s' q = (q \<notin> set (xs @ [x]) \<and> get b q))"
    by auto
qed simp

lemma put_range_bits:
  assumes "foldR put ps b = Inr b'"
  shows "(\<forall>p \<in> set ps. p < bits b) \<and> bits b' = bits b \<and> (\<forall>q. get b' q = (q \<in> set ps \<or> get b q))"
  using assms
proof (induction ps arbitrary: b)
  case (Cons p ps)
  from Cons.prems obtain b1 where b1: "put p b = Inr b1" "foldR put ps b1 = Inr b'"
    by (auto simp: result_simps)
  then have "p < bits b" using put_bad by force
  then show ?case using put_ok [of p b] b1 Cons.IH [OF b1(2)] by auto
qed simp

end

section \<open>Byte lists are bit arrays\<close>

lemma bm_get_bit: "bm_get bm p \<longleftrightarrow> bit (bm ! (p div 8)) (p mod 8)"
  by (simp add: bm_get_def word_and_one_bit_nonzero)

lemma bm_set_length [simp]: "length (bm_set bm p) = length bm"
  by (simp add: bm_set_def)

lemma bm_clear_length [simp]: "length (bm_clear bm p) = length bm"
  by (simp add: bm_clear_def)

lemma div_mod_8_eq: "p div 8 = q div 8 \<Longrightarrow> (p mod 8 = q mod 8) = (p = (q :: nat))"
  by (metis mult_div_mod_eq)

lemma bm_get_set [bitmap_simps]:
  "p div 8 < length bm \<Longrightarrow> bm_get (bm_set bm p) q \<longleftrightarrow> q = p \<or> bm_get bm q"
  by (cases "q div 8 = p div 8")
     (auto simp: bm_get_bit bm_set_def bit_or_one_bit div_mod_8_eq)

lemma bm_get_clear [bitmap_simps]:
  "p div 8 < length bm \<Longrightarrow> bm_get (bm_clear bm p) q \<longleftrightarrow> q \<noteq> p \<and> bm_get bm q"
  by (cases "q div 8 = p div 8")
     (auto simp: bm_get_bit bm_clear_def bit_and_not_one_bit div_mod_8_eq)

lemma bm_bits_iff: "p < bm_bits bm \<longleftrightarrow> p div 8 < length bm"
  by (auto simp: bm_bits_def less_mult_imp_div_less mult.commute)

interpretation bytes: bit_array bm_get bm_setR bm_clearR bm_bits
  by unfold_locales
     (auto simp: bm_setR_def bm_clearR_def bm_bits_iff bitmap_simps, simp_all add: bm_bits_def)

text \<open>Two byte lists of the same length with the same bits are the same list.\<close>

lemma bm_eqI:
  assumes "length a = length b" and "\<And>p. p < bm_bits a \<Longrightarrow> bm_get a p = bm_get b p"
  shows "a = b"
proof (rule nth_equalityI)
  fix i assume i: "i < length a"
  show "a ! i = b ! i"
  proof (rule bit_word_eqI)
    fix n assume "n < LENGTH(8)"
    then have "8 * i + n < bm_bits a" "(8 * i + n) div 8 = i" "(8 * i + n) mod 8 = n"
      using i by (auto simp: bm_bits_def)
    then show "bit (a ! i) n = bit (b ! i) n"
      using assms(2) [of "8 * i + n"] by (simp add: bm_get_bit)
  qed
qed (use assms in simp)

text \<open>Arrays of all-ones and all-zeros bytes, and a byte appended at the end.\<close>

lemma bm_get_replicate_full [bitmap_simps]: "p < 8 * n \<Longrightarrow> bm_get (replicate n 0xFF) p"
proof -
  assume "p < 8 * n"
  then have "p div 8 < n" by (simp add: less_mult_imp_div_less mult.commute)
  moreover have "bit (0xFF :: u8) k" if "k < 8" for k
  proof -
    have "(0xFF :: u8) = mask 8" by (simp add: mask_eq_exp_minus_1)
    with that show ?thesis by (simp only: bit_mask_iff) simp
  qed
  ultimately show ?thesis by (simp add: bm_get_bit)
qed

lemma bm_get_replicate_zero [bitmap_simps]: "p < 8 * n \<Longrightarrow> \<not> bm_get (replicate n 0) p"
  by (simp add: bm_get_bit less_mult_imp_div_less mult.commute)

lemma bm_get_append [bitmap_simps]:
  "p < 8 * length bm \<Longrightarrow> bm_get (bm @ [b]) p = bm_get bm p"
  by (simp add: bm_get_bit nth_append less_mult_imp_div_less mult.commute)

lemma bm_get_last: "k < 8 \<Longrightarrow> bm_get (bm @ [b]) (8 * length bm + k) = bit b k"
  by (simp add: bm_get_bit)

end
