(* ===== verification/Physical_Memory.thy ===== *)
theory Physical_Memory
  imports Math_Util Bitmap
begin

text \<open>
  The physical memory manager (\<^verbatim>\<open>Memory/PhysicalMemoryManager.cpp\<close>): two bitmaps over the page
  frames, one for reserved frames and one for frames handed out, first-fit allocation of runs of
  frames, freeing with its panics, and the boot-time self test. \<^verbatim>\<open>Initialize\<close>, which builds both
  bitmaps from the boot loader's memory map, is in the theory after this one.

  State. The record holds the class members; the bitmap pointers are modelled by the bytes they
  point to (the code reaches them through the higher-half direct map) together with the physical
  address of the storage, so that the storage itself can be shown to be reserved. Frame numbers
  and loop counters are natural numbers, since every loop bound is the value of a 64-bit variable;
  sizes, addresses and the counters the code adds to or subtracts from are 64-bit words.
  The spinlock taken by each operation is modelled in its own theory; what is modelled here is the
  critical section. Log messages are not part of the state.
\<close>

unbundle bit_operations_syntax

record PhysicalMemoryManager =
  frameCount :: u64
  usableFrames :: u64
  bitmapSize :: u64
  bitmapMemory :: u64
  allocatableBitmap :: "u8 list"
  reservedBitmap :: "u8 list"

section \<open>Page tests, allocation and freeing\<close>

definition IsPageReserved :: "PhysicalMemoryManager \<Rightarrow> nat \<Rightarrow> fault + bool" where
  "IsPageReserved s page =
     (if page div 8 \<ge> unat (bitmapSize s) then Inl (Panic ''Page index out of bounds'')
      else if page div 8 \<ge> length (reservedBitmap s) then Inl OutOfBounds
      else Inr (bm_get (reservedBitmap s) page))"

definition IsPageAllocated :: "PhysicalMemoryManager \<Rightarrow> nat \<Rightarrow> fault + bool" where
  "IsPageAllocated s page =
     (if page div 8 \<ge> unat (bitmapSize s) then Inl (Panic ''Page index out of bounds'')
      else if page div 8 \<ge> length (allocatableBitmap s) then Inl OutOfBounds
      else Inr (bm_get (allocatableBitmap s) page))"

text \<open>
  The scan of \<^verbatim>\<open>AllocatePages\<close>: the remaining pages, then \<^verbatim>\<open>runStart\<close> and \<^verbatim>\<open>runLength\<close>. The second test
  is only made when the first one fails (\<^verbatim>\<open>&&\<close>), and the loop breaks when the run is long enough.
\<close>

fun find_run :: "PhysicalMemoryManager \<Rightarrow> nat \<Rightarrow> nat list \<Rightarrow> nat \<Rightarrow> nat \<Rightarrow> fault + nat \<times> nat" where
  "find_run s pageCount [] runStart runLength = Inr (runStart, runLength)"
| "find_run s pageCount (page # pages) runStart runLength =
     bindR (IsPageReserved s page) (\<lambda>reserved.
     bindR (if reserved then Inr True else IsPageAllocated s page) (\<lambda>used.
       if \<not> used then
         (let runStart' = (if runLength = 0 then page else runStart);
              runLength' = runLength + 1
          in if runLength' = pageCount then Inr (runStart', runLength')
             else find_run s pageCount pages runStart' runLength')
       else find_run s pageCount pages runStart 0))"

definition AllocatePages :: "u64 \<Rightarrow> PhysicalMemoryManager \<Rightarrow> fault + u64 \<times> PhysicalMemoryManager" where
  "AllocatePages pageCount s =
     (if pageCount = 0 then Inr (0, s)
      else bindR (find_run s (unat pageCount) [0..<unat (frameCount s)] 0 0) (\<lambda>(runStart, runLength).
        if runLength < unat pageCount then Inr (0, s)
        else bindR (foldR bm_setR [runStart..<runStart + unat pageCount] (allocatableBitmap s)) (\<lambda>bm.
          Inr (of_nat runStart * PageSize,
               s\<lparr>allocatableBitmap := bm, usableFrames := usableFrames s - pageCount\<rparr>))))"

definition free_page :: "nat \<Rightarrow> PhysicalMemoryManager \<Rightarrow> fault + PhysicalMemoryManager" where
  "free_page page s =
     (if page div 8 \<ge> unat (bitmapSize s) then Inl (Panic ''Page index out of bounds'')
      else bindR (IsPageReserved s page) (\<lambda>reserved.
        if reserved then Inl (Panic ''Attempted to free a reserved page'')
        else bindR (IsPageAllocated s page) (\<lambda>allocated.
          if \<not> allocated then Inl (Panic ''Attempted to free a page that is not allocated'')
          else bindR (bm_clearR page (allocatableBitmap s)) (\<lambda>bm.
            Inr (s\<lparr>allocatableBitmap := bm\<rparr>)))))"

definition FreePages :: "u64 \<Rightarrow> u64 \<Rightarrow> PhysicalMemoryManager \<Rightarrow> fault + PhysicalMemoryManager" where
  "FreePages start pageCount s =
     (if start mod PageSize \<noteq> 0 then Inl (Panic ''Invalid page start address'')
      else let startPage = start div PageSize;
               endPage = startPage + pageCount
           in bindR (foldR free_page [unat startPage..<unat endPage] s) (\<lambda>s'.
                Inr (s'\<lparr>usableFrames := usableFrames s' + pageCount\<rparr>)))"

text \<open>The boot-time self test: it logs mismatches and always answers true when it returns.\<close>

definition testPages :: u64 where
  "testPages = 10 * MiB div PageSize"

definition TestAllocationAndFreeing :: "PhysicalMemoryManager \<Rightarrow> fault + bool \<times> PhysicalMemoryManager" where
  "TestAllocationAndFreeing s0 =
     bindR (AllocatePages 1 s0) (\<lambda>(onePage, s1).
     bindR (AllocatePages 2 s1) (\<lambda>(twoPages, s2).
     bindR (AllocatePages testPages s2) (\<lambda>(megabytes, s3).
     bindR (FreePages onePage 1 s3) (\<lambda>s4.
     bindR (FreePages twoPages 2 s4) (\<lambda>s5.
     bindR (FreePages megabytes testPages s5) (\<lambda>s6.
     bindR (AllocatePages 1 s6) (\<lambda>(onePage', s7).
     bindR (AllocatePages 2 s7) (\<lambda>(twoPages', s8).
     bindR (AllocatePages testPages s8) (\<lambda>(megabytes', s9).
     bindR (FreePages onePage' 1 s9) (\<lambda>s10.
     bindR (FreePages twoPages' 2 s10) (\<lambda>s11.
     bindR (FreePages megabytes' testPages s11) (\<lambda>s12.
       Inr (True, s12)))))))))))))"

section \<open>The abstract view: sets of frames\<close>

definition frames :: "PhysicalMemoryManager \<Rightarrow> nat" where
  "frames s = unat (frameCount s)"

definition reserved_set :: "PhysicalMemoryManager \<Rightarrow> nat set" where
  "reserved_set s = {p. p < frames s \<and> bm_get (reservedBitmap s) p}"

definition allocated_set :: "PhysicalMemoryManager \<Rightarrow> nat set" where
  "allocated_set s = {p. p < frames s \<and> bm_get (allocatableBitmap s) p}"

definition free_set :: "PhysicalMemoryManager \<Rightarrow> nat set" where
  "free_set s = {p. p < frames s \<and> \<not> bm_get (reservedBitmap s) p \<and> \<not> bm_get (allocatableBitmap s) p}"

text \<open>
  The representation invariant. The bound on the number of frames says that every frame address
  fits the 52 physical address bits of a page table entry.
\<close>

definition pmm_wf :: "PhysicalMemoryManager \<Rightarrow> bool" where
  "pmm_wf s \<longleftrightarrow>
     length (allocatableBitmap s) = unat (bitmapSize s) \<and>
     length (reservedBitmap s) = unat (bitmapSize s) \<and>
     frames s = 8 * unat (bitmapSize s) \<and>
     frames s \<le> 2 ^ 40 \<and>
     {..<256} \<subseteq> reserved_set s \<and>
     allocated_set s \<inter> reserved_set s = {} \<and>
     unat (usableFrames s) = card (free_set s)"

text \<open>A run of \<open>n\<close> free frames, and the first such run.\<close>

definition run_at :: "nat set \<Rightarrow> nat \<Rightarrow> nat \<Rightarrow> bool" where
  "run_at F n st \<longleftrightarrow> {st..<st + n} \<subseteq> F"

definition first_run :: "nat set \<Rightarrow> nat \<Rightarrow> nat" where
  "first_run F n = (LEAST st. run_at F n st)"

lemma frames_free_set: "free_set s \<subseteq> {..<frames s}"
  by (auto simp: free_set_def)

lemma finite_free_set [simp]: "finite (free_set s)"
  using finite_subset [OF frames_free_set] by blast

lemma card_free_set: "card (free_set s) \<le> frames s"
  using card_mono [OF _ frames_free_set] by simp

lemma frames_less_u64: "frames s < 2 ^ 64"
  unfolding frames_def using unsigned_less [of "frameCount s", where ?'a = nat] by simp

lemma run_at_mono: "F \<subseteq> G \<Longrightarrow> run_at F n st \<Longrightarrow> run_at G n st"
  by (auto simp: run_at_def)

lemma run_at_bound: "run_at (free_set s) n st \<Longrightarrow> 0 < n \<Longrightarrow> st + n \<le> frames s"
proof -
  assume "run_at (free_set s) n st" "0 < n"
  then have "st + n - 1 \<in> free_set s" by (auto simp: run_at_def subset_iff)
  then show ?thesis using frames_free_set \<open>0 < n\<close> by fastforce
qed

lemma first_run_ok: "\<exists>st. run_at F n st \<Longrightarrow> run_at F n (first_run F n)"
  unfolding first_run_def by (erule exE) (rule LeastI)

lemma first_run_le: "run_at F n st \<Longrightarrow> first_run F n \<le> st"
  unfolding first_run_def by (rule Least_le)

text \<open>
  The search for a run, wherever it is done: \<open>k\<close> elements are visited, the last \<open>len\<close> of them are free, and no run
  starts before these.
\<close>

definition scan :: "nat set \<Rightarrow> nat \<Rightarrow> nat \<Rightarrow> nat \<Rightarrow> bool" where
  "scan F n k len \<longleftrightarrow> len \<le> k \<and> len < n \<and> {k - len..<k} \<subseteq> F \<and> (\<forall>q < k - len. \<not> run_at F n q)"

lemma scan_start: "0 < n \<Longrightarrow> scan F n 0 0"
  by (simp add: scan_def)

lemma scan_skip:
  assumes "scan F n k len" and "k \<notin> F"
  shows "scan F n (Suc k) 0"
proof -
  have "\<not> run_at F n q" if "q < Suc k" for q
  proof (cases "q < k - len")
    case False
    then have "k \<in> {q..<q + n}" using that assms(1) by (auto simp: scan_def)
    then show ?thesis using assms(2) by (auto simp: run_at_def)
  qed (use assms(1) in \<open>simp add: scan_def\<close>)
  then show ?thesis using assms(1) by (simp add: scan_def)
qed

lemma scan_extend: "scan F n k len \<Longrightarrow> k \<in> F \<Longrightarrow> Suc len < n \<Longrightarrow> scan F n (Suc k) (Suc len)"
  by (auto simp: scan_def less_Suc_eq)

lemma scan_found:
  assumes "scan F n k len" and "k \<in> F" and "Suc len = n"
  shows "run_at F n (k - len)" and "first_run F n = k - len"
proof -
  show run: "run_at F n (k - len)" using assms by (auto simp: scan_def run_at_def subset_iff less_Suc_eq)
  then show "first_run F n = k - len"
    unfolding first_run_def by (rule Least_equality) (use assms(1) in \<open>auto simp: scan_def not_less [symmetric]\<close>)
qed

lemma scan_end:
  assumes "scan F n k len" and "F \<subseteq> {..<k}"
  shows "\<not> run_at F n q"
proof
  assume run: "run_at F n q"
  then have "\<not> q < k - len" "q + n - 1 \<in> F" using assms(1) by (auto simp: scan_def run_at_def subset_iff)
  then show False using assms by (auto simp: scan_def)
qed

section \<open>Page tests on well-formed states\<close>

lemma pmm_wf_index: "pmm_wf s \<Longrightarrow> p < frames s \<longleftrightarrow> p div 8 < unat (bitmapSize s)"
  by (auto simp: pmm_wf_def less_mult_imp_div_less mult.commute)

lemma pmm_wf_bits:
  "pmm_wf s \<Longrightarrow> bm_bits (allocatableBitmap s) = frames s"
  "pmm_wf s \<Longrightarrow> bm_bits (reservedBitmap s) = frames s"
  by (auto simp: pmm_wf_def bm_bits_def)

lemma IsPageReserved_wf:
  "pmm_wf s \<Longrightarrow> p < frames s \<Longrightarrow> IsPageReserved s p = Inr (bm_get (reservedBitmap s) p)"
  using pmm_wf_index [of s p] by (auto simp: IsPageReserved_def pmm_wf_def)

lemma IsPageAllocated_wf:
  "pmm_wf s \<Longrightarrow> p < frames s \<Longrightarrow> IsPageAllocated s p = Inr (bm_get (allocatableBitmap s) p)"
  using pmm_wf_index [of s p] by (auto simp: IsPageAllocated_def pmm_wf_def)

lemma pmm_wf_disjoint: "pmm_wf s \<Longrightarrow> allocated_set s \<inter> reserved_set s = {}"
  by (simp add: pmm_wf_def)

lemma free_set_disjoint:
  "free_set s \<inter> reserved_set s = {}" "free_set s \<inter> allocated_set s = {}"
  by (auto simp: free_set_def reserved_set_def allocated_set_def)

text \<open>
  The scan, from page \<open>p\<close> on with a current run of length \<open>len\<close> that ends just before \<open>p\<close>: it
  answers the first run of \<open>n\<close> free frames, or a run that is too short when there is none.
\<close>

lemma find_run_correct:
  assumes wf: "pmm_wf s" and "p \<le> frames s" and "scan (free_set s) n p len" and "len \<noteq> 0 \<Longrightarrow> st = p - len"
  shows "\<exists>st' len'. find_run s n [p..<frames s] st len = Inr (st', len') \<and>
           (if \<exists>q. run_at (free_set s) n q then len' = n \<and> st' = first_run (free_set s) n else len' < n)"
  using assms(2-)
proof (induction "frames s - p" arbitrary: p st len)
  case 0
  then have p: "p = frames s" by simp
  have "\<not> run_at (free_set s) n q" for q by (rule scan_end [OF 0(3)]) (auto simp: p free_set_def)
  with p 0 show ?case by (auto simp: scan_def)
next
  case (Suc k)
  then have p: "p < frames s" by simp
  then have upt: "[p..<frames s] = p # [Suc p..<frames s]" by (simp add: upt_conv_Cons)
  note page = IsPageReserved_wf [OF wf p] IsPageAllocated_wf [OF wf p]
  show ?case
  proof (cases "p \<in> free_set s")
    case True
    then have free: "\<not> bm_get (reservedBitmap s) p" "\<not> bm_get (allocatableBitmap s) p"
      by (auto simp: free_set_def)
    define st1 where "st1 = (if len = 0 then p else st)"
    have st1: "st1 = p - len" using Suc.prems(3) by (auto simp: st1_def)
    show ?thesis
    proof (cases "Suc len = n")
      case n: True
      then show ?thesis using scan_found [OF Suc.prems(2) True n] st1 by (auto simp: upt page free st1_def)
    next
      case False
      then have "scan (free_set s) n (Suc p) (Suc len)" using scan_extend [OF Suc.prems(2) True] Suc.prems(2) by (simp add: scan_def)
      with Suc.hyps p st1 show ?thesis using False by (auto simp: upt page free st1_def)
    qed
  next
    case used: False
    then have u: "bm_get (reservedBitmap s) p \<or> bm_get (allocatableBitmap s) p"
      using p by (auto simp: free_set_def)
    from Suc.hyps(1) [of "Suc p" 0 st] Suc.hyps(2) p scan_skip [OF Suc.prems(2) used] u show ?thesis
      by (auto simp: upt page)
  qed
qed

section \<open>Allocation\<close>

lemma free_set_after_mark:
  assumes "\<And>q. bm_get bm q \<longleftrightarrow> q \<in> R \<or> bm_get (allocatableBitmap s) q"
  shows "free_set (s\<lparr>allocatableBitmap := bm, usableFrames := u\<rparr>) = free_set s - R"
    and "R \<subseteq> {..<frames s} \<Longrightarrow> allocated_set (s\<lparr>allocatableBitmap := bm, usableFrames := u\<rparr>) = allocated_set s \<union> R"
    and "reserved_set (s\<lparr>allocatableBitmap := bm, usableFrames := u\<rparr>) = reserved_set s"
  using assms by (auto simp: free_set_def allocated_set_def reserved_set_def frames_def)

lemma unat_sub_card:
  assumes "unat (u :: u64) = card F" and "R \<subseteq> F" and "card R = unat n" and "finite F"
  shows "unat (u - n) = card (F - R)"
proof -
  have "unat n \<le> unat u" using assms card_mono by metis
  then have "unat (u - n) = unat u - unat n" by (simp add: unat_sub word_le_nat_alt)
  then show ?thesis using assms by (simp add: card_Diff_subset finite_subset)
qed

definition same_layout :: "PhysicalMemoryManager \<Rightarrow> PhysicalMemoryManager \<Rightarrow> bool" where
  "same_layout s t \<longleftrightarrow> frameCount t = frameCount s \<and> bitmapSize t = bitmapSize s \<and>
     bitmapMemory t = bitmapMemory s \<and> reservedBitmap t = reservedBitmap s"

lemma same_layout_refl [simp]: "same_layout s s"
  by (simp add: same_layout_def)

lemma same_layout_trans: "same_layout s t \<Longrightarrow> same_layout t u \<Longrightarrow> same_layout s u"
  by (simp add: same_layout_def)

lemma same_layout_sets:
  assumes "same_layout s t"
  shows "frames t = frames s" and "reserved_set t = reserved_set s"
  using assms by (auto simp: same_layout_def frames_def reserved_set_def)

text \<open>A well-formed state is determined by its layout and the set of allocated frames.\<close>

lemma pmm_wf_eqI:
  assumes "pmm_wf s" and "pmm_wf t" and lay: "same_layout s t" and alloc: "allocated_set t = allocated_set s"
  shows "t = s"
proof -
  have fr: "frames t = frames s" using lay by (rule same_layout_sets)
  have "allocatableBitmap t = allocatableBitmap s"
  proof (rule bm_eqI)
    show "length (allocatableBitmap t) = length (allocatableBitmap s)"
      using assms by (simp add: pmm_wf_def same_layout_def)
    fix p assume "p < bm_bits (allocatableBitmap t)"
    then have "p < frames t" using pmm_wf_bits(1) [OF assms(2)] by simp
    with alloc fr show "bm_get (allocatableBitmap t) p = bm_get (allocatableBitmap s) p"
      by (auto simp: allocated_set_def set_eq_iff)
  qed
  moreover from this have "free_set t = free_set s"
    using lay fr by (simp add: free_set_def same_layout_def)
  then have "usableFrames t = usableFrames s"
    using assms(1,2) by (simp add: pmm_wf_def word_unat_eq_iff)
  ultimately show ?thesis using lay by (simp add: same_layout_def)
qed

lemma AllocatePages_none:
  assumes "pmm_wf s" and "n \<noteq> 0" and "\<nexists>q. run_at (free_set s) (unat n) q"
  shows "AllocatePages n s = Inr (0, s)"
proof -
  have n: "0 < unat n" using assms(2) by (simp add: unat_gt_0)
  show ?thesis
    using find_run_correct [OF assms(1) _ scan_start [OF n], of 0] assms(2,3) n
    by (auto simp: AllocatePages_def frames_def)
qed

lemma AllocatePages_some:
  assumes wf: "pmm_wf s" and "n \<noteq> 0" and ex: "\<exists>q. run_at (free_set s) (unat n) q"
  defines "st \<equiv> first_run (free_set s) (unat n)"
  defines "R \<equiv> {st..<st + unat n}"
  shows "\<exists>s'. AllocatePages n s = Inr (of_nat st * PageSize, s') \<and> pmm_wf s' \<and> same_layout s s' \<and>
           R \<subseteq> free_set s \<and> allocated_set s' = allocated_set s \<union> R \<and> free_set s' = free_set s - R"
proof -
  have n: "0 < unat n" using assms(2) by (simp add: unat_gt_0)
  have run: "R \<subseteq> free_set s" using first_run_ok [OF ex] by (simp add: R_def st_def run_at_def)
  then have Rf: "R \<subseteq> {..<frames s}" using frames_free_set by blast
  have scan: "find_run s (unat n) [0..<unat (frameCount s)] 0 0 = Inr (st, unat n)"
    using find_run_correct [OF wf _ scan_start [OF n], of 0] ex n by (auto simp: frames_def st_def)
  obtain bm where bm: "foldR bm_setR [st..<st + unat n] (allocatableBitmap s) = Inr bm"
      "bm_bits bm = bm_bits (allocatableBitmap s)"
      "\<And>q. bm_get bm q \<longleftrightarrow> q \<in> R \<or> bm_get (allocatableBitmap s) q"
    using bytes.put_range [of "[st..<st + unat n]" "allocatableBitmap s"] Rf pmm_wf_bits(1) [OF wf]
    unfolding R_def by (auto simp: subset_iff)
  define s' where "s' = s\<lparr>allocatableBitmap := bm, usableFrames := usableFrames s - n\<rparr>"
  have res: "AllocatePages n s = Inr (of_nat st * PageSize, s')"
    using n by (simp add: AllocatePages_def scan bm s'_def unat_gt_0)
  have lay: "same_layout s s'" by (simp add: same_layout_def s'_def)
  have sets: "free_set s' = free_set s - R" "allocated_set s' = allocated_set s \<union> R" "reserved_set s' = reserved_set s"
    using free_set_after_mark [where R = R and bm = bm and s = s] bm(3) Rf by (auto simp: s'_def)
  have "unat (usableFrames s') = card (free_set s')"
    unfolding sets(1) using wf run by (auto simp: s'_def pmm_wf_def R_def intro!: unat_sub_card)
  moreover have "allocated_set s' \<inter> reserved_set s' = {}"
    using pmm_wf_disjoint [OF wf] free_set_disjoint(1) [of s] run unfolding sets by blast
  ultimately have "pmm_wf s'"
    using wf bm(2) sets(3) by (simp add: pmm_wf_def s'_def frames_def bm_bits_def)
  with res lay run sets show ?thesis by blast
qed

text \<open>Both outcomes of a successful return at once, from the caller's side.\<close>

lemma AllocatePages_cases:
  assumes "pmm_wf s" and "n \<noteq> 0" and "AllocatePages n s = Inr (a, s')"
  obtains (none) "a = 0" "s' = s" "\<nexists>q. run_at (free_set s) (unat n) q"
  | (some) st where "a = of_nat st * PageSize" "st = first_run (free_set s) (unat n)" "pmm_wf s'" "same_layout s s'"
      "{st..<st + unat n} \<subseteq> free_set s" "allocated_set s' = allocated_set s \<union> {st..<st + unat n}"
      "free_set s' = free_set s - {st..<st + unat n}"
  using AllocatePages_none [OF assms(1,2)] AllocatePages_some [OF assms(1,2)] assms(3) by auto

lemma free_frame_bounds: "pmm_wf s \<Longrightarrow> p \<in> free_set s \<Longrightarrow> 256 \<le> p \<and> p < 2 ^ 40"
  by (force simp: pmm_wf_def free_set_def reserved_set_def)

lemma frame_addr_unat: "p < 2 ^ 40 \<Longrightarrow> unat (of_nat p * PageSize) = p * 4096"
proof -
  assume "p < 2 ^ 40"
  then have "unat (of_nat p :: u64) * unat PageSize < 2 ^ LENGTH(64)" by simp
  then have "unat (of_nat p * PageSize) = unat (of_nat p :: u64) * unat PageSize"
    by (rule unat_mult_lem [THEN iffD1])
  with \<open>p < 2 ^ 40\<close> show ?thesis by simp
qed

lemma frame_addr_zero_iff: "p < 2 ^ 40 \<Longrightarrow> of_nat p * PageSize = 0 \<longleftrightarrow> p = 0"
  using frame_addr_unat [of p] by (metis mult_eq_0_iff unat_eq_0 zero_neq_numeral)

lemma frame_addr_inj: "p < 2 ^ 40 \<Longrightarrow> q < 2 ^ 40 \<Longrightarrow> of_nat p * PageSize = of_nat q * PageSize \<longleftrightarrow> p = q"
  by (metis frame_addr_unat mult_right_cancel zero_neq_numeral)

lemma frame_addr_div: "p < 2 ^ 40 \<Longrightarrow> unat (of_nat p * PageSize div PageSize) = p"
  using frame_addr_unat [of p] by (simp add: unat_div)

lemma frame_addr_mod: "p < 2 ^ 40 \<Longrightarrow> of_nat p * PageSize mod PageSize = 0"
proof -
  assume "p < 2 ^ 40"
  then have "unat (of_nat p * PageSize mod PageSize) = 0"
    by (simp only: unat_mod frame_addr_unat) simp
  then show ?thesis by (simp only: unat_eq_0)
qed

section \<open>Freeing\<close>

lemma free_page_wf:
  assumes wf: "pmm_wf s" and len: "length (allocatableBitmap t) = length (allocatableBitmap s)"
    and lay: "same_layout s t"
  shows "free_page p t =
    (if p \<ge> frames s then Inl (Panic ''Page index out of bounds'')
     else if p \<in> reserved_set s then Inl (Panic ''Attempted to free a reserved page'')
     else if \<not> bm_get (allocatableBitmap t) p then Inl (Panic ''Attempted to free a page that is not allocated'')
     else Inr (t\<lparr>allocatableBitmap := bm_clear (allocatableBitmap t) p\<rparr>))"
  using assms pmm_wf_index [OF wf, of p]
  by (auto simp: free_page_def IsPageReserved_def IsPageAllocated_def bm_clearR_def same_layout_def
      reserved_set_def pmm_wf_def frames_def)

text \<open>The loop of \<^verbatim>\<open>FreePages\<close> succeeds exactly when every page of the range is allocated.\<close>

lemma free_loop_ok:
  assumes wf: "pmm_wf s" and sub: "set ps \<subseteq> allocated_set s" and "distinct ps"
  shows "\<exists>t. foldR free_page ps s = Inr t \<and> usableFrames t = usableFrames s \<and> same_layout s t \<and>
           length (allocatableBitmap t) = length (allocatableBitmap s) \<and>
           (\<forall>q. bm_get (allocatableBitmap t) q = (q \<notin> set ps \<and> bm_get (allocatableBitmap s) q))"
proof (rule foldR_invariant [where P = "\<lambda>xs t. usableFrames t = usableFrames s \<and> same_layout s t \<and>
           length (allocatableBitmap t) = length (allocatableBitmap s) \<and>
           (\<forall>q. bm_get (allocatableBitmap t) q = (q \<notin> set xs \<and> bm_get (allocatableBitmap s) q))"])
  fix xs p ys t
  assume ps: "ps = xs @ p # ys"
    and inv: "usableFrames t = usableFrames s \<and> same_layout s t \<and>
      length (allocatableBitmap t) = length (allocatableBitmap s) \<and>
      (\<forall>q. bm_get (allocatableBitmap t) q = (q \<notin> set xs \<and> bm_get (allocatableBitmap s) q))"
  have p: "p \<in> allocated_set s" "p \<notin> set xs" using ps assms(2,3) by auto
  then have "p \<notin> reserved_set s" "p < frames s" "bm_get (allocatableBitmap t) p"
    using wf inv by (auto simp: pmm_wf_def allocated_set_def)
  moreover from this(2) have "p div 8 < length (allocatableBitmap t)"
    using pmm_wf_index [OF wf, of p] wf inv by (simp add: pmm_wf_def)
  ultimately show "\<exists>t'. free_page p t = Inr t' \<and> usableFrames t' = usableFrames s \<and> same_layout s t' \<and>
      length (allocatableBitmap t') = length (allocatableBitmap s) \<and>
      (\<forall>q. bm_get (allocatableBitmap t') q = (q \<notin> set (xs @ [p]) \<and> bm_get (allocatableBitmap s) q))"
    using inv free_page_wf [OF wf, of t p] by (auto simp: bitmap_simps same_layout_def)
qed simp

lemma free_loop_panics:
  assumes wf: "pmm_wf s" and "\<not> set ps \<subseteq> allocated_set s" and "distinct ps"
  shows "\<exists>m. foldR free_page ps s = Inl (Panic m)"
proof -
  have "\<exists>xs p ys. ps = xs @ p # ys \<and> set xs \<subseteq> allocated_set s \<and> p \<notin> allocated_set s"
    using split_list_first_prop [of ps "\<lambda>p. p \<notin> allocated_set s"] assms(2) by blast
  then obtain xs p ys where ps: "ps = xs @ p # ys" "set xs \<subseteq> allocated_set s" "p \<notin> allocated_set s"
    by blast
  then obtain t where t: "foldR free_page xs s = Inr t" "same_layout s t"
      "length (allocatableBitmap t) = length (allocatableBitmap s)"
      "\<And>q. bm_get (allocatableBitmap t) q = (q \<notin> set xs \<and> bm_get (allocatableBitmap s) q)"
    using free_loop_ok [OF wf ps(2)] assms(3) by auto
  have "\<exists>m. free_page p t = Inl (Panic m)"
    using free_page_wf [OF wf t(3,2), of p] ps(3) t(4) by (auto simp: allocated_set_def)
  then show ?thesis by (auto simp: ps(1) foldR_append t(1))
qed

lemma FreePages_unfold:
  assumes "st < 2 ^ 40" and "st + unat n < 2 ^ 64"
  shows "FreePages (of_nat st * PageSize) n s =
    bindR (foldR free_page [st..<st + unat n] s) (\<lambda>s'. Inr (s'\<lparr>usableFrames := usableFrames s' + n\<rparr>))"
proof -
  have "unat (of_nat st * PageSize div PageSize + n) = st + unat n"
    using assms frame_addr_div [OF assms(1)] by (subst unat_add_no_wrap) auto
  then show ?thesis
    by (simp only: FreePages_def frame_addr_mod [OF assms(1)] frame_addr_div [OF assms(1)] Let_def) simp
qed

lemma FreePages_ok:
  assumes wf: "pmm_wf s" and sub: "{st..<st + unat n} \<subseteq> allocated_set s" and n: "n \<noteq> 0"
  shows "\<exists>s'. FreePages (of_nat st * PageSize) n s = Inr s' \<and> pmm_wf s' \<and> same_layout s s' \<and>
           allocated_set s' = allocated_set s - {st..<st + unat n} \<and>
           free_set s' = free_set s \<union> {st..<st + unat n}"
proof -
  define R where "R = {st..<st + unat n}"
  have n0: "0 < unat n" using n by (simp add: unat_gt_0)
  then have "st \<in> R" "st + unat n - 1 \<in> R" by (auto simp: R_def)
  then have "st < frames s" and le: "st + unat n \<le> frames s"
    using sub n0 by (auto simp: R_def allocated_set_def subset_iff)
  then have bnd: "st < 2 ^ 40" "st + unat n < 2 ^ 64"
    using wf frames_less_u64 [of s] by (auto simp: pmm_wf_def)
  obtain t where t: "foldR free_page [st..<st + unat n] s = Inr t" "usableFrames t = usableFrames s" "same_layout s t"
      "length (allocatableBitmap t) = length (allocatableBitmap s)"
      "\<And>q. bm_get (allocatableBitmap t) q = (q \<notin> R \<and> bm_get (allocatableBitmap s) q)"
    using free_loop_ok [OF wf, of "[st..<st + unat n]"] sub by (auto simp: R_def)
  define s' where "s' = t\<lparr>usableFrames := usableFrames t + n\<rparr>"
  have res: "FreePages (of_nat st * PageSize) n s = Inr s'"
    by (simp add: FreePages_unfold [OF bnd(1,2)] t(1) s'_def)
  have lay: "same_layout s s'" using t(3) by (simp add: same_layout_def s'_def)
  note fr = same_layout_sets [OF lay]
  have R: "q < frames s \<and> \<not> bm_get (reservedBitmap s) q \<and> bm_get (allocatableBitmap s) q" if "q \<in> R" for q
  proof -
    have "q \<in> allocated_set s" "q \<notin> reserved_set s"
      using sub that pmm_wf_disjoint [OF wf] by (auto simp: R_def)
    then show ?thesis by (auto simp: allocated_set_def reserved_set_def)
  qed
  have sets: "allocated_set s' = allocated_set s - R" "free_set s' = free_set s \<union> R"
    using t(3,5) R fr(1) by (auto simp: allocated_set_def free_set_def s'_def same_layout_def)
  have disj: "free_set s \<inter> R = {}" using sub by (auto simp: R_def free_set_def allocated_set_def)
  have card: "card (free_set s') = card (free_set s) + unat n"
    unfolding sets(2) using disj by (simp add: card_Un_disjoint R_def)
  moreover have "card (free_set s') < 2 ^ 64"
    using card_free_set [of s'] frames_less_u64 [of s'] by linarith
  ultimately have "unat (usableFrames s') = card (free_set s')"
    using wf t(2) unat_add_no_wrap [of "usableFrames s" n] by (simp add: s'_def pmm_wf_def)
  then have "pmm_wf s'"
    using wf lay t(4) sets(1) fr by (auto simp: pmm_wf_def same_layout_def s'_def)
  with res lay sets show ?thesis by (auto simp: R_def)
qed

lemma FreePages_panics:
  assumes wf: "pmm_wf s" and "\<not> {st..<st + unat n} \<subseteq> allocated_set s"
    and "st < 2 ^ 40" and "st + unat n < 2 ^ 64"
  shows "\<exists>m. FreePages (of_nat st * PageSize) n s = Inl (Panic m)"
  using free_loop_panics [OF wf, of "[st..<st + unat n]"] assms(2)
  by (auto simp: FreePages_unfold [OF assms(3,4)])

section \<open>The allocator's contract, as page table code uses it\<close>

text \<open>
  One frame at a time: \<open>alloc 1\<close> hands out a frame that was available, or answers 0 and changes
  nothing; \<open>free\<close> of an owned frame makes it available again. Frame 0 is never handed out, so the
  answer 0 is unambiguous, and every frame address fits a page table entry.
\<close>

locale frame_allocator =
  fixes alloc :: "u64 \<Rightarrow> 's \<Rightarrow> fault + u64 \<times> 's"
    and free :: "u64 \<Rightarrow> u64 \<Rightarrow> 's \<Rightarrow> fault + 's"
    and owned :: "'s \<Rightarrow> nat set"
    and avail :: "'s \<Rightarrow> nat set"
    and inv :: "'s \<Rightarrow> bool"
    and layout :: "'s \<Rightarrow> 's \<Rightarrow> bool"
  assumes alloc_one: "inv s \<Longrightarrow> avail s \<noteq> {} \<Longrightarrow>
      \<exists>f s'. alloc 1 s = Inr (of_nat f * PageSize, s') \<and> f \<in> avail s \<and> inv s' \<and>
        owned s' = insert f (owned s) \<and> avail s' = avail s - {f} \<and> layout s s'"
    and alloc_none: "inv s \<Longrightarrow> avail s = {} \<Longrightarrow> alloc 1 s = Inr (0, s)"
    and free_one: "inv s \<Longrightarrow> f \<in> owned s \<Longrightarrow>
      \<exists>s'. free (of_nat f * PageSize) 1 s = Inr s' \<and> inv s' \<and>
        owned s' = owned s - {f} \<and> avail s' = insert f (avail s) \<and> layout s s'"
    and disjoint: "inv s \<Longrightarrow> owned s \<inter> avail s = {}"
    and avail_bounds: "inv s \<Longrightarrow> f \<in> avail s \<Longrightarrow> 0 < f \<and> f < 2 ^ 40"
    and owned_bounds: "inv s \<Longrightarrow> f \<in> owned s \<Longrightarrow> 0 < f \<and> f < 2 ^ 40"
    and finite_avail: "inv s \<Longrightarrow> finite (avail s)"
begin

lemma alloc_cases:
  assumes "inv s"
  obtains (none) "avail s = {}" "alloc 1 s = Inr (0, s)"
  | (some) f s' where "alloc 1 s = Inr (of_nat f * PageSize, s')" "f \<in> avail s" "f \<notin> owned s" "0 < f" "f < 2 ^ 40"
      "of_nat f * PageSize \<noteq> 0" "inv s'" "owned s' = insert f (owned s)" "avail s' = avail s - {f}" "layout s s'"
proof (cases "avail s = {}")
  case True
  then show ?thesis using alloc_none assms none by blast
next
  case False
  then obtain f s' where "alloc 1 s = Inr (of_nat f * PageSize, s')" "f \<in> avail s" "inv s'"
      "owned s' = insert f (owned s)" "avail s' = avail s - {f}" "layout s s'"
    using alloc_one assms by blast
  then show ?thesis
    using some disjoint [OF assms] avail_bounds [OF assms, of f] frame_addr_zero_iff [of f] by blast
qed

lemma alloc_never_panics: "inv s \<Longrightarrow> \<exists>a s'. alloc 1 s = Inr (a, s') \<and> inv s' \<and> owned s \<subseteq> owned s'"
  by (cases rule: alloc_cases [of s]) auto

lemma alloc_fails_iff: "inv s \<Longrightarrow> (\<exists>s'. alloc 1 s = Inr (0, s')) \<longleftrightarrow> avail s = {}"
  by (cases rule: alloc_cases [of s]) auto

lemma alloc_free_sets:
  assumes "inv s" and "alloc 1 s = Inr (a, s')" and "a \<noteq> 0"
  shows "\<exists>s''. free a 1 s' = Inr s'' \<and> inv s'' \<and> owned s'' = owned s \<and> avail s'' = avail s"
  using assms(1)
proof (cases rule: alloc_cases)
  case (some f t)
  then have "free a 1 s' = free (of_nat f * PageSize) 1 t" "f \<in> owned t" "s' = t"
    using assms(2) by auto
  then show ?thesis using free_one [of t f] some by auto
qed (use assms in auto)

end

lemma run_at_one [simp]: "run_at F (Suc 0) st \<longleftrightarrow> st \<in> F"
  by (simp add: run_at_def)

lemma allocated_bounds: "pmm_wf s \<Longrightarrow> p \<in> allocated_set s \<Longrightarrow> 256 \<le> p \<and> p < 2 ^ 40"
  using pmm_wf_disjoint [of s] by (force simp: pmm_wf_def allocated_set_def)

interpretation pmm: frame_allocator AllocatePages FreePages allocated_set free_set pmm_wf same_layout
proof (unfold_locales, goal_cases)
  case (1 s)
  then have "\<exists>q. run_at (free_set s) (unat (1 :: u64)) q" by auto
  from AllocatePages_some [OF 1(1) _ this] show ?case by fastforce
next
  case (2 s)
  then show ?case by (intro AllocatePages_none) auto
next
  case (3 s f)
  then show ?case using FreePages_ok [of s f 1] by (force simp: atLeastLessThanSuc)
next
  case (4 s)
  then show ?case using free_set_disjoint(2) [of s] by blast
next
  case (5 s f)
  then show ?case using free_frame_bounds by fastforce
next
  case (6 s f)
  then show ?case using allocated_bounds by fastforce
qed simp

section \<open>Properties of allocation and freeing\<close>

text \<open>A small concrete state: 264 frames, the first 256 and the last two reserved.\<close>

definition example_pmm :: PhysicalMemoryManager where
  "example_pmm = \<lparr>frameCount = 264, usableFrames = 6, bitmapSize = 33, bitmapMemory = 0x100000,
     allocatableBitmap = replicate 33 0, reservedBitmap = replicate 32 0xFF @ [0xC0]\<rparr>"

lemma example_pmm_reserved:
  assumes "p < 264"
  shows "bm_get (reservedBitmap example_pmm) p \<longleftrightarrow> p < 256 \<or> 262 \<le> p"
proof (cases "p < 256")
  case True
  then show ?thesis by (simp add: example_pmm_def bitmap_simps)
next
  case False
  with assms have "p - 256 \<in> {0, 1, 2, 3, 4, 5, 6, 7}" by auto
  moreover have "p = 8 * length (replicate 32 (0xFF :: u8)) + (p - 256)" using False by simp
  ultimately show ?thesis
    using bm_get_last [of "p - 256" "replicate 32 0xFF" "0xC0"] False
    by (auto simp: example_pmm_def)
qed

lemma example_pmm_free: "free_set example_pmm = {256, 257, 258, 259, 260, 261}"
proof -
  have "frames example_pmm = 264" by (simp add: frames_def example_pmm_def)
  moreover have "\<not> bm_get (allocatableBitmap example_pmm) p" if "p < 264" for p
    using that by (simp add: example_pmm_def bitmap_simps)
  ultimately show ?thesis by (auto simp: free_set_def example_pmm_reserved)
qed

lemma example_pmm_no_allocation: "allocated_set example_pmm = {}"
  by (auto simp: allocated_set_def frames_def example_pmm_def bitmap_simps)

lemma example_pmm_wf: "pmm_wf example_pmm"
proof -
  have fr: "frames example_pmm = 264" by (simp add: frames_def example_pmm_def)
  note example_pmm_no_allocation
  moreover have "{..<256} \<subseteq> reserved_set example_pmm"
    using fr by (auto simp: reserved_set_def example_pmm_reserved)
  ultimately show ?thesis
    using fr by (simp add: pmm_wf_def example_pmm_free) (simp add: example_pmm_def)
qed

text \<open>
  C1. Allocation is first fit. On a well-formed state, a request for a positive number of pages
  succeeds exactly when that many consecutive frames are free; the answer is the address of the
  lowest such run, it is not 0, exactly those frames become allocated, the frames of earlier
  allocations and the reserved frames are untouched, and the state stays well formed (in
  particular the count of usable frames stays exact). Otherwise the answer is 0 and the state is
  unchanged. No panic and no access outside a bitmap can happen.
\<close>

theorem AllocatePages_first_fit:
  assumes "pmm_wf s" and "n \<noteq> 0"
  shows "if \<exists>q. run_at (free_set s) (unat n) q
         then \<exists>s' st. st = first_run (free_set s) (unat n) \<and> AllocatePages n s = Inr (of_nat st * PageSize, s') \<and>
                unat (of_nat st * PageSize) = st * 4096 \<and> 256 \<le> st \<and> {st..<st + unat n} \<subseteq> free_set s \<and>
                pmm_wf s' \<and> reserved_set s' = reserved_set s \<and>
                allocated_set s' = allocated_set s \<union> {st..<st + unat n} \<and>
                free_set s' = free_set s - {st..<st + unat n}
         else AllocatePages n s = Inr (0, s)"
proof (cases "\<exists>q. run_at (free_set s) (unat n) q")
  case True
  from AllocatePages_some [OF assms True]
  obtain s' where s': "AllocatePages n s = Inr (of_nat (first_run (free_set s) (unat n)) * PageSize, s')"
    "pmm_wf s'" "same_layout s s'"
    "{first_run (free_set s) (unat n)..<first_run (free_set s) (unat n) + unat n} \<subseteq> free_set s"
    "allocated_set s' = allocated_set s \<union> {first_run (free_set s) (unat n)..<first_run (free_set s) (unat n) + unat n}"
    "free_set s' = free_set s - {first_run (free_set s) (unat n)..<first_run (free_set s) (unat n) + unat n}"
    by blast
  have "first_run (free_set s) (unat n) \<in> free_set s"
    using s'(4) assms(2) by (auto simp: unat_gt_0)
  from free_frame_bounds [OF assms(1) this] frame_addr_unat
  show ?thesis using True s' same_layout_sets(2) [OF s'(3)] by auto
qed (simp add: AllocatePages_none [OF assms])

theorem AllocatePages_first_fit_witness:
  "\<exists>s' st. AllocatePages 2 example_pmm = Inr (of_nat st * PageSize, s') \<and> 256 \<le> st \<and> pmm_wf s' \<and>
     allocated_set s' = allocated_set example_pmm \<union> {st..<st + 2}"
proof -
  have run: "\<exists>q. run_at (free_set example_pmm) (unat (2 :: u64)) q"
    by (rule exI [of _ 256]) (auto simp: run_at_def example_pmm_free)
  show ?thesis
    using AllocatePages_first_fit [OF example_pmm_wf, of 2] run by auto
qed

text \<open>Any page-aligned start address is the address of a frame.\<close>

lemma aligned_start:
  assumes "start mod PageSize = 0"
  shows "start = of_nat (unat start div 4096) * PageSize" and "unat start div 4096 < 2 ^ 52"
proof -
  have "unat (start mod PageSize) = 0" using assms by simp
  then have d: "unat start mod 4096 = 0" by (simp add: unat_mod)
  have "unat start div 4096 * 4096 = unat start" using d by (simp add: div_mod_decomp minus_mod_eq_div_mult [symmetric])
  then have "of_nat (unat start div 4096) * (of_nat 4096 :: u64) = of_nat (unat start)"
    by (simp only: of_nat_mult [symmetric])
  then show "start = of_nat (unat start div 4096) * PageSize" by simp
  show "unat start div 4096 < 2 ^ 52"
    using unsigned_less [of start, where ?'a = nat] by (simp add: less_mult_imp_div_less)
qed

lemma FreePages_unfold_aligned:
  assumes "start mod PageSize = 0" and "unat start div 4096 + unat n < 2 ^ 64"
  shows "FreePages start n s = bindR (foldR free_page [unat start div 4096..<unat start div 4096 + unat n] s)
    (\<lambda>s'. Inr (s'\<lparr>usableFrames := usableFrames s' + n\<rparr>))"
proof -
  have d: "unat (start div PageSize) = unat start div 4096" by (simp add: unat_div)
  have "unat (start div PageSize + n) = unat start div 4096 + unat n"
    using assms(2) d by (subst unat_add_no_wrap) auto
  then show ?thesis using assms(1) d by (simp add: FreePages_def)
qed


lemma example_pmm_allocated:
  "\<exists>s. AllocatePages 2 example_pmm = Inr (of_nat 256 * PageSize, s) \<and> pmm_wf s \<and> {256..<258} \<subseteq> allocated_set s"
proof -
  have run: "run_at (free_set example_pmm) (unat (2 :: u64)) 256"
    by (auto simp: run_at_def example_pmm_free)
  then have "first_run (free_set example_pmm) (unat (2 :: u64)) = 256"
    unfolding first_run_def
    by (rule Least_equality) (auto simp: run_at_def example_pmm_free subset_iff)
  moreover have "\<exists>q. run_at (free_set example_pmm) (unat (2 :: u64)) q" using run by blast
  ultimately show ?thesis using AllocatePages_some [OF example_pmm_wf, of 2] by auto
qed


text \<open>
  C3. Freeing what was just allocated gives back the very same state: both bitmaps, the count of
  usable frames and the layout.
\<close>

theorem AllocatePages_FreePages:
  assumes wf: "pmm_wf s" and n: "n \<noteq> 0" and alloc: "AllocatePages n s = Inr (a, s')" and a: "a \<noteq> 0"
  shows "FreePages a n s' = Inr s"
  using wf n alloc
proof (cases rule: AllocatePages_cases)
  case none
  then show ?thesis using a by simp
next
  case (some st)
  then have "{st..<st + unat n} \<subseteq> allocated_set s'" by auto
  from FreePages_ok [OF some(3) this n] obtain s'' where s'': "FreePages a n s' = Inr s''" "pmm_wf s''"
    "same_layout s' s''" "allocated_set s'' = allocated_set s' - {st..<st + unat n}"
    using some(1) by auto
  have "allocated_set s'' = allocated_set s"
    using s''(4) some(5,6) free_set_disjoint(2) [of s] by blast
  with pmm_wf_eqI [OF wf s''(2)] same_layout_trans [OF some(4) s''(3)] s''(1) show ?thesis by auto
qed

theorem AllocatePages_FreePages_witness:
  "\<exists>s. AllocatePages 2 example_pmm = Inr (of_nat 256 * PageSize, s) \<and>
       FreePages (of_nat 256 * PageSize) 2 s = Inr example_pmm"
proof -
  obtain s where s: "AllocatePages 2 example_pmm = Inr (of_nat 256 * PageSize, s)"
    using example_pmm_allocated by blast
  with AllocatePages_FreePages [OF example_pmm_wf _ s] show ?thesis by simp
qed

section \<open>The boot-time self test\<close>

text \<open>One round of the test: three allocations, then three frees in the same order.\<close>

definition test_round :: "PhysicalMemoryManager \<Rightarrow> fault + PhysicalMemoryManager" where
  "test_round s0 =
     bindR (AllocatePages 1 s0) (\<lambda>(onePage, s1).
     bindR (AllocatePages 2 s1) (\<lambda>(twoPages, s2).
     bindR (AllocatePages testPages s2) (\<lambda>(megabytes, s3).
     bindR (FreePages onePage 1 s3) (\<lambda>s4.
     bindR (FreePages twoPages 2 s4) (\<lambda>s5.
     FreePages megabytes testPages s5)))))"

lemma TestAllocationAndFreeing_rounds:
  "TestAllocationAndFreeing s = bindR (test_round s) (\<lambda>s6. bindR (test_round s6) (\<lambda>s12. Inr (True, s12)))"
  unfolding TestAllocationAndFreeing_def test_round_def bindR_assoc
  by (simp add: case_prod_unfold bindR_assoc)

lemma testPages_eq: "testPages = 2560"
  by (simp add: testPages_def)

text \<open>Allocation from any state returns; freeing address 0 panics, because frame 0 is reserved.\<close>

lemma AllocatePages_returns:
  assumes "pmm_wf s" and "n \<noteq> 0"
  obtains a s' where "AllocatePages n s = Inr (a, s')"
  using AllocatePages_none [OF assms] AllocatePages_some [OF assms] by blast

lemma FreePages_zero_panics:
  assumes "pmm_wf s" and "n \<noteq> 0"
  shows "\<exists>m. FreePages 0 n s = Inl (Panic m)"
proof -
  have "0 \<notin> allocated_set s" using allocated_bounds [OF assms(1), of 0] by auto
  moreover have "0 \<in> {0..<0 + unat n}" using assms(2) by (simp add: unat_gt_0)
  ultimately have "\<not> {0..<0 + unat n} \<subseteq> allocated_set s" by blast
  from FreePages_panics [OF assms(1) this] unsigned_less [of n, where ?'a = nat] show ?thesis by auto
qed

text \<open>
  First fit takes the lowest run, so of any run of \<open>k\<close> free frames at least the last \<open>k - n\<close> are
  still free after \<open>n\<close> frames have been allocated.
\<close>

lemma run_survives:
  assumes wf: "pmm_wf s" and n: "n \<noteq> 0" and run: "run_at (free_set s) k q" and "unat n \<le> k"
    and alloc: "AllocatePages n s = Inr (a, s')"
  shows "a \<noteq> 0 \<and> run_at (free_set s') (k - unat n) (q + unat n)"
proof -
  have q: "run_at (free_set s) (unat n) q"
    using run assms(4) by (auto simp: run_at_def subset_iff)
  show ?thesis
    using wf n alloc
  proof (cases rule: AllocatePages_cases)
    case none
    then show ?thesis using q by blast
  next
    case (some st)
    have "st \<in> free_set s" using some(5) n by (auto simp: unat_gt_0)
    then have "a \<noteq> 0"
      using free_frame_bounds [OF wf, of st] frame_addr_zero_iff [of st] some(1) by auto
    moreover have "st \<le> q" using first_run_le [OF q] some(2) by simp
    then have "run_at (free_set s') (k - unat n) (q + unat n)"
      using run assms(4) some(7) by (auto simp: run_at_def subset_iff)
    ultimately show ?thesis by simp
  qed
qed

text \<open>Three non-zero allocations freed in turn give the start state back.\<close>

lemma free_step:
  assumes "pmm_wf s" and "n \<noteq> 0" and "{st..<st + unat n} \<subseteq> allocated_set s"
  obtains s' where "FreePages (of_nat st * PageSize) n s = Inr s'" "pmm_wf s'" "same_layout s s'"
    "allocated_set s' = allocated_set s - {st..<st + unat n}"
  using FreePages_ok [OF assms(1,3,2)] by blast

lemma take_give_back:
  "A \<inter> F = {} \<Longrightarrow> R1 \<subseteq> F \<Longrightarrow> R2 \<subseteq> F - R1 \<Longrightarrow> R3 \<subseteq> F - R1 - R2 \<Longrightarrow>
   A \<union> R1 \<union> R2 \<union> R3 - R1 - R2 - R3 = A"
  by blast

lemma test_round_restores:
  assumes wf: "pmm_wf s" and n: "n1 \<noteq> 0" "n2 \<noteq> 0" "n3 \<noteq> 0"
    and a: "AllocatePages n1 s = Inr (a1, s1)" "AllocatePages n2 s1 = Inr (a2, s2)" "AllocatePages n3 s2 = Inr (a3, s3)"
    and nz: "a1 \<noteq> 0" "a2 \<noteq> 0" "a3 \<noteq> 0"
  shows "bindR (FreePages a1 n1 s3) (\<lambda>s4. bindR (FreePages a2 n2 s4) (\<lambda>s5. FreePages a3 n3 s5)) = Inr s"
proof -
  obtain st1 where 1: "a1 = of_nat st1 * PageSize" "pmm_wf s1" "same_layout s s1" "{st1..<st1 + unat n1} \<subseteq> free_set s"
      "allocated_set s1 = allocated_set s \<union> {st1..<st1 + unat n1}" "free_set s1 = free_set s - {st1..<st1 + unat n1}"
    using wf n(1) a(1) nz(1) by (cases rule: AllocatePages_cases) auto
  obtain st2 where 2: "a2 = of_nat st2 * PageSize" "pmm_wf s2" "same_layout s1 s2" "{st2..<st2 + unat n2} \<subseteq> free_set s1"
      "allocated_set s2 = allocated_set s1 \<union> {st2..<st2 + unat n2}" "free_set s2 = free_set s1 - {st2..<st2 + unat n2}"
    using 1(2) n(2) a(2) nz(2) by (cases rule: AllocatePages_cases) auto
  obtain st3 where 3: "a3 = of_nat st3 * PageSize" "pmm_wf s3" "same_layout s2 s3" "{st3..<st3 + unat n3} \<subseteq> free_set s2"
      "allocated_set s3 = allocated_set s2 \<union> {st3..<st3 + unat n3}"
    using 2(2) n(3) a(3) nz(3) by (cases rule: AllocatePages_cases) auto
  have "{st1..<st1 + unat n1} \<subseteq> allocated_set s3" using 1(5) 2(5) 3(5) by blast
  from free_step [OF 3(2) n(1) this] obtain s4 where 4: "FreePages a1 n1 s3 = Inr s4" "pmm_wf s4" "same_layout s3 s4"
      "allocated_set s4 = allocated_set s3 - {st1..<st1 + unat n1}" using 1(1) by blast
  have "{st2..<st2 + unat n2} \<subseteq> allocated_set s4" using 1(6) 2(4,5) 3(5) 4(4) by blast
  from free_step [OF 4(2) n(2) this] obtain s5 where 5: "FreePages a2 n2 s4 = Inr s5" "pmm_wf s5" "same_layout s4 s5"
      "allocated_set s5 = allocated_set s4 - {st2..<st2 + unat n2}" using 2(1) by blast
  have "{st3..<st3 + unat n3} \<subseteq> allocated_set s5" using 1(6) 2(6) 3(4,5) 4(4) 5(4) by blast
  from free_step [OF 5(2) n(3) this] obtain s6 where 6: "FreePages a3 n3 s5 = Inr s6" "pmm_wf s6" "same_layout s5 s6"
      "allocated_set s6 = allocated_set s5 - {st3..<st3 + unat n3}" using 3(1) by blast
  have "allocated_set s6 = allocated_set s"
    unfolding 6(4) 5(4) 4(4) 3(5) 2(5) 1(5)
    by (rule take_give_back [of _ "free_set s"]) (use free_set_disjoint(2) [of s] 1(4,6) 2(4,6) 3(4) in auto)
  moreover have "same_layout s s6"
    using 1(3) 2(3) 3(3) 4(3) 5(3) 6(3) by (meson same_layout_trans)
  ultimately have "s6 = s" using pmm_wf_eqI [OF wf 6(2)] by blast
  then show ?thesis by (simp add: 4 5 6)
qed

text \<open>A free that returns was a free of allocated pages at a non-zero address.\<close>

lemma FreePages_returns:
  assumes wf: "pmm_wf s" and n: "n \<noteq> 0" "unat n \<le> 2 ^ 63" and ret: "FreePages a n s = Inr s'"
  shows "a \<noteq> 0 \<and> pmm_wf s'"
proof -
  have al: "a mod PageSize = 0" using ret by (simp add: FreePages_def split: if_splits)
  note start = aligned_start [OF al]
  have nw: "unat a div 4096 + unat n < 2 ^ 64" using start(2) n(2) by simp
  have "{unat a div 4096..<unat a div 4096 + unat n} \<subseteq> allocated_set s"
  proof (rule ccontr)
    assume "\<not> ?thesis"
    with free_loop_panics [OF wf, of "[unat a div 4096..<unat a div 4096 + unat n]"] ret show False
      by (auto simp: FreePages_unfold_aligned [OF al nw])
  qed
  from FreePages_ok [OF wf this n(1)] ret start(1) have "pmm_wf s'" by auto
  moreover have "a \<noteq> 0" using FreePages_zero_panics [OF wf n(1)] ret by auto
  ultimately show ?thesis by simp
qed

lemma AllocatePages_wf: "pmm_wf s \<Longrightarrow> n \<noteq> 0 \<Longrightarrow> AllocatePages n s = Inr (a, s') \<Longrightarrow> pmm_wf s'"
  by (metis AllocatePages_cases)

text \<open>A round either gives back the start state or panics; it never ends in an access fault.\<close>

lemma test_round_returns:
  assumes wf: "pmm_wf s" and ret: "test_round s = Inr t"
  shows "t = s"
proof -
  obtain a1 s1 a2 s2 a3 s3 s4 s5 where
      a: "AllocatePages 1 s = Inr (a1, s1)" "AllocatePages 2 s1 = Inr (a2, s2)"
         "AllocatePages testPages s2 = Inr (a3, s3)"
    and f: "FreePages a1 1 s3 = Inr s4" "FreePages a2 2 s4 = Inr s5" "FreePages a3 testPages s5 = Inr t"
    using ret by (auto simp: test_round_def result_simps)
  have wf3: "pmm_wf s3"
    using AllocatePages_wf [OF AllocatePages_wf [OF AllocatePages_wf [OF wf _ a(1)] _ a(2)] _ a(3)]
    by (simp add: testPages_eq)
  have 4: "a1 \<noteq> 0 \<and> pmm_wf s4" using FreePages_returns [OF wf3 _ _ f(1)] by simp
  then have 5: "a2 \<noteq> 0 \<and> pmm_wf s5" using FreePages_returns [OF _ _ _ f(2)] by simp
  then have "a3 \<noteq> 0" using FreePages_returns [OF _ _ _ f(3)] by (simp add: testPages_eq)
  with test_round_restores [OF wf _ _ _ a] 4 5 f show ?thesis by (simp add: testPages_eq)
qed

lemma test_round_succeeds:
  assumes wf: "pmm_wf s" and run: "run_at (free_set s) 2563 q"
  shows "test_round s = Inr s"
proof -
  obtain a1 s1 where 1: "AllocatePages 1 s = Inr (a1, s1)"
    by (rule AllocatePages_returns [OF wf, of 1]) simp_all
  have r1: "a1 \<noteq> 0" "run_at (free_set s1) 2562 (q + 1)" using run_survives [OF wf _ run _ 1] by auto
  have wf1: "pmm_wf s1" using AllocatePages_wf [OF wf _ 1] by simp
  obtain a2 s2 where 2: "AllocatePages 2 s1 = Inr (a2, s2)"
    by (rule AllocatePages_returns [OF wf1, of 2]) simp_all
  have r2: "a2 \<noteq> 0" "run_at (free_set s2) 2560 (q + 1 + 2)" using run_survives [OF wf1 _ r1(2) _ 2] by auto
  have wf2: "pmm_wf s2" using AllocatePages_wf [OF wf1 _ 2] by simp
  obtain a3 s3 where 3: "AllocatePages testPages s2 = Inr (a3, s3)"
    by (rule AllocatePages_returns [OF wf2, of testPages]) (simp_all add: testPages_eq)
  have "a3 \<noteq> 0" using run_survives [OF wf2 _ r2(2) _ 3] by (auto simp: testPages_eq)
  with test_round_restores [OF wf _ _ _ 1 2 3] r1 r2 show ?thesis
    by (simp add: test_round_def 1 2 3 [unfolded testPages_eq] testPages_eq)
qed

text \<open>
  C4. The boot-time self test is transparent: whenever it returns it answers true and leaves the
  memory manager exactly as it found it; and it does return when 2563 consecutive frames (one page,
  two pages and ten megabytes) are free. When it does not return, it panics.
\<close>

theorem TestAllocationAndFreeing_transparent:
  assumes wf: "pmm_wf s"
  shows "(\<forall>ok s'. TestAllocationAndFreeing s = Inr (ok, s') \<longrightarrow> ok \<and> s' = s) \<and>
         ((\<exists>q. run_at (free_set s) 2563 q) \<longrightarrow> TestAllocationAndFreeing s = Inr (True, s))"
  using test_round_returns [OF wf] test_round_succeeds [OF wf]
  by (auto simp: TestAllocationAndFreeing_rounds result_simps)

end
