(* ===== verification/Memory_Map.thy ===== *)
theory Memory_Map
  imports Physical_Memory
begin

text \<open>
  \<^verbatim>\<open>PhysicalMemoryManager::Initialize\<close>: from the boot loader's memory map to the two bitmaps. The
  theory holds the loops of the function in their order, the function itself, and the proofs that
  the state it builds is well formed and that it only ever lets frames be allocated that lie
  completely inside usable memory, above the first megabyte and outside the bitmaps themselves.
\<close>

unbundle bit_operations_syntax

section \<open>Building the bitmaps from the memory map\<close>

record limine_memmap_entry =
  entry_base :: u64
  entry_length :: u64
  entry_type :: u64

definition LIMINE_MEMMAP_USABLE :: u64 where
  "LIMINE_MEMMAP_USABLE = 0"

record region =
  region_addr :: u64
  region_length :: u64

text \<open>The first loop: the usable entries that end above 1 MiB, and the highest end address.\<close>

fun collect_regions :: "limine_memmap_entry list \<Rightarrow> u64 \<Rightarrow> region list \<times> u64" where
  "collect_regions [] endAddr = ([], endAddr)"
| "collect_regions (entry # entries) endAddr =
     (if entry_type entry \<noteq> LIMINE_MEMMAP_USABLE then collect_regions entries endAddr
      else if entry_base entry + entry_length entry \<le> 1 * MiB then collect_regions entries endAddr
      else let endAddr' = (if endAddr < entry_base entry + entry_length entry
                           then entry_base entry + entry_length entry else endAddr);
               (regions, endAddr'') = collect_regions entries endAddr'
           in (\<lparr>region_addr = entry_base entry, region_length = entry_length entry\<rparr> # regions, endAddr''))"

definition region_start :: "region \<Rightarrow> u64" where
  "region_start r = AlignUp (region_addr r) PageSize"

definition region_end :: "region \<Rightarrow> u64" where
  "region_end r = AlignDown (region_addr r + region_length r) PageSize"

text \<open>
  The second loop: the first region whose page-aligned part holds both bitmaps gives up its front.
  The result is the address of the storage (0 is the null pointer) and the regions left.
\<close>

fun place_bitmaps :: "u64 \<Rightarrow> region list \<Rightarrow> u64 \<times> region list" where
  "place_bitmaps required [] = (0, [])"
| "place_bitmaps required (r # rs) =
     (let start = region_start r; end = region_end r;
          size = (if end > start then end - start else 0)
      in if size \<ge> required
         then (start, \<lparr>region_addr = region_addr r + required, region_length = region_length r - required\<rparr> # rs)
         else let (memory, rs') = place_bitmaps required rs in (memory, r # rs'))"

text \<open>
  The loop that frees a region in the reserved bitmap walks page-aligned addresses up to a
  page-aligned end, so it visits one frame after the other.
\<close>

definition region_frames :: "region \<Rightarrow> nat list" where
  "region_frames r = [unat (region_start r) div 4096..<unat (region_end r) div 4096]"

definition clear_region :: "region \<Rightarrow> u8 list \<Rightarrow> fault + u8 list" where
  "clear_region r bm = foldR bm_clearR (region_frames r) bm"

fun count_usable :: "u8 list \<Rightarrow> nat list \<Rightarrow> u64 \<Rightarrow> u64" where
  "count_usable bm [] n = n"
| "count_usable bm (i # is) n = count_usable bm is (if \<not> bm_get bm i then n + 1 else n)"

definition initialBitmapSize :: "u64 \<Rightarrow> u64" where
  "initialBitmapSize endAddr = AlignUp ((endAddr div PageSize + 7) div 8) PageSize"

definition build_bitmaps :: "limine_memmap_entry list \<Rightarrow> fault + PhysicalMemoryManager" where
  "build_bitmaps memmap =
     (let (regions, endAddr) = collect_regions memmap 0;
          size = initialBitmapSize endAddr;
          required = size * 2;
          (memory, regions') = place_bitmaps required regions
      in if memory = 0 then Inl (Panic ''No valid memory region found for the bitmaps'')
         else let bitmapStart = memory div PageSize;
                  bitmapEnd = AlignUp (bitmapStart + required) PageSize div PageSize;
                  full = replicate (unat size) (0xFF :: u8)
              in bindR (foldR clear_region regions' full) (\<lambda>reserved1.
                 bindR (foldR bm_setR [0..<unat (1 * MiB div PageSize)] reserved1) (\<lambda>reserved2.
                 bindR (foldR bm_setR [unat bitmapStart..<unat bitmapEnd] reserved2) (\<lambda>reserved.
                   Inr \<lparr>frameCount = size * 8,
                        usableFrames = count_usable reserved [0..<unat (size * 8)] 0,
                        bitmapSize = size,
                        bitmapMemory = memory,
                        allocatableBitmap = replicate (unat size) 0,
                        reservedBitmap = reserved\<rparr>))))"

definition PMM_Initialize :: "limine_memmap_entry list option \<Rightarrow> u64 option \<Rightarrow> fault + PhysicalMemoryManager" where
  "PMM_Initialize memmap hhdm =
     (case memmap of None \<Rightarrow> Inl (Panic ''Memory map not available'')
      | Some entries \<Rightarrow>
        (case hhdm of None \<Rightarrow> Inl (Panic ''HHDM not available'')
         | Some _ \<Rightarrow>
           bindR (build_bitmaps entries) (\<lambda>s.
           bindR (TestAllocationAndFreeing s) (\<lambda>(ok, s').
             if \<not> ok then Inl (Panic ''Failed test case'') else Inr s'))))"

section \<open>What the boot loader promises\<close>

text \<open>
  The Limine protocol: usable entries do not overlap. The entries end within the 52-bit physical
  address space (and so do not wrap), and none starts at address 0, which the code could not tell
  from the null pointer.
\<close>

definition entry_end :: "limine_memmap_entry \<Rightarrow> nat" where
  "entry_end e = unat (entry_base e) + unat (entry_length e)"

definition usable_entry :: "limine_memmap_entry \<Rightarrow> bool" where
  "usable_entry e \<longleftrightarrow> entry_type e = LIMINE_MEMMAP_USABLE \<and> \<not> entry_base e + entry_length e \<le> 1 * MiB"

fun apart :: "limine_memmap_entry list \<Rightarrow> bool" where
  "apart [] = True"
| "apart (e # es) = ((\<forall>d \<in> set es. entry_end e \<le> unat (entry_base d) \<or> entry_end d \<le> unat (entry_base e)) \<and> apart es)"

definition memmap_ok :: "limine_memmap_entry list \<Rightarrow> bool" where
  "memmap_ok es \<longleftrightarrow> (\<forall>e \<in> set es. entry_end e \<le> 2 ^ 52 \<and> 0 < unat (entry_base e)) \<and> apart (filter usable_entry es)"

definition region_of :: "limine_memmap_entry \<Rightarrow> region" where
  "region_of e = \<lparr>region_addr = entry_base e, region_length = entry_length e\<rparr>"

lemma collect_regions_list:
  "fst (collect_regions es e0) = map region_of (filter usable_entry es)"
  by (induction es e0 rule: collect_regions.induct)
     (auto simp: usable_entry_def region_of_def Let_def split: prod.splits)

lemma entry_end_word:
  assumes "entry_end e \<le> 2 ^ 52"
  shows "unat (entry_base e + entry_length e) = entry_end e"
  using assms unat_add_no_wrap [of "entry_base e" "entry_length e"] by (simp add: entry_end_def)

lemma collect_regions_end:
  assumes "\<forall>e \<in> set es. entry_end e \<le> 2 ^ 52" and "unat e0 \<le> 2 ^ 52"
  shows "unat (snd (collect_regions es e0)) \<le> 2 ^ 52 \<and> e0 \<le> snd (collect_regions es e0) \<and>
    (\<forall>e \<in> set es. usable_entry e \<longrightarrow> entry_end e \<le> unat (snd (collect_regions es e0)))"
  using assms
proof (induction es e0 rule: collect_regions.induct)
  case (2 e es e0)
  have e: "unat (entry_base e + entry_length e) = entry_end e" "entry_end e \<le> 2 ^ 52"
    using 2(4) entry_end_word by auto
  show ?case
  proof (cases "usable_entry e")
    case False
    then have "snd (collect_regions (e # es) e0) = snd (collect_regions es e0)"
      by (auto simp: usable_entry_def)
    with False 2 show ?thesis by (auto simp: usable_entry_def)
  next
    case True
    define e1 where "e1 = (if e0 < entry_base e + entry_length e then entry_base e + entry_length e else e0)"
    have "snd (collect_regions (e # es) e0) = snd (collect_regions es e1)"
      using True by (auto simp: usable_entry_def e1_def Let_def split: prod.splits)
    moreover have "unat e1 \<le> 2 ^ 52" "e0 \<le> e1" "entry_end e \<le> unat e1"
      using e 2(5) by (auto simp: e1_def word_less_nat_alt word_le_nat_alt)
    moreover have "unat (snd (collect_regions es e1)) \<le> 2 ^ 52 \<and> e1 \<le> snd (collect_regions es e1) \<and>
        (\<forall>d \<in> set es. usable_entry d \<longrightarrow> entry_end d \<le> unat (snd (collect_regions es e1)))"
      using 2(3) [OF _ _ e1_def] True calculation(2) 2(4) by (auto simp: usable_entry_def)
    ultimately show ?thesis by (auto simp: word_le_nat_alt)
  qed
qed simp

section \<open>The bitmap size and the frames of a region\<close>

definition bytes_for :: "nat \<Rightarrow> nat" where
  "bytes_for e = ((e div 4096 + 7) div 8 + 4095) div 4096 * 4096"

lemma initialBitmapSize_unat:
  assumes "unat e \<le> 2 ^ 52"
  shows "unat (initialBitmapSize e) = bytes_for (unat e)" and "bytes_for (unat e) \<le> 2 ^ 37"
    and "unat e div 4096 \<le> 8 * bytes_for (unat e)" and "0 < unat e div 4096 \<Longrightarrow> 4096 \<le> bytes_for (unat e)"
proof -
  have d: "unat e div 4096 \<le> 2 ^ 40" using assms div_le_mono [of "unat e" "2 ^ 52" 4096] by simp
  have "unat (e div PageSize + 7) = unat e div 4096 + 7"
    using d by (subst unat_add_no_wrap) (auto simp: unat_div)
  then have v: "unat ((e div PageSize + 7) div 8) = (unat e div 4096 + 7) div 8"
    by (simp add: unat_div)
  have "(unat e div 4096 + 7) div 8 + 4095 < 2 ^ 64" using d by simp
  then show "unat (initialBitmapSize e) = bytes_for (unat e)"
    unfolding initialBitmapSize_def bytes_for_def using v by (simp add: unat_AlignUp_page)
  show "bytes_for (unat e) \<le> 2 ^ 37" unfolding bytes_for_def using d by simp
  show "unat e div 4096 \<le> 8 * bytes_for (unat e)" unfolding bytes_for_def by simp
  show "0 < unat e div 4096 \<Longrightarrow> 4096 \<le> bytes_for (unat e)" unfolding bytes_for_def by simp
qed

lemma bytes_for_aligned: "4096 dvd bytes_for e"
  by (simp add: bytes_for_def)

text \<open>First and last frame of a byte range, as the rounding of the code computes them.\<close>

definition region_ok :: "region \<Rightarrow> bool" where
  "region_ok r \<longleftrightarrow> unat (region_addr r) + unat (region_length r) \<le> 2 ^ 52"

lemma region_bounds_unat:
  assumes "region_ok r"
  shows "unat (region_start r) = (unat (region_addr r) + 4095) div 4096 * 4096"
    and "unat (region_end r) = (unat (region_addr r) + unat (region_length r)) div 4096 * 4096"
proof -
  have a: "unat (region_addr r) + 4095 < 2 ^ 64" using assms by (simp add: region_ok_def)
  show "unat (region_start r) = (unat (region_addr r) + 4095) div 4096 * 4096"
    by (simp add: region_start_def unat_AlignUp_page [OF a])
  have "unat (region_addr r + region_length r) = unat (region_addr r) + unat (region_length r)"
    using assms by (intro unat_add_no_wrap) (simp add: region_ok_def)
  then show "unat (region_end r) = (unat (region_addr r) + unat (region_length r)) div 4096 * 4096"
    by (simp add: region_end_def unat_AlignDown_page)
qed

lemma region_frames_eq:
  assumes "region_ok r"
  shows "region_frames r = [(unat (region_addr r) + 4095) div 4096..<(unat (region_addr r) + unat (region_length r)) div 4096]"
  by (simp add: region_frames_def region_bounds_unat [OF assms])

section \<open>Placing the bitmaps\<close>

definition shrink :: "u64 \<Rightarrow> region \<Rightarrow> region" where
  "shrink required r = \<lparr>region_addr = region_addr r + required, region_length = region_length r - required\<rparr>"

definition room :: "region \<Rightarrow> u64" where
  "room r = (if region_end r > region_start r then region_end r - region_start r else 0)"

lemma place_bitmaps_Cons:
  "place_bitmaps required (r # rs) =
    (if room r \<ge> required then (region_start r, shrink required r # rs)
     else (fst (place_bitmaps required rs), r # snd (place_bitmaps required rs)))"
  by (simp add: room_def shrink_def Let_def split: prod.splits)

text \<open>The first region with room gives up its front; the others are unchanged.\<close>

lemma place_bitmaps_found:
  assumes "\<exists>r \<in> set rs. room r \<ge> required"
  obtains pre r post where "rs = pre @ r # post" "room r \<ge> required"
    "place_bitmaps required rs = (region_start r, pre @ shrink required r # post)"
proof -
  have "\<exists>pre r post. rs = pre @ r # post \<and> room r \<ge> required \<and>
      place_bitmaps required rs = (region_start r, pre @ shrink required r # post)"
    using assms
  proof (induction rs)
    case (Cons r rs)
    show ?case
    proof (cases "room r \<ge> required")
      case True
      then show ?thesis
        by (intro exI [of _ "[]"] exI [of _ r] exI [of _ rs]) (simp add: place_bitmaps_Cons del: place_bitmaps.simps)
    next
      case False
      with Cons obtain pre q post where "rs = pre @ q # post" "room q \<ge> required"
        "place_bitmaps required rs = (region_start q, pre @ shrink required q # post)" by auto
      with False show ?thesis
        by (intro exI [of _ "r # pre"] exI [of _ q] exI [of _ post])
           (simp add: place_bitmaps_Cons del: place_bitmaps.simps)
    qed
  qed simp
  then show ?thesis using that by blast
qed

lemma place_bitmaps_not_found:
  "\<not> (\<exists>r \<in> set rs. room r \<ge> required) \<Longrightarrow> fst (place_bitmaps required rs) = 0"
  by (induction rs) (auto simp: place_bitmaps_Cons simp del: place_bitmaps.simps(2))

lemma room_unat:
  assumes "region_ok r"
  shows "unat (room r) = (unat (region_addr r) + unat (region_length r)) div 4096 * 4096 -
           (unat (region_addr r) + 4095) div 4096 * 4096"
  using region_bounds_unat [OF assms]
  by (auto simp: room_def word_less_nat_alt unat_sub word_le_nat_alt)

text \<open>After shrinking, exactly the frames of the bitmap storage are gone from the region.\<close>

lemma shrink_frames:
  assumes ok: "region_ok r" and k: "unat required = 4096 * k" "0 < k" and room: "room r \<ge> required"
  defines "lo \<equiv> (unat (region_addr r) + 4095) div 4096"
    and "hi \<equiv> (unat (region_addr r) + unat (region_length r)) div 4096"
  shows "region_frames r = [lo..<hi]" and "region_frames (shrink required r) = [lo + k..<hi]" and "lo + k \<le> hi"
    and "region_ok (shrink required r)" and "unat (region_start r) = lo * 4096"
proof -
  have le: "4096 * k \<le> hi * 4096 - lo * 4096"
    using room unfolding word_le_nat_alt room_unat [OF ok] k(1) lo_def hi_def .
  then show hi: "lo + k \<le> hi" using k(2) by linarith
  show "region_frames r = [lo..<hi]" by (simp add: region_frames_eq [OF ok] lo_def hi_def)
  show "unat (region_start r) = lo * 4096" by (simp add: region_bounds_unat [OF ok] lo_def)
  have up: "hi * 4096 \<le> unat (region_addr r) + unat (region_length r)" by (simp add: hi_def)
  have lo: "unat (region_addr r) \<le> lo * 4096" by (simp add: lo_def)
  have len: "4096 * k \<le> unat (region_length r)" using up lo hi by linarith
  have a: "unat (region_addr (shrink required r)) = unat (region_addr r) + 4096 * k"
    using ok len k(1) unat_add_no_wrap [of "region_addr r" required] by (simp add: shrink_def region_ok_def)
  have l: "unat (region_length (shrink required r)) = unat (region_length r) - 4096 * k"
    using len k(1) by (simp add: shrink_def unat_sub word_le_nat_alt)
  show ok': "region_ok (shrink required r)" using ok a l len by (simp add: region_ok_def)
  have "(unat (region_addr r) + 4096 * k + 4095) div 4096 = lo + k"
    unfolding lo_def using div_mult_self2 [of 4096 "unat (region_addr r) + 4095" k] by (simp add: ac_simps)
  moreover have "unat (region_addr r) + 4096 * k + (unat (region_length r) - 4096 * k) = unat (region_addr r) + unat (region_length r)"
    using len by simp
  ultimately show "region_frames (shrink required r) = [lo + k..<hi]"
    by (simp only: region_frames_eq [OF ok'] a l hi_def)
qed

section \<open>Marking\<close>

lemma foldR_concat: "foldR (\<lambda>r. foldR f (g r)) rs s = foldR f (concat (map g rs)) s"
  by (induction rs arbitrary: s) (auto simp: foldR_append fun_eq_iff intro: bindR_cong)

lemma count_usable_eq: "count_usable bm is n = n + of_nat (length (filter (\<lambda>i. \<not> bm_get bm i) is))"
  by (induction bm "is" n rule: count_usable.induct) (auto simp: algebra_simps)

lemma count_usable_card:
  "count_usable bm [0..<N] 0 = of_nat (card {p. p < N \<and> \<not> bm_get bm p})"
proof -
  have "length (filter (\<lambda>i. \<not> bm_get bm i) [0..<N]) = card (set (filter (\<lambda>i. \<not> bm_get bm i) [0..<N]))"
    by (rule distinct_card [symmetric]) simp
  moreover have "set (filter (\<lambda>i. \<not> bm_get bm i) [0..<N]) = {p. p < N \<and> \<not> bm_get bm p}" by auto
  ultimately show ?thesis by (simp add: count_usable_eq)
qed

text \<open>The three marking loops, from a bitmap of all ones.\<close>

lemma marking_loops:
  assumes "\<And>p. p \<in> set (concat (map region_frames rs)) \<Longrightarrow> p < 8 * sz" and "256 \<le> 8 * sz" and "be \<le> 8 * sz"
  shows "\<exists>r1 r2 r3. foldR clear_region rs (replicate sz 0xFF) = Inr r1 \<and>
     foldR bm_setR [0..<256] r1 = Inr r2 \<and> foldR bm_setR [bs..<be] r2 = Inr r3 \<and> length r3 = sz \<and>
     (\<forall>p < 8 * sz. bm_get r3 p \<longleftrightarrow> p \<notin> set (concat (map region_frames rs)) \<or> p < 256 \<or> bs \<le> p \<and> p < be)"
proof -
  let ?full = "replicate sz (0xFF :: u8)"
  have b: "bm_bits ?full = 8 * sz" by (simp add: bm_bits_def)
  have clear: "foldR clear_region rs ?full = foldR bm_clearR (concat (map region_frames rs)) ?full"
    unfolding foldR_concat [symmetric] by (rule arg_cong2 [where f = "\<lambda>f. foldR f rs"]) (auto simp: fun_eq_iff clear_region_def)
  obtain r1 where r1: "foldR clear_region rs ?full = Inr r1" "bm_bits r1 = 8 * sz"
      "\<And>q. bm_get r1 q \<longleftrightarrow> q \<notin> set (concat (map region_frames rs)) \<and> bm_get ?full q"
    unfolding clear using bytes.drop_range [of "concat (map region_frames rs)" ?full] assms(1) b by metis
  obtain r2 where r2: "foldR bm_setR [0..<256] r1 = Inr r2" "bm_bits r2 = 8 * sz"
      "\<And>q. bm_get r2 q \<longleftrightarrow> q \<in> set [0..<256] \<or> bm_get r1 q"
    using bytes.put_range [of "[0..<256]" r1] assms(2) r1(2) by auto
  obtain r3 where r3: "foldR bm_setR [bs..<be] r2 = Inr r3" "bm_bits r3 = 8 * sz"
      "\<And>q. bm_get r3 q \<longleftrightarrow> q \<in> set [bs..<be] \<or> bm_get r2 q"
    using bytes.put_range [of "[bs..<be]" r2] assms(3) r2(2) by auto
  have "length r3 = sz" using r3(2) by (simp add: bm_bits_def)
  moreover have "bm_get r3 p \<longleftrightarrow> p \<notin> set (concat (map region_frames rs)) \<or> p < 256 \<or> bs \<le> p \<and> p < be" if "p < 8 * sz" for p
    using that bm_get_replicate_full [of p sz] by (simp add: r3(3) r2(3) r1(3)) blast
  ultimately show ?thesis using r1(1) r2(1) r3(1) by blast
qed

section \<open>The state that is built\<close>

text \<open>First frame of an entry, first frame after it, and the number of frames of the storage.\<close>

definition lo_frame :: "limine_memmap_entry \<Rightarrow> nat" where
  "lo_frame e = (unat (entry_base e) + 4095) div 4096"

definition hi_frame :: "limine_memmap_entry \<Rightarrow> nat" where
  "hi_frame e = entry_end e div 4096"

definition endAddr :: "limine_memmap_entry list \<Rightarrow> u64" where
  "endAddr es = snd (collect_regions es 0)"

definition storage_frames :: "limine_memmap_entry list \<Rightarrow> nat" where
  "storage_frames es = 2 * bytes_for (unat (endAddr es)) div 4096"

text \<open>There is a usable entry with room for both bitmaps.\<close>

definition has_room :: "limine_memmap_entry list \<Rightarrow> bool" where
  "has_room es \<longleftrightarrow> (\<exists>e \<in> set es. usable_entry e \<and> lo_frame e + storage_frames es \<le> hi_frame e)"

lemma frame_inside:
  "lo_frame e \<le> p \<Longrightarrow> p < hi_frame e \<Longrightarrow> unat (entry_base e) \<le> p * 4096 \<and> (p + 1) * 4096 \<le> entry_end e"
  by (auto simp: lo_frame_def hi_frame_def)

lemma apart_append:
  "apart (xs @ ys) \<longleftrightarrow> apart xs \<and> apart ys \<and>
    (\<forall>x \<in> set xs. \<forall>y \<in> set ys. entry_end x \<le> unat (entry_base y) \<or> entry_end y \<le> unat (entry_base x))"
  by (induction xs) auto

lemma apart_frames:
  assumes "apart (xs @ d # ys)" and "e \<in> set xs \<union> set ys"
  shows "{lo_frame e..<hi_frame e} \<inter> {lo_frame d..<hi_frame d} = {}"
proof -
  have "entry_end e \<le> unat (entry_base d) \<or> entry_end d \<le> unat (entry_base e)"
    using assms by (auto simp: apart_append)
  then show ?thesis using frame_inside [of e] frame_inside [of d] by fastforce
qed

lemma memmap_ok_end:
  assumes "memmap_ok es" and "e \<in> set es" and "usable_entry e"
  shows "entry_end e \<le> unat (endAddr es)" and "unat (endAddr es) \<le> 2 ^ 52" and "256 \<le> unat (endAddr es) div 4096"
    and "region_ok (region_of e)" and "1 \<le> lo_frame e"
proof -
  have ends: "\<forall>e \<in> set es. entry_end e \<le> 2 ^ 52" using assms(1) by (simp add: memmap_ok_def)
  from collect_regions_end [OF ends, of 0] assms(2,3)
  show last: "entry_end e \<le> unat (endAddr es)" and "unat (endAddr es) \<le> 2 ^ 52"
    by (auto simp: endAddr_def)
  have e: "entry_end e \<le> 2 ^ 52" using ends assms(2) by blast
  from assms(3) have "unat MiB < unat (entry_base e + entry_length e)"
    by (simp add: usable_entry_def word_less_nat_alt not_le)
  then have "1048576 < entry_end e" by (simp add: entry_end_word [OF e])
  with last show "256 \<le> unat (endAddr es) div 4096" by simp
  show "region_ok (region_of e)" using e by (simp add: region_ok_def region_of_def entry_end_def)
  show "1 \<le> lo_frame e" using assms(1,2) by (auto simp: memmap_ok_def lo_frame_def)
qed

lemma storage_frames_unat:
  assumes "memmap_ok es" and "e \<in> set es" and "usable_entry e"
  shows "unat (initialBitmapSize (endAddr es)) = bytes_for (unat (endAddr es))"
    and "unat (initialBitmapSize (endAddr es) * 2) = 4096 * storage_frames es"
    and "unat (initialBitmapSize (endAddr es) * 8) = 8 * bytes_for (unat (endAddr es))"
    and "0 < storage_frames es"
proof -
  note e = memmap_ok_end [OF assms]
  note b = initialBitmapSize_unat [OF e(2)]
  show s: "unat (initialBitmapSize (endAddr es)) = bytes_for (unat (endAddr es))" by (rule b(1))
  have "unat (initialBitmapSize (endAddr es) * 2) = bytes_for (unat (endAddr es)) * 2"
    using b(1,2) by (simp add: unat_word_ariths)
  also have "\<dots> = 4096 * storage_frames es"
    using bytes_for_aligned [of "unat (endAddr es)"] by (auto simp: storage_frames_def)
  finally show "unat (initialBitmapSize (endAddr es) * 2) = 4096 * storage_frames es" .
  show "unat (initialBitmapSize (endAddr es) * 8) = 8 * bytes_for (unat (endAddr es))"
    using b(1,2) by (simp add: unat_word_ariths)
  have "4096 \<le> bytes_for (unat (endAddr es))" using b(4) e(3) by simp
  then show "0 < storage_frames es" by (simp add: storage_frames_def)
qed

lemma room_frames:
  assumes "memmap_ok es" and "e \<in> set es" and "usable_entry e"
  shows "room (region_of e) \<ge> initialBitmapSize (endAddr es) * 2 \<longleftrightarrow> lo_frame e + storage_frames es \<le> hi_frame e"
proof -
  note s = storage_frames_unat [OF assms]
  have "unat (room (region_of e)) = hi_frame e * 4096 - lo_frame e * 4096"
    by (simp only: room_unat [OF memmap_ok_end(4) [OF assms]])
       (simp add: region_of_def hi_frame_def lo_frame_def entry_end_def)
  then have "room (region_of e) \<ge> initialBitmapSize (endAddr es) * 2 \<longleftrightarrow>
      4096 * storage_frames es \<le> hi_frame e * 4096 - lo_frame e * 4096"
    by (simp only: word_le_nat_alt s(2))
  also have "\<dots> \<longleftrightarrow> lo_frame e + storage_frames es \<le> hi_frame e" using s(4) by arith
  finally show ?thesis .
qed

text \<open>Where the bitmaps go, in terms of the memory map.\<close>

lemma placement:
  assumes ok: "memmap_ok es" and room: "has_room es"
  obtains pre d post where "filter usable_entry es = pre @ d # post" "d \<in> set es" "usable_entry d"
    "lo_frame d + storage_frames es \<le> hi_frame d"
    "place_bitmaps (initialBitmapSize (endAddr es) * 2) (map region_of (filter usable_entry es)) =
       (region_start (region_of d), map region_of pre @ shrink (initialBitmapSize (endAddr es) * 2) (region_of d) # map region_of post)"
proof -
  have "\<exists>r \<in> set (map region_of (filter usable_entry es)). room r \<ge> initialBitmapSize (endAddr es) * 2"
    using room room_frames [OF ok] by (auto simp: has_room_def)
  from place_bitmaps_found [OF this]
  obtain pre' r post' where r: "map region_of (filter usable_entry es) = pre' @ r # post'"
      "room r \<ge> initialBitmapSize (endAddr es) * 2"
      "place_bitmaps (initialBitmapSize (endAddr es) * 2) (map region_of (filter usable_entry es)) =
        (region_start r, pre' @ shrink (initialBitmapSize (endAddr es) * 2) r # post')" .
  from r(1) obtain pre d post where d: "filter usable_entry es = pre @ d # post"
      "pre' = map region_of pre" "r = region_of d" "post' = map region_of post"
    by (auto simp: map_eq_append_conv map_eq_Cons_conv)
  have "d \<in> set (filter usable_entry es)" using d(1) by simp
  then have u: "d \<in> set es" "usable_entry d" by auto
  show ?thesis
    by (rule that [OF d(1) u]) (use r(2,3) room_frames [OF ok u] d in simp_all)
qed

text \<open>
  The loop that reserves the storage takes its end from a page number plus a byte count. The range
  it covers never leaves the storage: the frames it misses were already removed from the region.
\<close>

lemma bitmapEnd_unat:
  assumes "lo + k \<le> 2 ^ 40" and "1 \<le> lo" and "unat required = 4096 * k" and "unat memory = lo * 4096"
  shows "unat (memory div PageSize) = lo"
    and "unat (AlignUp (memory div PageSize + required) PageSize div PageSize) = k + (lo + 4095) div 4096"
    and "k + (lo + 4095) div 4096 \<le> lo + k"
proof -
  show m: "unat (memory div PageSize) = lo" using assms(4) by (simp add: unat_div)
  have v: "unat (memory div PageSize + required) = lo + 4096 * k"
    using assms m by (subst unat_add_no_wrap) auto
  have "unat (AlignUp (memory div PageSize + required) PageSize) = (lo + 4096 * k + 4095) div 4096 * 4096"
    using assms(1) v by (subst unat_AlignUp_page) auto
  also have "\<dots> = (k + (lo + 4095) div 4096) * 4096"
    using div_mult_self2 [of 4096 "lo + 4095" k] by (simp add: ac_simps)
  finally show "unat (AlignUp (memory div PageSize + required) PageSize div PageSize) = k + (lo + 4095) div 4096"
    by (simp add: unat_div)
  show "k + (lo + 4095) div 4096 \<le> lo + k" using assms(2) by simp
qed

lemma regions_frames:
  assumes ok: "memmap_ok es" and f: "filter usable_entry es = pre @ d # post"
    and rm: "lo_frame d + storage_frames es \<le> hi_frame d"
  defines "rs \<equiv> map region_of pre @ shrink (initialBitmapSize (endAddr es) * 2) (region_of d) # map region_of post"
  shows "set (concat (map region_frames rs)) =
    {p. (\<exists>e \<in> set es. usable_entry e \<and> lo_frame e \<le> p \<and> p < hi_frame e) \<and> \<not> (lo_frame d \<le> p \<and> p < lo_frame d + storage_frames es)}"
    (is "?L = ?R")
proof -
  have mem: "e \<in> set es \<and> usable_entry e \<longleftrightarrow> e \<in> set pre \<or> e = d \<or> e \<in> set post" for e
    using arg_cong [OF f, of set] by auto
  then have d: "d \<in> set es" "usable_entry d" by auto
  have fr: "set (region_frames (region_of e)) = {lo_frame e..<hi_frame e}" if "e \<in> set es" "usable_entry e" for e
    using region_frames_eq [OF memmap_ok_end(4) [OF ok that]]
    by (simp add: region_of_def lo_frame_def hi_frame_def entry_end_def)
  note st = storage_frames_unat [OF ok d]
  have sh: "set (region_frames (shrink (initialBitmapSize (endAddr es) * 2) (region_of d))) = {lo_frame d + storage_frames es..<hi_frame d}"
    using shrink_frames(2) [OF memmap_ok_end(4) [OF ok d] st(2,4)] room_frames [OF ok d] rm
    by (simp add: region_of_def lo_frame_def hi_frame_def entry_end_def)
  have "(\<Union>e \<in> set pre \<union> set post. set (region_frames (region_of e))) = (\<Union>e \<in> set pre \<union> set post. {lo_frame e..<hi_frame e})"
    by (rule SUP_cong) (use fr mem in auto)
  then have "?L = (\<Union>e \<in> set pre \<union> set post. {lo_frame e..<hi_frame e}) \<union> {lo_frame d + storage_frames es..<hi_frame d}"
    unfolding rs_def by (simp add: sh Un_ac)
  also have "\<dots> = ?R"
  proof -
    have "{lo_frame e..<hi_frame e} \<inter> {lo_frame d..<hi_frame d} = {}" if "e \<in> set pre \<union> set post" for e
      using apart_frames [OF _ that, of d] ok f by (simp add: memmap_ok_def)
    then show ?thesis using mem rm by (fastforce simp: disjoint_iff)
  qed
  finally show ?thesis .
qed

text \<open>The record at the end of \<^verbatim>\<open>Initialize\<close>, for any reserved bitmap that covers the first megabyte.\<close>

definition fresh_state :: "u64 \<Rightarrow> u64 \<Rightarrow> u8 list \<Rightarrow> PhysicalMemoryManager" where
  "fresh_state bsize memory reserved =
     \<lparr>frameCount = bsize * 8, usableFrames = count_usable reserved [0..<unat (bsize * 8)] 0, bitmapSize = bsize,
      bitmapMemory = memory, allocatableBitmap = replicate (unat bsize) 0, reservedBitmap = reserved\<rparr>"

lemma fresh_state_wf:
  assumes "unat (bsize * 8) = 8 * unat bsize" and "8 * unat bsize \<le> 2 ^ 40" and "length r = unat bsize"
    and "256 \<le> 8 * unat bsize" and "\<And>p. p < 256 \<Longrightarrow> bm_get r p"
  shows "pmm_wf (fresh_state bsize memory r)" and "allocated_set (fresh_state bsize memory r) = {}"
    and "free_set (fresh_state bsize memory r) = {p. p < 8 * unat bsize \<and> \<not> bm_get r p}"
proof -
  let ?s = "fresh_state bsize memory r"
  have fr: "frames ?s = 8 * unat bsize" by (simp add: frames_def fresh_state_def assms(1))
  show al: "allocated_set ?s = {}" using fr by (auto simp: allocated_set_def fresh_state_def bitmap_simps)
  show free: "free_set ?s = {p. p < 8 * unat bsize \<and> \<not> bm_get r p}"
    using fr by (auto simp: free_set_def fresh_state_def bitmap_simps)
  have "usableFrames ?s = of_nat (card (free_set ?s))"
    unfolding free by (simp add: fresh_state_def count_usable_card assms(1))
  moreover have "card (free_set ?s) < 2 ^ 64" using card_free_set [of ?s] frames_less_u64 [of ?s] by linarith
  ultimately have "unat (usableFrames ?s) = card (free_set ?s)" by (simp only: unat_of_nat_u64)
  then show "pmm_wf ?s"
    using fr al assms by (auto simp: pmm_wf_def reserved_set_def) (simp_all add: fresh_state_def)
qed

lemma build_bitmaps_spec:
  assumes ok: "memmap_ok es" and room: "has_room es"
  shows "\<exists>s d. build_bitmaps es = Inr s \<and> pmm_wf s \<and> d \<in> set es \<and> usable_entry d \<and>
    lo_frame d + storage_frames es \<le> hi_frame d \<and> allocated_set s = {} \<and>
    unat (bitmapMemory s) = lo_frame d * 4096 \<and> 2 * unat (bitmapSize s) = storage_frames es * 4096 \<and>
    free_set s = {p. 256 \<le> p \<and> (\<exists>e \<in> set es. usable_entry e \<and> lo_frame e \<le> p \<and> p < hi_frame e) \<and>
                     \<not> (lo_frame d \<le> p \<and> p < lo_frame d + storage_frames es)}"
proof -
  obtain pre d post where f: "filter usable_entry es = pre @ d # post" and d: "d \<in> set es" "usable_entry d"
      and rm: "lo_frame d + storage_frames es \<le> hi_frame d"
      and place: "place_bitmaps (initialBitmapSize (endAddr es) * 2) (map region_of (filter usable_entry es)) =
       (region_start (region_of d), map region_of pre @ shrink (initialBitmapSize (endAddr es) * 2) (region_of d) # map region_of post)"
    using placement [OF ok room] .
  define size where "size = initialBitmapSize (endAddr es)"
  define rs where "rs = map region_of pre @ shrink (size * 2) (region_of d) # map region_of post"
  define memory where "memory = region_start (region_of d)"
  define sz where "sz = bytes_for (unat (endAddr es))"
  define bs where "bs = unat (memory div PageSize)"
  define be where "be = unat (AlignUp (memory div PageSize + size * 2) PageSize div PageSize)"
  note st = storage_frames_unat [OF ok d, folded size_def sz_def]
  note e = memmap_ok_end [OF ok d]
  note b = initialBitmapSize_unat [OF e(2), folded size_def sz_def]
  have hi: "hi_frame x \<le> 8 * sz" if "x \<in> set es" "usable_entry x" for x
    using memmap_ok_end(1) [OF ok that] b(3) unfolding hi_frame_def by (meson div_le_mono le_trans)
  have mem: "unat memory = lo_frame d * 4096"
    using region_bounds_unat(1) [OF e(4)] by (simp add: memory_def region_of_def lo_frame_def)
  have "lo_frame d + storage_frames es \<le> 2 ^ 40" using rm hi [OF d] b(2) by simp
  note bend = bitmapEnd_unat [OF this e(5) st(2) mem, folded bs_def be_def]
  note frs = regions_frames [OF ok f rm, folded size_def, folded rs_def]
  have sz: "4096 \<le> sz" using b(4) e(3) by simp
  have inb: "p < 8 * sz" if "p \<in> set (concat (map region_frames rs))" for p
    using that hi unfolding frs by fastforce
  have c256: "256 \<le> 8 * sz" using sz by simp
  have beb: "be \<le> 8 * sz" using bend rm hi [OF d] by simp
  from marking_loops [OF inb c256 beb, where bs = bs] obtain r1 r2 r3 where r: "foldR clear_region rs (replicate sz 0xFF) = Inr r1"
      "foldR bm_setR [0..<256] r1 = Inr r2" "foldR bm_setR [bs..<be] r2 = Inr r3" "length r3 = sz"
      "\<And>p. p < 8 * sz \<Longrightarrow> bm_get r3 p \<longleftrightarrow> p \<notin> set (concat (map region_frames rs)) \<or> p < 256 \<or> bs \<le> p \<and> p < be"
    by blast
  define s where "s = fresh_state size memory r3"
  have nz: "memory \<noteq> 0" using mem e(5) by auto
  have coll: "collect_regions es 0 = (map region_of (filter usable_entry es), endAddr es)"
    using collect_regions_list [of es 0] by (simp add: endAddr_def prod_eq_iff)
  have res: "build_bitmaps es = Inr s"
    using nz r unfolding build_bitmaps_def coll by (simp add: place [folded size_def, folded rs_def memory_def]
      size_def [symmetric] st(1) bs_def [symmetric] be_def [symmetric] s_def fresh_state_def)
  have "\<And>p. p < 256 \<Longrightarrow> bm_get r3 p" using r(5) c256 by simp
  from fresh_state_wf [of size r3 memory] this st(1,3) b(2) r(4) c256
  have wf: "pmm_wf s" and al: "allocated_set s = {}" and free: "free_set s = {p. p < 8 * sz \<and> \<not> bm_get r3 p}"
    by (simp_all add: s_def)
  have "free_set s = {p. 256 \<le> p \<and> (\<exists>e \<in> set es. usable_entry e \<and> lo_frame e \<le> p \<and> p < hi_frame e) \<and>
                     \<not> (lo_frame d \<le> p \<and> p < lo_frame d + storage_frames es)}"
    unfolding free using r(5) inb bend unfolding frs by force
  moreover have "2 * unat (bitmapSize s) = storage_frames es * 4096"
    using st(1,2) b(2) by (simp add: s_def fresh_state_def unat_word_ariths)
  moreover have "bitmapMemory s = memory" by (simp add: s_def fresh_state_def)
  ultimately show ?thesis using res wf d rm al mem by blast
qed

section \<open>Properties of Initialize\<close>

text \<open>A frame lies completely inside an entry.\<close>

definition inside :: "nat \<Rightarrow> limine_memmap_entry \<Rightarrow> bool" where
  "inside p e \<longleftrightarrow> unat (entry_base e) \<le> p * 4096 \<and> (p + 1) * 4096 \<le> entry_end e"

text \<open>A frame lies completely outside the storage of the bitmaps.\<close>

definition outside_storage :: "nat \<Rightarrow> PhysicalMemoryManager \<Rightarrow> bool" where
  "outside_storage p s \<longleftrightarrow> (p + 1) * 4096 \<le> unat (bitmapMemory s) \<or> unat (bitmapMemory s) + 2 * unat (bitmapSize s) \<le> p * 4096"

lemma inside_frames: "inside p e \<longleftrightarrow> lo_frame e \<le> p \<and> p < hi_frame e"
  by (auto simp: inside_def lo_frame_def hi_frame_def)

lemma inside_usable:
  assumes "memmap_ok es" and "e \<in> set es" and "entry_type e = LIMINE_MEMMAP_USABLE" and "inside p e" and "256 \<le> p"
  shows "usable_entry e"
proof -
  have "entry_end e \<le> 2 ^ 52" using assms(1,2) by (simp add: memmap_ok_def)
  then have "unat (entry_base e + entry_length e) = entry_end e" by (rule entry_end_word)
  moreover have "1048576 < entry_end e" using assms(4,5) by (simp add: inside_def)
  ultimately show ?thesis using assms(3) by (simp add: usable_entry_def word_le_nat_alt)
qed

lemma built_free_iff:
  assumes ok: "memmap_ok es" and room: "has_room es"
  shows "\<exists>s. build_bitmaps es = Inr s \<and> pmm_wf s \<and> allocated_set s = {} \<and>
    (\<forall>p. p \<in> free_set s \<longleftrightarrow> 256 \<le> p \<and> (\<exists>e \<in> set es. entry_type e = LIMINE_MEMMAP_USABLE \<and> inside p e) \<and> outside_storage p s)"
proof -
  obtain s d where s: "build_bitmaps es = Inr s" "pmm_wf s" "allocated_set s = {}"
    and st: "unat (bitmapMemory s) = lo_frame d * 4096" "2 * unat (bitmapSize s) = storage_frames es * 4096"
    and free: "free_set s = {p. 256 \<le> p \<and> (\<exists>e \<in> set es. usable_entry e \<and> lo_frame e \<le> p \<and> p < hi_frame e) \<and>
                     \<not> (lo_frame d \<le> p \<and> p < lo_frame d + storage_frames es)}"
    using build_bitmaps_spec [OF ok room] by blast
  have out: "outside_storage p s \<longleftrightarrow> \<not> (lo_frame d \<le> p \<and> p < lo_frame d + storage_frames es)" for p
  proof -
    have "outside_storage p s \<longleftrightarrow> (p + 1) * 4096 \<le> lo_frame d * 4096 \<or> (lo_frame d + storage_frames es) * 4096 \<le> p * 4096"
      unfolding outside_storage_def st by (simp only: distrib_right)
    then show ?thesis by (simp only: mult_le_cancel2) auto
  qed
  have us: "(\<exists>e \<in> set es. usable_entry e \<and> inside p e) \<longleftrightarrow> (\<exists>e \<in> set es. entry_type e = LIMINE_MEMMAP_USABLE \<and> inside p e)"
    if "256 \<le> p" for p
    using inside_usable [OF ok _ _ _ that] by (auto simp: usable_entry_def)
  have "p \<in> free_set s \<longleftrightarrow> 256 \<le> p \<and> (\<exists>e \<in> set es. entry_type e = LIMINE_MEMMAP_USABLE \<and> inside p e) \<and> outside_storage p s" for p
    unfolding free out using us [of p] by (auto simp: inside_frames)
  with s show ?thesis by blast
qed

lemma PMM_Initialize_built:
  assumes "pmm_wf b" and "build_bitmaps es = Inr b" and "PMM_Initialize (Some es) (Some h) = Inr s"
  shows "s = b"
proof -
  obtain ok where "TestAllocationAndFreeing b = Inr (ok, s)"
    using assms(2,3) by (auto simp: PMM_Initialize_def result_simps split: if_splits)
  then show ?thesis
    using test_round_returns [OF assms(1)] by (auto simp: TestAllocationAndFreeing_rounds result_simps)
qed

text \<open>
  C5. What the boot-time initialisation makes allocatable. Whenever \<^verbatim>\<open>Initialize\<close> returns on a memory
  map that keeps the boot protocol, the state is well formed, nothing is allocated, and a frame is
  free exactly when it is above the first megabyte, lies completely inside one usable entry of the
  map and does not touch the storage of the two bitmaps. So no later allocation can hand out
  firmware memory, a partial page, low memory or the bitmaps themselves, and no other usable frame
  is lost.
\<close>

theorem PMM_Initialize_exact:
  assumes "memmap_ok es" and "has_room es" and "PMM_Initialize (Some es) (Some hhdm) = Inr s"
  shows "pmm_wf s \<and> allocated_set s = {} \<and>
    (\<forall>p. p \<in> free_set s \<longleftrightarrow>
       256 \<le> p \<and> (\<exists>e \<in> set es. entry_type e = LIMINE_MEMMAP_USABLE \<and> inside p e) \<and> outside_storage p s)"
proof -
  obtain b where b: "build_bitmaps es = Inr b" "pmm_wf b" "allocated_set b = {}"
    "\<forall>p. p \<in> free_set b \<longleftrightarrow> 256 \<le> p \<and> (\<exists>e \<in> set es. entry_type e = LIMINE_MEMMAP_USABLE \<and> inside p e) \<and> outside_storage p b"
    using built_free_iff [OF assms(1,2)] by blast
  with PMM_Initialize_built [OF b(2,1) assms(3)] show ?thesis by blast
qed

definition enough_memory :: "limine_memmap_entry list \<Rightarrow> bool" where
  "enough_memory es \<longleftrightarrow> (\<exists>e \<in> set es. usable_entry e \<and> 256 \<le> lo_frame e \<and> lo_frame e + storage_frames es + 2563 \<le> hi_frame e)"

lemma enough_room: "enough_memory es \<Longrightarrow> has_room es"
  by (fastforce simp: enough_memory_def has_room_def)

lemma enough_memory_run:
  assumes ok: "memmap_ok es" and "enough_memory es"
  shows "\<exists>s. build_bitmaps es = Inr s \<and> pmm_wf s \<and> (\<exists>q. run_at (free_set s) 2563 q)"
proof -
  from assms(2) obtain e where e: "e \<in> set es" "usable_entry e" "256 \<le> lo_frame e"
    "lo_frame e + storage_frames es + 2563 \<le> hi_frame e" by (auto simp: enough_memory_def)
  from build_bitmaps_spec [OF ok enough_room [OF assms(2)]] obtain s d where s: "build_bitmaps es = Inr s" "pmm_wf s" "d \<in> set es" "usable_entry d"
    and rm: "lo_frame d + storage_frames es \<le> hi_frame d"
    and free: "free_set s = {p. 256 \<le> p \<and> (\<exists>e \<in> set es. usable_entry e \<and> lo_frame e \<le> p \<and> p < hi_frame e) \<and>
                     \<not> (lo_frame d \<le> p \<and> p < lo_frame d + storage_frames es)}" by blast
  have "run_at (free_set s) 2563 (if lo_frame d = lo_frame e then lo_frame e + storage_frames es else lo_frame e)"
  proof (cases "d = e")
    case True
    then show ?thesis using e unfolding free run_at_def by (fastforce intro!: bexI [of _ e])
  next
    case False
    have "{lo_frame e..<hi_frame e} \<inter> {lo_frame d..<hi_frame d} = {}"
    proof -
      have "e \<in> set (filter usable_entry es)" "d \<in> set (filter usable_entry es)" using e s by auto
      then obtain xs ys where "filter usable_entry es = xs @ d # ys" "e \<in> set xs \<union> set ys"
        using False by (metis UnI1 UnI2 Un_iff set_ConsD split_list set_append)
      with apart_frames [of xs d ys e] ok show ?thesis by (simp add: memmap_ok_def)
    qed
    moreover from this have "lo_frame d \<noteq> lo_frame e" using e rm storage_frames_unat(4) [OF ok e(1,2)] by fastforce
    ultimately show ?thesis using e rm unfolding free run_at_def by (fastforce intro!: bexI [of _ e] simp: disjoint_iff)
  qed
  with s show ?thesis by blast
qed

lemma PMM_Initialize_ready:
  assumes "memmap_ok es" and "enough_memory es"
  shows "\<exists>s. PMM_Initialize (Some es) (Some hhdm) = Inr s \<and> pmm_wf s \<and> allocated_set s = {} \<and> 2563 \<le> card (free_set s) \<and>
     (\<forall>p \<in> free_set s. \<exists>e \<in> set es. entry_type e = LIMINE_MEMMAP_USABLE \<and> inside p e)"
proof -
  from enough_memory_run [OF assms] obtain b q where b: "build_bitmaps es = Inr b" "pmm_wf b" "run_at (free_set b) 2563 q" by blast
  have "TestAllocationAndFreeing b = Inr (True, b)"
    using test_round_succeeds [OF b(2,3)] by (simp add: TestAllocationAndFreeing_rounds)
  then have "PMM_Initialize (Some es) (Some hhdm) = Inr b" using b(1) by (simp add: PMM_Initialize_def)
  moreover have "card {q..<q + 2563} \<le> card (free_set b)" using b(3) by (intro card_mono) (auto simp: run_at_def)
  ultimately show ?thesis using b(1,2) built_free_iff [OF assms(1) enough_room [OF assms(2)]] by auto
qed


text \<open>A machine with 64 MiB above the first megabyte, low memory and a reserved hole.\<close>

definition example_memmap :: "limine_memmap_entry list" where
  "example_memmap =
    [\<lparr>entry_base = 0x1000, entry_length = 0x9E000, entry_type = 0\<rparr>,
     \<lparr>entry_base = 0x9F000, entry_length = 0x61000, entry_type = 1\<rparr>,
     \<lparr>entry_base = 0x100000, entry_length = 0x4000000, entry_type = 0\<rparr>]"

lemma example_memmap_ok: "memmap_ok example_memmap" "enough_memory example_memmap" "has_room example_memmap"
proof -
  note defs = example_memmap_def memmap_ok_def usable_entry_def LIMINE_MEMMAP_USABLE_def entry_end_def
    enough_memory_def has_room_def lo_frame_def hi_frame_def storage_frames_def endAddr_def bytes_for_def
  show "memmap_ok example_memmap" by (simp add: defs)
  show "enough_memory example_memmap" by (simp add: defs)
  show "has_room example_memmap" by (simp add: defs)
qed


lemma example_memmap_returns: "\<exists>s. PMM_Initialize (Some example_memmap) (Some h) = Inr s"
  using PMM_Initialize_ready [OF example_memmap_ok(1,2)] by blast

theorem TestAllocationAndFreeing_transparent_witness:
  "\<exists>s. build_bitmaps example_memmap = Inr s \<and> pmm_wf s \<and> TestAllocationAndFreeing s = Inr (True, s)"
proof -
  from enough_memory_run [OF example_memmap_ok(1,2)] obtain b
    where b: "build_bitmaps example_memmap = Inr b" "pmm_wf b" "\<exists>q. run_at (free_set b) 2563 q" by blast
  with TestAllocationAndFreeing_transparent [OF b(2)] show ?thesis by blast
qed

theorem PMM_Initialize_exact_witness:
  "\<exists>s. PMM_Initialize (Some example_memmap) (Some 0xFFFF800000000000) = Inr s \<and> pmm_wf s \<and> 300 \<in> free_set s"
proof -
  obtain s where s: "PMM_Initialize (Some example_memmap) (Some 0xFFFF800000000000) = Inr s"
    using example_memmap_returns by blast
  from built_free_iff [OF example_memmap_ok(1,3)] build_bitmaps_spec [OF example_memmap_ok(1,3)] obtain b where
    b: "build_bitmaps example_memmap = Inr b" "pmm_wf b" by blast
  have st: "storage_frames example_memmap = 2"
    by (simp add: storage_frames_def endAddr_def bytes_for_def example_memmap_def LIMINE_MEMMAP_USABLE_def)
  have "outside_storage 300 s"
    using build_bitmaps_spec [OF example_memmap_ok(1,3)] PMM_Initialize_built [OF b(2,1) s] b(1) st
    by (auto simp: outside_storage_def lo_frame_def hi_frame_def entry_end_def example_memmap_def usable_entry_def LIMINE_MEMMAP_USABLE_def)
  moreover have "\<exists>e \<in> set example_memmap. entry_type e = LIMINE_MEMMAP_USABLE \<and> inside 300 e"
    by (simp add: example_memmap_def inside_def entry_end_def LIMINE_MEMMAP_USABLE_def)
  ultimately show ?thesis
    using PMM_Initialize_exact [OF example_memmap_ok(1,3) s] s by auto
qed

end
