(* ===== verification/Paging.thy ===== *)
theory Paging
  imports Physical_Memory
begin

text \<open>
  Four-level page tables (\<^verbatim>\<open>Memory/Paging.cpp\<close>). The model keeps the memory manager, the contents of
  the physical frames that hold page tables, the kernel's page table root, the register CR3 and the
  page table state recorded for the running CPU.

  A table is addressed by the physical address of its frame and has 512 entries. The code reaches
  a table through the higher-half direct map by adding the constant offset to its physical address;
  the offset is the same everywhere and is left out. \<^verbatim>\<open>State *\<close> is modelled by the \<^verbatim>\<open>pml4\<close> member it
  holds. Contents of frames that were never written are whatever \<open>sys_mem\<close> says, so reading a frame
  that was not cleared is visible in the model.
\<close>

unbundle bit_operations_syntax

type_synonym table_mem = "u64 \<Rightarrow> nat \<Rightarrow> u64"

record paging_sys =
  sys_pmm :: PhysicalMemoryManager
  sys_mem :: table_mem
  sys_kernelState :: u64
  sys_cr3 :: u64
  sys_pageState :: u64

section \<open>Flags, masks and indices\<close>

definition Present :: u64 where "Present = push_bit 0 1"
definition ReadWrite :: u64 where "ReadWrite = push_bit 1 1"
definition User :: u64 where "User = push_bit 2 1"
definition CacheDisable :: u64 where "CacheDisable = push_bit 4 1"
definition HugePage :: u64 where "HugePage = push_bit 7 1"
definition NoExecute :: u64 where "NoExecute = push_bit 63 1"

definition PointerMask :: u64 where "PointerMask = 0x000FFFFFFFFFF000"
definition FlagsMask :: u64 where "FlagsMask = 0xFFF0000000000FFF"

definition ExtractPageTableIndices :: "u64 \<Rightarrow> nat \<times> nat \<times> nat \<times> nat \<times> u64" where
  "ExtractPageTableIndices vaddr =
     (unat (drop_bit 39 vaddr AND 0x1FF), unat (drop_bit 30 vaddr AND 0x1FF),
      unat (drop_bit 21 vaddr AND 0x1FF), unat (drop_bit 12 vaddr AND 0x1FF), vaddr AND 0xFFF)"

definition present :: "u64 \<Rightarrow> bool" where
  "present e \<longleftrightarrow> e AND Present \<noteq> 0"

definition write_entry :: "u64 \<Rightarrow> nat \<Rightarrow> u64 \<Rightarrow> table_mem \<Rightarrow> table_mem" where
  "write_entry table i e m = m(table := (m table)(i := e))"

definition clear_table :: "u64 \<Rightarrow> table_mem \<Rightarrow> table_mem" where
  "clear_table table m = m(table := (\<lambda>_. 0))"

definition IsTableEmpty :: "(nat \<Rightarrow> u64) \<Rightarrow> bool" where
  "IsTableEmpty table \<longleftrightarrow> (\<forall>i \<in> set [0..<512]. \<not> present (table i))"

section \<open>Mapping and unmapping\<close>

text \<open>
  The step that \<^verbatim>\<open>MapPage\<close> makes at each of the three directory levels: if the entry is zero, allocate
  and clear a new table and enter it; then follow the entry.
\<close>

definition ensure_table :: "string \<Rightarrow> u64 \<Rightarrow> nat \<Rightarrow> paging_sys \<Rightarrow> fault + u64 \<times> paging_sys" where
  "ensure_table message table i s =
     bindR (if sys_mem s table i = 0
            then bindR (AllocatePages 1 (sys_pmm s)) (\<lambda>(newTable, pmm').
                   if newTable = 0 then Inl (Panic message)
                   else Inr (s\<lparr>sys_pmm := pmm',
                              sys_mem := write_entry table i (newTable OR (Present OR ReadWrite OR User))
                                           (clear_table newTable (sys_mem s))\<rparr>))
            else Inr s) (\<lambda>s'.
       Inr (sys_mem s' table i AND PointerMask, s'))"

definition MapPage :: "u64 \<Rightarrow> u64 \<Rightarrow> u64 \<Rightarrow> u64 \<Rightarrow> paging_sys \<Rightarrow> fault + paging_sys" where
  "MapPage pml4 virtualAddress physicalAddress flags s =
     (if virtualAddress AND (PageSize - 1) \<noteq> 0 then Inl (Panic ''Virtual address is not page-aligned!'')
      else if physicalAddress AND (PageSize - 1) \<noteq> 0 then Inl (Panic ''Physical address is not page-aligned!'')
      else let entryFlags = flags OR Present;
               (pml4Index, pdpIndex, pdIndex, ptIndex, pageOffset) = ExtractPageTableIndices virtualAddress
           in bindR (ensure_table ''Failed to allocate memory for new PDP table!'' pml4 pml4Index s) (\<lambda>(pdp, s1).
              bindR (ensure_table ''Failed to allocate memory for new PD table!'' pdp pdpIndex s1) (\<lambda>(pd, s2).
              bindR (ensure_table ''Failed to allocate memory for new PT table!'' pd pdIndex s2) (\<lambda>(pt, s3).
                if present (sys_mem s3 pt ptIndex) then Inl (Panic ''Virtual address is already mapped'')
                else Inr (s3\<lparr>sys_mem := write_entry pt ptIndex ((physicalAddress AND PointerMask) OR entryFlags) (sys_mem s3)\<rparr>)))))"

text \<open>Clear an entry of the parent after giving the frame of an empty child table back.\<close>

definition drop_table :: "u64 \<Rightarrow> u64 \<Rightarrow> nat \<Rightarrow> paging_sys \<Rightarrow> fault + paging_sys" where
  "drop_table child parent i s =
     bindR (FreePages child 1 (sys_pmm s)) (\<lambda>pmm'.
       Inr (s\<lparr>sys_pmm := pmm', sys_mem := write_entry parent i 0 (sys_mem s)\<rparr>))"

definition UnmapPage :: "u64 \<Rightarrow> u64 \<Rightarrow> paging_sys \<Rightarrow> fault + paging_sys" where
  "UnmapPage pml4 virtualAddress s =
     (let (pml4Index, pdpIndex, pdIndex, ptIndex, pageOffset) = ExtractPageTableIndices virtualAddress;
          m = sys_mem s
      in if \<not> present (m pml4 pml4Index) then Inl (Panic ''Attempted to unmap a virtual address that is not mapped (PML4 entry not present)!'')
         else let pdp = m pml4 pml4Index AND PointerMask
         in if \<not> present (m pdp pdpIndex) then Inl (Panic ''Attempted to unmap a virtual address that is not mapped (PDP entry not present)!'')
         else let pd = m pdp pdpIndex AND PointerMask
         in if \<not> present (m pd pdIndex) then Inl (Panic ''Attempted to unmap a virtual address that is not mapped (PD entry not present)!'')
         else let pt = m pd pdIndex AND PointerMask
         in if \<not> present (m pt ptIndex) then Inl (Panic ''Attempted to unmap a virtual address that is not mapped (PT entry not present)!'')
         else let s1 = s\<lparr>sys_mem := write_entry pt ptIndex 0 m\<rparr>
         in if IsTableEmpty (sys_mem s1 pt)
            then bindR (drop_table pt pd pdIndex s1) (\<lambda>s2.
                 if IsTableEmpty (sys_mem s2 pd)
                 then bindR (drop_table pd pdp pdpIndex s2) (\<lambda>s3.
                      if IsTableEmpty (sys_mem s3 pdp) \<and> pml4Index < 256
                      then drop_table pdp pml4 pml4Index s3
                      else Inr s3)
                 else Inr s2)
            else Inr s1)"

section \<open>Looking up\<close>

definition GetPhysicalAddress :: "u64 \<Rightarrow> u64 \<Rightarrow> paging_sys \<Rightarrow> u64" where
  "GetPhysicalAddress pml4 virtualAddress s =
     (let (pml4Index, pdpIndex, pdIndex, ptIndex, pageOffset) = ExtractPageTableIndices virtualAddress;
          m = sys_mem s
      in if \<not> present (m pml4 pml4Index) then 0
         else let pdp = m pml4 pml4Index AND PointerMask
         in if \<not> present (m pdp pdpIndex) then 0
         else let pd = m pdp pdpIndex AND PointerMask
         in if \<not> present (m pd pdIndex) then 0
         else let pt = m pd pdIndex AND PointerMask
         in if \<not> present (m pt ptIndex) then 0
         else (m pt ptIndex AND PointerMask) OR pageOffset)"

definition IsMapped :: "u64 \<Rightarrow> u64 \<Rightarrow> paging_sys \<Rightarrow> bool" where
  "IsMapped pml4 virtualAddress s \<longleftrightarrow> GetPhysicalAddress pml4 virtualAddress s \<noteq> 0"

text \<open>
  The search for a free range of virtual addresses. The address is a 64-bit word and wraps, so the
  loop need not end; \<open>None\<close> is a search that never returns.
\<close>

partial_function (option) find_range ::
  "u64 \<Rightarrow> u64 \<Rightarrow> u64 \<Rightarrow> paging_sys \<Rightarrow> u64 \<Rightarrow> u64 \<Rightarrow> (fault + u64 \<times> u64) option" where
  "find_range pml4 end pageCount s current foundPages =
     (if current < end then
        (if \<not> IsMapped pml4 current s then
           (if foundPages + 1 = pageCount
            then let rangeStart = current - (pageCount - 1) * PageSize
                 in Some (Inr (rangeStart, rangeStart + pageCount * PageSize))
            else find_range pml4 end pageCount s (current + PageSize) (foundPages + 1))
         else find_range pml4 end pageCount s (current + PageSize) 0)
      else Some (Inl (Panic ''Failed to find available virtual address range!'')))"

definition FindAvailableVirtualAddressRange ::
  "u64 \<Rightarrow> u64 \<Rightarrow> u64 \<Rightarrow> u64 \<Rightarrow> paging_sys \<Rightarrow> (fault + u64 \<times> u64) option" where
  "FindAvailableVirtualAddressRange pml4 start end pageCount s = find_range pml4 end pageCount s start 0"

definition FindAvailableVirtualAddressRangeKernel :: "u64 \<Rightarrow> paging_sys \<Rightarrow> (fault + u64 \<times> u64) option" where
  "FindAvailableVirtualAddressRangeKernel count s =
     FindAvailableVirtualAddressRange (sys_kernelState s) 0xFFFFFFFF80000000 0xFFFFFFFFFFFFF000 count s"

section \<open>Switching and initialisation\<close>

definition SwitchToPageTable :: "u64 \<Rightarrow> paging_sys \<Rightarrow> paging_sys" where
  "SwitchToPageTable state s = s\<lparr>sys_cr3 := state, sys_pageState := state\<rparr>"

definition SwitchToKernelPageTable :: "paging_sys \<Rightarrow> paging_sys" where
  "SwitchToKernelPageTable s = SwitchToPageTable (sys_kernelState s) s"

text \<open>
  Copying a table of level 3 (PDP), 2 (PD) or 1 (PT). The code calls it with level 3 and recurses
  one level down from levels 3 and 2 only, so level 0 is never reached.
\<close>

fun DeepCopyPageTables :: "nat \<Rightarrow> u64 \<Rightarrow> u64 \<Rightarrow> paging_sys \<Rightarrow> fault + paging_sys" where
  "DeepCopyPageTables 0 srcPhys dstPhys s = Inr s"
| "DeepCopyPageTables (Suc level) srcPhys dstPhys s =
     foldR (\<lambda>i s.
       let entry = sys_mem s srcPhys i
       in if \<not> present entry then Inr s
          else if (Suc level = 3 \<or> Suc level = 2) \<and> entry AND HugePage \<noteq> 0
          then Inr (s\<lparr>sys_mem := write_entry dstPhys i entry (sys_mem s)\<rparr>)
          else if Suc level = 1
          then Inr (s\<lparr>sys_mem := write_entry dstPhys i entry (sys_mem s)\<rparr>)
          else bindR (AllocatePages 1 (sys_pmm s)) (\<lambda>(newTablePhys, pmm').
            let m1 = clear_table newTablePhys (sys_mem s);
                m2 = write_entry dstPhys i (newTablePhys OR (m1 srcPhys i AND FlagsMask)) m1
            in DeepCopyPageTables level (m2 srcPhys i AND PointerMask) newTablePhys
                 (s\<lparr>sys_pmm := pmm', sys_mem := m2\<rparr>))) [0..<512] s"

definition CopyExistingPageTableToNew :: "u64 \<Rightarrow> paging_sys \<Rightarrow> fault + paging_sys" where
  "CopyExistingPageTableToNew newPml4 s0 =
     (let liminePml4 = sys_cr3 s0
      in foldR (\<lambda>i s.
           let entry = sys_mem s liminePml4 i
           in if \<not> present entry then Inr s
              else bindR (AllocatePages 1 (sys_pmm s)) (\<lambda>(dstPhys, pmm').
                if dstPhys = 0 then Inl (Panic ''Failed to allocate memory for page table during deep copy!'')
                else bindR (DeepCopyPageTables 3 (entry AND PointerMask) dstPhys (s\<lparr>sys_pmm := pmm'\<rparr>)) (\<lambda>s'.
                  Inr (s'\<lparr>sys_mem := write_entry newPml4 i ((sys_mem s' liminePml4 i AND FlagsMask) OR dstPhys) (sys_mem s')\<rparr>))))
         [0..<512] s0)"

definition ReserveHigherHalfPML4Slots :: "u64 \<Rightarrow> paging_sys \<Rightarrow> fault + paging_sys" where
  "ReserveHigherHalfPML4Slots pml4 s0 =
     foldR (\<lambda>i s.
       if present (sys_mem s pml4 i) then Inr s
       else bindR (AllocatePages 1 (sys_pmm s)) (\<lambda>(pdpPhys, pmm').
         if pdpPhys = 0 then Inl (Panic ''Failed to allocate memory for reserved PDP table!'')
         else Inr (s\<lparr>sys_pmm := pmm',
                    sys_mem := write_entry pml4 i (pdpPhys OR (Present OR ReadWrite)) (clear_table pdpPhys (sys_mem s))\<rparr>)))
       [256..<512] s0"

definition Paging_Initialize :: "paging_sys \<Rightarrow> fault + paging_sys" where
  "Paging_Initialize s =
     bindR (AllocatePages 1 (sys_pmm s)) (\<lambda>(pml4Phys, pmm').
       if pml4Phys = 0 then Inl (Panic ''Failed to allocate memory for kernel PML4!'')
       else let s1 = s\<lparr>sys_pmm := pmm', sys_mem := clear_table pml4Phys (sys_mem s), sys_kernelState := pml4Phys\<rparr>
            in bindR (CopyExistingPageTableToNew pml4Phys s1) (\<lambda>s2.
               bindR (ReserveHigherHalfPML4Slots pml4Phys s2) (\<lambda>s3.
                 Inr (SwitchToKernelPageTable s3))))"

end
