(* ===== verification/Page_Tables.thy ===== *)
theory Page_Tables
  imports Paging "HOL-Library.Sublist"
begin

text \<open>
  Page tables as trees. \<open>dir m r\<close> maps a path (the indices followed from the root \<open>r\<close>) to the address
  of the table it reaches, and \<open>leaf_at m r\<close> maps a path to the entry that maps memory there: an entry
  of a PT (path of length four) or a huge page entry further up. The tree invariant \<open>ptree\<close> says that
  no two paths reach the same table, that all tables lie in a given set of frames and that directory
  entries are either zero or present. The lemmas describe the three updates the code makes to a
  tree: entering a fresh empty table, writing a leaf, and dropping an empty table.
\<close>

unbundle bit_operations_syntax

section \<open>Paths, tables and leaves\<close>

definition huge :: "u64 \<Rightarrow> bool" where
  "huge e \<longleftrightarrow> e AND HugePage \<noteq> 0"

fun table_at :: "table_mem \<Rightarrow> u64 \<Rightarrow> nat list \<Rightarrow> u64 option" where
  "table_at m b [] = Some b"
| "table_at m b (i # is) = (if m b i = 0 \<or> huge (m b i) then None else table_at m (m b i AND PointerMask) is)"

definition dir :: "table_mem \<Rightarrow> u64 \<Rightarrow> nat list \<Rightarrow> u64 option" where
  "dir m r p = (if length p \<le> 3 \<and> set p \<subseteq> {..<512} then table_at m r p else None)"

definition leaf_at :: "table_mem \<Rightarrow> u64 \<Rightarrow> nat list \<Rightarrow> u64 option" where
  "leaf_at m r p =
     (if p = [] \<or> last p \<ge> 512 then None
      else case dir m r (butlast p) of
             None \<Rightarrow> None
           | Some t \<Rightarrow> (let e = m t (last p) in if present e \<and> (length p = 4 \<or> huge e) then Some e else None))"

definition ptree :: "table_mem \<Rightarrow> u64 \<Rightarrow> u64 set \<Rightarrow> bool" where
  "ptree m r O' \<longleftrightarrow>
     ran (dir m r) \<subseteq> O' \<and>
     (\<forall>p q b. dir m r p = Some b \<longrightarrow> dir m r q = Some b \<longrightarrow> p = q) \<and>
     (\<forall>p b i. dir m r p = Some b \<longrightarrow> length p < 3 \<longrightarrow> i < 512 \<longrightarrow> m b i \<noteq> 0 \<longrightarrow> present (m b i))"

lemma table_at_snoc:
  "table_at m r (p @ [i]) =
     (case table_at m r p of None \<Rightarrow> None
      | Some b \<Rightarrow> if m b i = 0 \<or> huge (m b i) then None else Some (m b i AND PointerMask))"
  by (induction m r p rule: table_at.induct) auto

lemma dir_Nil [simp]: "dir m r [] = Some r"
  by (simp add: dir_def)

lemma dir_snoc:
  "dir m r (p @ [i]) =
     (if length p < 3 \<and> i < 512
      then case dir m r p of None \<Rightarrow> None
           | Some b \<Rightarrow> if m b i = 0 \<or> huge (m b i) then None else Some (m b i AND PointerMask)
      else None)"
  by (auto simp: dir_def table_at_snoc split: option.splits)

lemma leaf_at_snoc:
  "leaf_at m r (p @ [i]) =
     (if i < 512 then case dir m r p of None \<Rightarrow> None
        | Some t \<Rightarrow> if present (m t i) \<and> (length p = 3 \<or> huge (m t i)) then Some (m t i) else None
      else None)"
  by (auto simp: leaf_at_def Let_def split: option.splits)

lemma leaf_at_Nil [simp]: "leaf_at m r [] = None"
  by (simp add: leaf_at_def)

lemma ptreeD:
  assumes "ptree m r O'" and "dir m r p = Some b"
  shows "b \<in> O'" and "dir m r q = Some b \<Longrightarrow> q = p"
    and "length p < 3 \<Longrightarrow> i < 512 \<Longrightarrow> m b i \<noteq> 0 \<Longrightarrow> present (m b i)"
  using assms unfolding ptree_def by (auto intro: ranI)

lemma ptree_root: "ptree m r O' \<Longrightarrow> r \<in> O'"
  using ptreeD(1) [of m r O' "[]"] by simp

lemma dir_length: "dir m r p = Some b \<Longrightarrow> length p \<le> 3 \<and> set p \<subseteq> {..<512}"
  by (auto simp: dir_def split: if_splits)

text \<open>Two maps on paths are equal when they agree on the root and on every extension of a path.\<close>

lemma path_map_eqI:
  assumes "f [] = g []" and "\<And>q j. f q = g q \<Longrightarrow> f (q @ [j]) = g (q @ [j])"
  shows "f = g"
proof
  fix q show "f q = g q"
    by (induction q rule: rev_induct) (auto intro: assms)
qed

lemma path_map_eqI2:
  assumes "f [] = g []" and "\<And>q j. f (q @ [j]) = g (q @ [j])"
  shows "f = g"
  by (rule path_map_eqI) (auto intro: assms)

section \<open>The three updates\<close>

lemma write_entry_at: "write_entry t i e m b j = (if b = t \<and> j = i then e else m b j)"
  by (simp add: write_entry_def)

lemma clear_table_at: "clear_table f m b j = (if b = f then 0 else m b j)"
  by (simp add: clear_table_def)

lemmas entry_simps = write_entry_at clear_table_at

text \<open>Only one path reaches a given table.\<close>

lemma ptree_unique:
  assumes "ptree m r O'" and "dir m r p = Some t" and "dir m r q = Some b"
  shows "b = t \<longleftrightarrow> q = p"
  using assms(2,3) ptreeD(2) [OF assms(1,2)] by (metis option.inject)

text \<open>Entering a fresh, cleared table.\<close>

lemma dir_insert:
  assumes tree: "ptree m r O'" and p: "dir m r p = Some t" "length p < 3" "i < 512" and free: "m t i = 0"
    and f: "f \<notin> O'" and e: "e AND PointerMask = f" "e \<noteq> 0" "\<not> huge e"
  shows "dir (write_entry t i e (clear_table f m)) r = (dir m r)(p @ [i] \<mapsto> f)" (is "dir ?m r = ?d")
proof (rule path_map_eqI)
  have tf: "f \<noteq> t" using ptreeD(1) [OF tree p(1)] f by auto
  have none: "dir m r (p @ [i]) = None" using p free by (simp add: dir_snoc)
  fix q j assume IH: "dir ?m r q = ?d q"
  show "dir ?m r (q @ [j]) = ?d (q @ [j])"
  proof (cases "q = p @ [i]")
    case True
    then have q: "dir ?m r q = Some f" "dir m r q = None" "?d (q @ [j]) = dir m r (q @ [j])"
      using IH none by auto
    show ?thesis unfolding q(3) using tf by (simp add: dir_snoc [of _ _ q] q(1,2) entry_simps)
  next
    case False
    then have eq: "dir ?m r q = dir m r q" using IH by simp
    show ?thesis
    proof (cases "dir m r q")
      case None
      then have "q \<noteq> p" using p by auto
      then show ?thesis using eq None by (simp add: dir_snoc [of _ _ q])
    next
      case (Some b)
      have bf: "b \<noteq> f" using ptreeD(1) [OF tree Some] f by auto
      show ?thesis
        using ptree_unique [OF tree p(1) Some] eq Some p e bf by (auto simp: dir_snoc [of _ _ q] entry_simps)
    qed
  qed
qed simp

lemma leaf_at_insert:
  assumes tree: "ptree m r O'" and p: "dir m r p = Some t" "length p < 3" "i < 512" and free: "m t i = 0"
    and f: "f \<notin> O'" and e: "e AND PointerMask = f" "e \<noteq> 0" "\<not> huge e"
  shows "leaf_at (write_entry t i e (clear_table f m)) r = leaf_at m r" (is "leaf_at ?m r = _")
proof (rule path_map_eqI2)
  have tf: "f \<noteq> t" using ptreeD(1) [OF tree p(1)] f by auto
  note d = dir_insert [OF assms]
  fix q j
  show "leaf_at ?m r (q @ [j]) = leaf_at m r (q @ [j])"
  proof (cases "q = p @ [i]")
    case True
    then have "dir m r q = None" "dir ?m r q = Some f" using p free by (simp_all add: dir_snoc d)
    then show ?thesis using tf by (simp add: leaf_at_snoc entry_simps present_def)
  next
    case False
    then have eq: "dir ?m r q = dir m r q" by (simp add: d)
    show ?thesis
    proof (cases "dir m r q")
      case (Some b)
      have bf: "b \<noteq> f" using ptreeD(1) [OF tree Some] f by auto
      show ?thesis
        using ptree_unique [OF tree p(1) Some] eq Some p e free bf
        by (auto simp: leaf_at_snoc entry_simps present_def)
    qed (simp add: leaf_at_snoc eq)
  qed
qed simp

lemma ptree_insert:
  assumes tree: "ptree m r O'" and p: "dir m r p = Some t" "length p < 3" "i < 512" and free: "m t i = 0"
    and f: "f \<notin> O'" and e: "e AND PointerMask = f" "present e" "\<not> huge e"
  shows "ptree (write_entry t i e (clear_table f m)) r (insert f O')" (is "ptree ?m r _")
proof -
  have nz: "e \<noteq> 0" using e(2) by (auto simp: present_def)
  note d = dir_insert [OF tree p free f e(1) nz e(3)]
  have new: "dir ?m r q = Some b \<longleftrightarrow> q = p @ [i] \<and> b = f \<or> q \<noteq> p @ [i] \<and> dir m r q = Some b" for q b
    by (auto simp: d)
  have old: "b \<in> O' \<and> b \<noteq> f" if "dir m r q = Some b" for q b
    using ptreeD(1) [OF tree that] f by auto
  have ft: "f \<noteq> t" using old [OF p(1)] by auto
  show ?thesis
    unfolding ptree_def
  proof (intro conjI allI impI)
    show "ran (dir ?m r) \<subseteq> insert f O'" using new old by (auto simp: ran_def)
    fix q q' b assume "dir ?m r q = Some b" "dir ?m r q' = Some b"
    then show "q = q'" using new old ptreeD(2) [OF tree] by metis
  next
    fix q b j assume q: "dir ?m r q = Some b" "length q < 3" "j < 512" "?m b j \<noteq> 0"
    show "present (?m b j)"
    proof (cases "q = p @ [i]")
      case True
      then show ?thesis using q new ft by (auto simp: entry_simps)
    next
      case False
      then have "dir m r q = Some b" using q new by simp
      then show ?thesis using q e(2) old ptreeD(3) [OF tree, of q b j] by (auto simp: entry_simps split: if_splits)
    qed
  qed
qed

text \<open>Writing an entry of a table of the last level.\<close>

lemma dir_write_leaf:
  assumes tree: "ptree m r O'" and p: "dir m r p = Some t" "length p = 3"
  shows "dir (write_entry t i e m) r = dir m r"
proof (rule path_map_eqI)
  fix q j assume IH: "dir (write_entry t i e m) r q = dir m r q"
  have "b \<noteq> t" if "length q < 3" "dir m r q = Some b" for b
    using ptree_unique [OF tree p(1) that(2)] that(1) p(2) by auto
  then show "dir (write_entry t i e m) r (q @ [j]) = dir m r (q @ [j])"
    using IH by (auto simp: dir_snoc entry_simps split: option.splits)
qed simp

lemma leaf_at_write_leaf:
  assumes tree: "ptree m r O'" and p: "dir m r p = Some t" "length p = 3" "i < 512"
  shows "leaf_at (write_entry t i e m) r = (leaf_at m r)(p @ [i] := if present e then Some e else None)"
    (is "leaf_at ?m r = ?l")
proof (rule path_map_eqI2)
  fix q j
  show "leaf_at ?m r (q @ [j]) = ?l (q @ [j])"
  proof (cases "dir m r q")
    case None
    then have "q \<noteq> p" using p by auto
    then show ?thesis using None by (simp add: leaf_at_snoc dir_write_leaf [OF tree p(1,2)])
  next
    case (Some b)
    show ?thesis using ptree_unique [OF tree p(1) Some] Some p
      by (auto simp: leaf_at_snoc dir_write_leaf [OF tree p(1,2)] entry_simps)
  qed
qed simp

lemma ptree_write_leaf:
  assumes tree: "ptree m r O'" and p: "dir m r p = Some t" "length p = 3"
  shows "ptree (write_entry t i e m) r O'"
proof -
  have "write_entry t i e m b j = m b j" if "dir m r q = Some b" "length q < 3" for q b j
    using ptree_unique [OF tree p(1) that(1)] that(2) p(2) by (auto simp: entry_simps)
  then show ?thesis
    using tree unfolding ptree_def dir_write_leaf [OF assms] by metis
qed

text \<open>Dropping a table that has no present entry.\<close>

lemma dir_remove:
  assumes tree: "ptree m r O'" and p: "dir m r p = Some t" and c: "dir m r (p @ [i]) = Some f"
    and empty: "\<And>j. j < 512 \<Longrightarrow> \<not> present (m f j)"
  shows "dir (write_entry t i 0 m) r = (dir m r)(p @ [i] := None)" (is "dir ?m r = ?d")
proof (rule path_map_eqI)
  fix q j assume IH: "dir ?m r q = ?d q"
  show "dir ?m r (q @ [j]) = ?d (q @ [j])"
  proof (cases "q = p @ [i]")
    case True
    then have q: "dir ?m r q = None" "dir m r q = Some f" "?d (q @ [j]) = dir m r (q @ [j])"
      using IH c by auto
    have "m f j = 0" if "length q < 3" "j < 512"
      using ptreeD(3) [OF tree q(2), of j] that empty by auto
    then show ?thesis unfolding q(3) by (simp add: dir_snoc [of _ _ q] q(1,2))
  next
    case False
    then have eq: "dir ?m r q = dir m r q" using IH by simp
    show ?thesis
    proof (cases "dir m r q")
      case None
      then have "q \<noteq> p" using p by auto
      then show ?thesis using eq None by (simp add: dir_snoc [of _ _ q])
    next
      case (Some b)
      then show ?thesis using ptree_unique [OF tree p(1) Some] eq by (auto simp: dir_snoc [of _ _ q] entry_simps)
    qed
  qed
qed simp

lemma leaf_at_remove:
  assumes tree: "ptree m r O'" and p: "dir m r p = Some t" and c: "dir m r (p @ [i]) = Some f"
    and empty: "\<And>j. j < 512 \<Longrightarrow> \<not> present (m f j)"
  shows "leaf_at (write_entry t i 0 m) r = leaf_at m r" (is "leaf_at ?m r = _")
proof (rule path_map_eqI2)
  note d = dir_remove [OF assms]
  have len: "length p < 3" "i < 512" "\<not> huge (m t i)" using c p by (auto simp: dir_snoc split: if_splits)
  fix q j
  show "leaf_at ?m r (q @ [j]) = leaf_at m r (q @ [j])"
  proof (cases "q = p @ [i]")
    case True
    then have "dir m r q = Some f" "dir ?m r q = None" using c by (simp_all add: d)
    then show ?thesis using empty by (simp add: leaf_at_snoc)
  next
    case False
    then have eq: "dir ?m r q = dir m r q" by (simp add: d)
    show ?thesis
    proof (cases "dir m r q")
      case (Some b)
      show ?thesis using ptree_unique [OF tree p(1) Some] eq Some p len
        by (auto simp: leaf_at_snoc entry_simps present_def)
    qed (simp add: leaf_at_snoc eq)
  qed
qed simp

lemma ptree_remove:
  assumes tree: "ptree m r O'" and p: "dir m r p = Some t" and c: "dir m r (p @ [i]) = Some f"
    and empty: "\<And>j. j < 512 \<Longrightarrow> \<not> present (m f j)"
  shows "ptree (write_entry t i 0 m) r (O' - {f})" (is "ptree ?m r _")
proof -
  have old: "dir m r q = Some b \<and> b \<in> O' - {f}" if "dir ?m r q = Some b" for q b
  proof -
    have q: "dir m r q = Some b" "q \<noteq> p @ [i]"
      using that by (auto simp: dir_remove [OF assms] split: if_splits)
    then show ?thesis using ptree_unique [OF tree c q(1)] ptreeD(1) [OF tree q(1)] by simp
  qed
  show ?thesis
    unfolding ptree_def
  proof (intro conjI allI impI)
    show "ran (dir ?m r) \<subseteq> O' - {f}" using old by (auto simp: ran_def)
    fix q q' b assume "dir ?m r q = Some b" "dir ?m r q' = Some b"
    then show "q = q'" using old ptreeD(2) [OF tree] by metis
  next
    fix q b j assume "dir ?m r q = Some b" "length q < 3" "j < 512" "?m b j \<noteq> 0"
    then show "present (?m b j)" using old ptreeD(3) [OF tree, of q b j] by (auto simp: entry_simps split: if_splits)
  qed
qed

end
