(* ===== verification/Address_Space.thy ===== *)
theory Address_Space
  imports Page_Tables
begin

text \<open>
  What the paging operations do to an address space. The invariant \<open>pt_wf s r\<close> says that the memory
  manager is well formed and that the tables reached from the root \<open>r\<close> form a tree of frames the
  memory manager has handed out. The abstract view of an address space is the map \<open>leaf_at\<close> from paths
  to entries: \<open>MapPage\<close> refines a map update, \<open>UnmapPage\<close> a deletion, \<open>GetPhysicalAddress\<close> a lookup.
\<close>

unbundle bit_operations_syntax

section \<open>Masks and entries\<close>

lemma PointerMask_bit: "bit PointerMask n \<longleftrightarrow> 12 \<le> n \<and> n < 52"
proof -
  have "PointerMask = mask 52 AND NOT (mask 12)" by (simp add: PointerMask_def mask_eq_decr_exp)
  then show ?thesis unfolding \<open>PointerMask = _\<close> by (auto simp: bit_simps)
qed

lemma FlagsMask_not: "FlagsMask = NOT PointerMask"
  by (simp add: FlagsMask_def PointerMask_def)

lemma frame_addr_bit:
  assumes "f < 2 ^ 40" and "bit (of_nat f * PageSize) n"
  shows "12 \<le> n \<and> n < 52"
proof -
  have "of_nat f * PageSize = push_bit 12 (of_nat f)" by (simp add: push_bit_eq_mult)
  with assms(2) have n: "12 \<le> n" "bit f (n - 12)" by (auto simp: bit_simps)
  have "f = take_bit 40 f" using assms(1) by (simp add: take_bit_nat_eq_self)
  with n(2) have "n - 12 < 40" by (metis bit_take_bit_iff)
  with n(1) show ?thesis by simp
qed

lemma flag_bits:
  "bit Present n \<longleftrightarrow> n = 0" "bit ReadWrite n \<longleftrightarrow> n = 1" "bit User n \<longleftrightarrow> n = 2" "bit HugePage n \<longleftrightarrow> n = 7"
  unfolding Present_def ReadWrite_def User_def HugePage_def bit_push_bit_iff by (auto simp: bit_1_iff)

lemma present_bit: "present e \<longleftrightarrow> bit e 0"
  using word_and_one_bit_nonzero [of e 0] by (simp add: present_def Present_def)

lemma huge_bit: "huge e \<longleftrightarrow> bit e 7"
  using word_and_one_bit_nonzero [of e 7] by (simp add: huge_def HugePage_def push_bit_eq_mult)

text \<open>A directory entry for a new frame: it is present, not huge, and points at the frame.\<close>

lemma dir_entry:
  assumes "f < 2 ^ 40" and "\<And>n. bit fl n \<Longrightarrow> n < 7" and "bit fl 0"
  shows "((of_nat f * PageSize) OR fl) AND PointerMask = of_nat f * PageSize"
    and "present ((of_nat f * PageSize) OR fl)" and "\<not> huge ((of_nat f * PageSize) OR fl)"
proof -
  have out: "\<not> bit (of_nat f * PageSize) n" if "\<not> (12 \<le> n \<and> n < 52)" for n
    using frame_addr_bit [OF assms(1), of n] that by blast
  show "((of_nat f * PageSize) OR fl) AND PointerMask = of_nat f * PageSize"
  proof (rule bit_word_eqI)
    fix n
    show "bit (((of_nat f * PageSize) OR fl) AND PointerMask) n = bit (of_nat f * PageSize) n"
      using assms(2) [of n] out [of n] by (auto simp: bit_and_iff bit_or_iff PointerMask_bit)
  qed
  show "present ((of_nat f * PageSize) OR fl)" using assms(3) by (simp add: present_bit bit_or_iff)
  show "\<not> huge ((of_nat f * PageSize) OR fl)"
    using assms(2) [of 7] out [of 7] by (auto simp: huge_bit bit_or_iff)
qed

text \<open>The flags the code gives to directory entries: bit 0 is set and only bits below 7 are.\<close>

definition directory_flags_ok :: "u64 \<Rightarrow> bool" where
  "directory_flags_ok fl \<longleftrightarrow> bit fl 0 \<and> (\<forall>n. bit fl n \<longrightarrow> n < 7)"

lemma directory_flags_ok [simp]:
  "directory_flags_ok (Present OR ReadWrite OR User)" "directory_flags_ok (Present OR ReadWrite)"
  by (auto simp: directory_flags_ok_def bit_or_iff flag_bits)

lemma directory_entry:
  assumes "f < 2 ^ 40" and "directory_flags_ok fl"
  defines "e \<equiv> (of_nat f * PageSize) OR fl"
  shows "e AND PointerMask = of_nat f * PageSize" and "present e" and "\<not> huge e" and "e \<noteq> 0"
proof -
  show e: "e AND PointerMask = of_nat f * PageSize" "present e" "\<not> huge e"
    unfolding e_def by (rule dir_entry [OF assms(1)]; use assms(2) in \<open>auto simp: directory_flags_ok_def\<close>)+
  show "e \<noteq> 0" using e(2) by (auto simp: present_def)
qed

section \<open>The invariant and the view an operation keeps\<close>

definition owned :: "paging_sys \<Rightarrow> u64 set" where
  "owned s = (\<lambda>f. of_nat f * PageSize) ` allocated_set (sys_pmm s)"

definition pt_wf :: "paging_sys \<Rightarrow> u64 \<Rightarrow> bool" where
  "pt_wf s r \<longleftrightarrow> pmm_wf (sys_pmm s) \<and> ptree (sys_mem s) r (owned s)"

abbreviation tables :: "paging_sys \<Rightarrow> u64 \<Rightarrow> nat list \<Rightarrow> u64 option" where
  "tables s r \<equiv> dir (sys_mem s) r"

abbreviation mapping_of :: "paging_sys \<Rightarrow> u64 \<Rightarrow> nat list \<Rightarrow> u64 option" where
  "mapping_of s r \<equiv> leaf_at (sys_mem s) r"

text \<open>Frames that are handed out but hold no table of the address space of \<open>r\<close>.\<close>

definition foreign :: "paging_sys \<Rightarrow> u64 \<Rightarrow> u64 set" where
  "foreign s r = owned s - ran (tables s r)"

text \<open>
  A step that works on the address space of \<open>r\<close> only: foreign frames stay handed out with their
  contents, and the layout of memory and the registers do not change.
\<close>

definition local_step :: "u64 \<Rightarrow> paging_sys \<Rightarrow> paging_sys \<Rightarrow> bool" where
  "local_step r s s' \<longleftrightarrow>
     foreign s' r = foreign s r \<and> (\<forall>b \<in> foreign s r. sys_mem s' b = sys_mem s b) \<and>
     same_layout (sys_pmm s) (sys_pmm s') \<and>
     sys_kernelState s' = sys_kernelState s \<and> sys_cr3 s' = sys_cr3 s \<and> sys_pageState s' = sys_pageState s"

lemma local_step_refl [simp]: "local_step r s s"
  by (simp add: local_step_def)

lemma local_step_trans [trans]: "local_step r s t \<Longrightarrow> local_step r t u \<Longrightarrow> local_step r s u"
  unfolding local_step_def using same_layout_trans by metis

definition page_path :: "u64 \<Rightarrow> nat list" where
  "page_path va = (case ExtractPageTableIndices va of (a, b, c, d, _) \<Rightarrow> [a, b, c, d])"

definition covered_by_huge :: "paging_sys \<Rightarrow> u64 \<Rightarrow> u64 \<Rightarrow> bool" where
  "covered_by_huge s r va \<longleftrightarrow> (\<exists>n \<in> {1..<4}. mapping_of s r (take n (page_path va)) \<noteq> None)"

lemma index_bound: "unat ((w :: u64) AND 0x1FF) < 512"
proof -
  have "w AND 0x1FF = take_bit 9 w" by (simp add: take_bit_eq_mask mask_eq_decr_exp)
  then have "unat (w AND 0x1FF) = unat w mod 2 ^ 9"
    by (simp only: unsigned_take_bit_eq) (simp add: take_bit_eq_mod)
  then show ?thesis by simp
qed

lemma indices:
  obtains a b c d where "ExtractPageTableIndices va = (a, b, c, d, va AND 0xFFF)" "page_path va = [a, b, c, d]"
    "a < 512" "b < 512" "c < 512" "d < 512"
  by (rule that [of "unat (drop_bit 39 va AND 0x1FF)" "unat (drop_bit 30 va AND 0x1FF)"
        "unat (drop_bit 21 va AND 0x1FF)" "unat (drop_bit 12 va AND 0x1FF)"])
     (simp_all add: ExtractPageTableIndices_def page_path_def index_bound)

lemma owned_address: "pmm_wf (sys_pmm s) \<Longrightarrow> b \<in> owned s \<Longrightarrow>
    \<exists>f \<in> allocated_set (sys_pmm s). b = of_nat f * PageSize \<and> f < 2 ^ 40"
  using allocated_bounds by (auto simp: owned_def)

text \<open>One step of a walk in a tree: an entry leads to a table exactly when it is present and not huge.\<close>

lemma walk_step:
  assumes "ptree m r O'" and "dir m r p = Some t" and "length p < 3" and "i < 512" and "leaf_at m r (p @ [i]) = None"
  shows "m t i = 0 \<longleftrightarrow> \<not> present (m t i)"
    and "dir m r (p @ [i]) = (if present (m t i) then Some (m t i AND PointerMask) else None)"
proof -
  have z: "m t i = 0 \<longleftrightarrow> \<not> present (m t i)" using ptreeD(3) [OF assms(1-4)] by (auto simp: present_def)
  then show "m t i = 0 \<longleftrightarrow> \<not> present (m t i)" .
  show "dir m r (p @ [i]) = (if present (m t i) then Some (m t i AND PointerMask) else None)"
    using assms(2-5) z by (auto simp: dir_snoc leaf_at_snoc split: if_splits)
qed

lemma dir_snocD:
  assumes "dir m r (p @ [i]) = Some f"
  obtains t where "dir m r p = Some t" "length p < 3" "i < 512" "m t i \<noteq> 0" "\<not> huge (m t i)" "f = m t i AND PointerMask"
  using assms by (auto simp: dir_snoc split: if_splits option.splits)

section \<open>Entering and dropping a table\<close>

lemma owned_insert:
  assumes "allocated_set (sys_pmm s') = insert f (allocated_set (sys_pmm s))"
  shows "owned s' = insert (of_nat f * PageSize) (owned s)"
  using assms by (simp add: owned_def)

lemma fresh_not_owned:
  assumes "pmm_wf (sys_pmm s)" and "f \<notin> allocated_set (sys_pmm s)" and "f < 2 ^ 40"
  shows "of_nat f * PageSize \<notin> owned s"
  using assms frame_addr_inj [of f] allocated_bounds [of "sys_pmm s"] by (auto simp: owned_def)

text \<open>
  The step the code makes wherever it needs a new table: allocate a frame, clear it, and enter it
  into a zero entry of the parent.
\<close>

lemma enter_table_step:
  assumes wf: "pt_wf s r" and p: "tables s r p = Some t" "length p < 3" "i < 512" and zero: "sys_mem s t i = 0"
    and alloc: "AllocatePages 1 (sys_pmm s) = Inr (a, pmm')" and a: "a \<noteq> 0" and fl: "directory_flags_ok fl"
  defines "s' \<equiv> s\<lparr>sys_pmm := pmm', sys_mem := write_entry t i (a OR fl) (clear_table a (sys_mem s))\<rparr>"
  shows "pt_wf s' r" and "local_step r s s'" and "mapping_of s' r = mapping_of s r"
    and "tables s' r = (tables s r)(p @ [i] \<mapsto> a)" and "tables s r (p @ [i]) = None"
    and "card (free_set (sys_pmm s)) = card (free_set (sys_pmm s')) + 1"
    and "sys_mem s' t i AND PointerMask = a"
proof -
  have pmm: "pmm_wf (sys_pmm s)" and tree: "ptree (sys_mem s) r (owned s)" using wf by (auto simp: pt_wf_def)
  obtain f where f: "a = of_nat f * PageSize" "f \<in> free_set (sys_pmm s)" "f \<notin> allocated_set (sys_pmm s)" "f < 2 ^ 40"
      "pmm_wf pmm'" "allocated_set pmm' = insert f (allocated_set (sys_pmm s))"
      "free_set pmm' = free_set (sys_pmm s) - {f}" "same_layout (sys_pmm s) pmm'"
    using pmm by (cases rule: pmm.alloc_cases) (use alloc a in auto)
  note e = directory_entry [OF f(4) fl, folded f(1)]
  have fresh: "a \<notin> owned s" using fresh_not_owned [OF pmm f(3,4)] f(1) by simp
  have own: "owned s' = insert a (owned s)" using owned_insert [of s' f s] f(1,6) by (simp add: s'_def)
  note upd = dir_insert [OF tree p zero fresh e(1,4,3)] leaf_at_insert [OF tree p zero fresh e(1,4,3)]
    ptree_insert [OF tree p zero fresh e(1-3)]
  show d: "tables s' r = (tables s r)(p @ [i] \<mapsto> a)" using upd(1) by (simp add: s'_def)
  show "mapping_of s' r = mapping_of s r" using upd(2) by (simp add: s'_def)
  show none: "tables s r (p @ [i]) = None" using p zero by (simp add: dir_snoc)
  show "pt_wf s' r" using upd(3) own f(5) by (simp add: pt_wf_def s'_def)
  have tin: "t \<in> ran (tables s r)" using p(1) by (rule ranI)
  have "ran (tables s r) \<subseteq> owned s" using tree by (simp add: ptree_def)
  then have at: "a \<noteq> t" using tin fresh by auto
  have "foreign s' r = foreign s r" unfolding foreign_def own d using none fresh by (auto simp: ran_map_upd)
  moreover have "sys_mem s' b = sys_mem s b" if "b \<in> foreign s r" for b
    using that tin fresh by (auto simp: s'_def foreign_def entry_simps)
  ultimately show "local_step r s s'" using f(8) by (simp add: local_step_def s'_def)
  show "card (free_set (sys_pmm s)) = card (free_set (sys_pmm s')) + 1"
    using f(2,7) card_Suc_Diff1 [of "free_set (sys_pmm s)" f] by (simp add: s'_def)
  show "sys_mem s' t i AND PointerMask = a" using e(1) by (simp add: s'_def entry_simps)
qed

lemma ensure_table_cases:
  assumes wf: "pt_wf s r" and p: "tables s r p = Some t" "length p < 3" "i < 512"
    and nohuge: "mapping_of s r (p @ [i]) = None"
  obtains (fail) "free_set (sys_pmm s) = {}" "ensure_table msg t i s = Inl (Panic msg)"
  | (ok) b s' where "ensure_table msg t i s = Inr (b, s')" "pt_wf s' r" "local_step r s s'"
      "tables s' r (p @ [i]) = Some b" "mapping_of s' r = mapping_of s r" "tables s r \<subseteq>\<^sub>m tables s' r"
      "card (free_set (sys_pmm s)) \<le> card (free_set (sys_pmm s')) + 1"
      "\<And>q. tables s' r q \<noteq> tables s r q \<Longrightarrow> q = p @ [i]"
proof (cases "sys_mem s t i = 0")
  case False
  have tree: "ptree (sys_mem s) r (owned s)" using wf by (simp add: pt_wf_def)
  have "tables s r (p @ [i]) = Some (sys_mem s t i AND PointerMask)"
    using walk_step [OF tree p nohuge] False by auto
  then show ?thesis
    using ok [of "sys_mem s t i AND PointerMask" s] False wf by (simp add: ensure_table_def)
next
  case zero: True
  have "pmm_wf (sys_pmm s)" using wf by (auto simp: pt_wf_def)
  then show ?thesis
  proof (cases rule: pmm.alloc_cases)
    case none
    then show ?thesis using fail zero by (simp add: ensure_table_def)
  next
    case (some f pmm')
    let ?a = "of_nat f * PageSize :: u64"
    let ?s = "s\<lparr>sys_pmm := pmm', sys_mem := write_entry t i (?a OR (Present OR ReadWrite OR User)) (clear_table ?a (sys_mem s))\<rparr>"
    note e = enter_table_step [OF wf p zero some(1,6) directory_flags_ok(1)]
    have "ensure_table msg t i s = Inr (?a, ?s)"
      using zero some(1,6) e(7) by (simp add: ensure_table_def)
    then show ?thesis
      by (rule ok) (use e in \<open>auto simp: map_le_def split: if_splits\<close>)
  qed
qed

lemma ran_remove_unique:
  assumes "d k = Some f" and "\<And>q. q \<noteq> k \<Longrightarrow> d q \<noteq> Some f"
  shows "ran (d(k := None)) = ran d - {f}"
proof (intro equalityI subsetI)
  fix x assume "x \<in> ran d - {f}"
  then obtain a where "d a = Some x" "x \<noteq> f" by (auto simp: ran_def)
  then have "(d(k := None)) a = Some x" using assms(1) by auto
  then show "x \<in> ran (d(k := None))" by (rule ranI)
qed (use assms(2) in \<open>auto simp: ran_def split: if_splits\<close>)

lemma drop_table_ok:
  assumes wf: "pt_wf s r" and p: "tables s r p = Some t" and c: "tables s r (p @ [i]) = Some f"
    and empty: "IsTableEmpty (sys_mem s f)"
  obtains s' where "drop_table f t i s = Inr s'" "pt_wf s' r" "local_step r s s'"
      "mapping_of s' r = mapping_of s r" "tables s' r = (tables s r)(p @ [i] := None)"
      "sys_mem s' = write_entry t i 0 (sys_mem s)"
proof -
  have pmm: "pmm_wf (sys_pmm s)" and tree: "ptree (sys_mem s) r (owned s)" using wf by (auto simp: pt_wf_def)
  have em: "\<And>j. j < 512 \<Longrightarrow> \<not> present (sys_mem s f j)" using empty by (auto simp: IsTableEmpty_def)
  obtain n where n: "n \<in> allocated_set (sys_pmm s)" "f = of_nat n * PageSize" "n < 2 ^ 40"
    using owned_address [OF pmm ptreeD(1) [OF tree c]] by blast
  from pmm.free_one [OF pmm n(1)] obtain pmm' where pmm': "FreePages f 1 (sys_pmm s) = Inr pmm'" "pmm_wf pmm'"
      "allocated_set pmm' = allocated_set (sys_pmm s) - {n}" "same_layout (sys_pmm s) pmm'"
    using n(2) by blast
  define s' where "s' = s\<lparr>sys_pmm := pmm', sys_mem := write_entry t i 0 (sys_mem s)\<rparr>"
  have "inj_on (\<lambda>f. of_nat f * PageSize) (allocated_set (sys_pmm s))"
    using frame_addr_inj allocated_bounds [OF pmm] by (auto simp: inj_on_def)
  then have own: "owned s' = owned s - {f}"
    using n(1) pmm'(3) by (simp add: owned_def s'_def n(2) inj_on_image_set_diff [of _ "allocated_set (sys_pmm s)"])
  note upd = dir_remove [OF tree p c em] leaf_at_remove [OF tree p c em] ptree_remove [OF tree p c em]
  have d: "tables s' r = (tables s r)(p @ [i] := None)" using upd(1) by (simp add: s'_def)
  have "ran (tables s' r) = ran (tables s r) - {f}"
    unfolding d by (rule ran_remove_unique [of "tables s r", OF c]) (use ptreeD(2) [OF tree c] in blast)
  then have fe: "foreign s' r = foreign s r" using own c by (auto simp: foreign_def ran_def)
  have "t \<in> ran (tables s r)" using p by (rule ranI)
  then have mem: "sys_mem s' b = sys_mem s b" if "b \<in> foreign s r" for b
    using that by (auto simp: s'_def foreign_def entry_simps)
  show ?thesis
    by (rule that [of s']) (use pmm' fe mem d upd own in \<open>auto simp: drop_table_def pt_wf_def local_step_def s'_def\<close>)
qed

section \<open>Mapping\<close>

lemma covered_by_huge_prefix:
  assumes "\<not> covered_by_huge s r va" and "page_path va = [a, b, c, d]"
  shows "mapping_of s r ([] @ [a]) = None" "mapping_of s r ([a] @ [b]) = None" "mapping_of s r ([a, b] @ [c]) = None"
  using assms by (auto simp: covered_by_huge_def numeral_eq_Suc atLeastLessThanSuc)

text \<open>The three directory levels of \<open>MapPage\<close> in one step.\<close>

definition ensure_tables :: "u64 \<Rightarrow> nat \<Rightarrow> nat \<Rightarrow> nat \<Rightarrow> paging_sys \<Rightarrow> fault + u64 \<times> paging_sys" where
  "ensure_tables r a b c s =
     bindR (ensure_table ''Failed to allocate memory for new PDP table!'' r a s) (\<lambda>(pdp, s1).
     bindR (ensure_table ''Failed to allocate memory for new PD table!'' pdp b s1) (\<lambda>(pd, s2).
     ensure_table ''Failed to allocate memory for new PT table!'' pd c s2))"

lemma MapPage_unfold:
  assumes "ExtractPageTableIndices va = (a, b, c, d, off)" and "va AND (PageSize - 1) = 0" and "pa AND (PageSize - 1) = 0"
  shows "MapPage r va pa fl s = bindR (ensure_tables r a b c s) (\<lambda>(pt, s3).
           if present (sys_mem s3 pt d) then Inl (Panic ''Virtual address is already mapped'')
           else Inr (s3\<lparr>sys_mem := write_entry pt d ((pa AND PointerMask) OR (fl OR Present)) (sys_mem s3)\<rparr>))"
proof -
  have "MapPage r va pa fl s =
     bindR (ensure_table ''Failed to allocate memory for new PDP table!'' r a s) (\<lambda>(pdp, s1).
     bindR (ensure_table ''Failed to allocate memory for new PD table!'' pdp b s1) (\<lambda>(pd, s2).
     bindR (ensure_table ''Failed to allocate memory for new PT table!'' pd c s2) (\<lambda>(pt, s3).
       if present (sys_mem s3 pt d) then Inl (Panic ''Virtual address is already mapped'')
       else Inr (s3\<lparr>sys_mem := write_entry pt d ((pa AND PointerMask) OR (fl OR Present)) (sys_mem s3)\<rparr>))))"
    using assms by (simp add: MapPage_def)
  then show ?thesis by (simp add: ensure_tables_def bindR_assoc case_prod_unfold)
qed

lemma ensure_tables_cases:
  assumes wf: "pt_wf s r" and i: "a < 512" "b < 512" "c < 512"
    and h: "mapping_of s r ([] @ [a]) = None" "mapping_of s r ([a] @ [b]) = None" "mapping_of s r ([a, b] @ [c]) = None"
  obtains (fail) msg where "card (free_set (sys_pmm s)) < 3" "ensure_tables r a b c s = Inl (Panic msg)"
  | (ok) pt s' where "ensure_tables r a b c s = Inr (pt, s')" "pt_wf s' r" "local_step r s s'"
      "tables s' r [a, b, c] = Some pt" "mapping_of s' r = mapping_of s r" "tables s r \<subseteq>\<^sub>m tables s' r"
      "\<And>q. tables s' r q \<noteq> tables s r q \<Longrightarrow> q \<in> {[a], [a, b], [a, b, c]}"
      "card (free_set (sys_pmm s)) \<le> card (free_set (sys_pmm s')) + 3"
proof -
  have "tables s r [] = Some r" "length [] < (3 :: nat)" by simp_all
  from wf this i(1) h(1) show ?thesis
  proof (cases rule: ensure_table_cases [where msg = "''Failed to allocate memory for new PDP table!''"])
    case fail1: fail
    show ?thesis
      by (rule fail [of "''Failed to allocate memory for new PDP table!''"]) (use fail1 in \<open>simp_all add: ensure_tables_def\<close>)
  next
    case 1: (ok pdp s1)
    have t1: "tables s1 r [a] = Some pdp" "length [a] < 3" "mapping_of s1 r ([a] @ [b]) = None"
      using h(2) 1(4,5) by simp_all
    from 1(2) t1(1,2) i(2) t1(3) show ?thesis
    proof (cases rule: ensure_table_cases [where msg = "''Failed to allocate memory for new PD table!''"])
      case fail2: fail
      show ?thesis
        by (rule fail [of "''Failed to allocate memory for new PD table!''"])
          (use fail2 1(1,7) in \<open>simp_all add: ensure_tables_def\<close>)
    next
      case 2: (ok pd s2)
      have t2: "tables s2 r [a, b] = Some pd" "length [a, b] < 3" "mapping_of s2 r ([a, b] @ [c]) = None"
        using h(3) 1(5) 2(4,5) by simp_all
      from 2(2) t2(1,2) i(3) t2(3) show ?thesis
      proof (cases rule: ensure_table_cases [where msg = "''Failed to allocate memory for new PT table!''"])
        case fail3: fail
        show ?thesis
          by (rule fail [of "''Failed to allocate memory for new PT table!''"])
            (use fail3 1(1,7) 2(1,7) in \<open>simp_all add: ensure_tables_def\<close>)
      next
        case 3: (ok pt s3)
        have diff: "q \<in> {[a], [a, b], [a, b, c]}" if "tables s3 r q \<noteq> tables s r q" for q
          using that 1(8) [of q] 2(8) [of q] 3(8) [of q] by (metis append_Cons append_Nil insertCI)
        have res: "ensure_tables r a b c s = Inr (pt, s3)" using 1(1) 2(1) 3(1) by (simp add: ensure_tables_def)
        have "local_step r s s3" using 1(3) 2(3) 3(3) local_step_trans by blast
        moreover have "tables s r \<subseteq>\<^sub>m tables s3 r" using 1(6) 2(6) 3(6) map_le_trans by blast
        moreover have "tables s3 r [a, b, c] = Some pt" "mapping_of s3 r = mapping_of s r"
          using 1(5) 2(5) 3(4,5) by simp_all
        moreover have "card (free_set (sys_pmm s)) \<le> card (free_set (sys_pmm s3)) + 3" using 1(7) 2(7) 3(7) by simp
        ultimately show ?thesis using ok [OF res 3(2)] diff by blast
      qed
    qed
  qed
qed

lemma write_leaf_step:
  fixes e :: u64
  assumes wf: "pt_wf s r" and p: "tables s r p = Some t" "length p = 3" "i < 512"
  defines "s' \<equiv> s\<lparr>sys_mem := write_entry t i e (sys_mem s)\<rparr>"
  shows "pt_wf s' r" and "local_step r s s'" and "tables s' r = tables s r"
    and "mapping_of s' r = (mapping_of s r)(p @ [i] := if present e then Some e else None)"
proof -
  have tree: "ptree (sys_mem s) r (owned s)" using wf by (simp add: pt_wf_def)
  have own: "owned s' = owned s" by (simp add: owned_def s'_def)
  show t': "tables s' r = tables s r" using dir_write_leaf [OF tree p(1,2)] by (simp add: s'_def)
  show "pt_wf s' r" using wf ptree_write_leaf [OF tree p(1,2)] own by (simp add: pt_wf_def s'_def)
  show "mapping_of s' r = (mapping_of s r)(p @ [i] := if present e then Some e else None)"
    using leaf_at_write_leaf [OF tree p] by (simp add: s'_def)
  have "t \<in> ran (tables s r)" using p(1) by (rule ranI)
  then show "local_step r s s'"
    using own t' by (auto simp: local_step_def foreign_def s'_def entry_simps)
qed

lemma present_or: "present (e OR (fl OR Present))"
  by (simp add: present_bit bit_or_iff flag_bits)

lemma MapPage_cases:
  assumes wf: "pt_wf s r" and al: "va AND (PageSize - 1) = 0" "pa AND (PageSize - 1) = 0"
    and nohuge: "\<not> covered_by_huge s r va"
  obtains (mapped) "mapping_of s r (page_path va) \<noteq> None" "\<exists>msg. MapPage r va pa fl s = Inl (Panic msg)"
  | (nomem) "card (free_set (sys_pmm s)) < 3" "\<exists>msg. MapPage r va pa fl s = Inl (Panic msg)"
  | (ok) s' where "MapPage r va pa fl s = Inr s'" "mapping_of s r (page_path va) = None" "pt_wf s' r" "local_step r s s'"
      "mapping_of s' r = (mapping_of s r)(page_path va \<mapsto> ((pa AND PointerMask) OR (fl OR Present)))"
      "tables s r \<subseteq>\<^sub>m tables s' r" "\<And>q. tables s' r q \<noteq> tables s r q \<Longrightarrow> strict_prefix q (page_path va)"
      "card (free_set (sys_pmm s)) \<le> card (free_set (sys_pmm s')) + 3"
proof -
  obtain a b c d where i: "ExtractPageTableIndices va = (a, b, c, d, va AND 0xFFF)" "page_path va = [a, b, c, d]"
    "a < 512" "b < 512" "c < 512" "d < 512" by (rule indices)
  note unf = MapPage_unfold [OF i(1) al]
  note h = covered_by_huge_prefix [OF nohuge i(2)]
  from wf i(3-5) h show ?thesis
  proof (cases rule: ensure_tables_cases)
    case (fail msg)
    then show ?thesis using nomem by (simp add: unf)
  next
    case (ok pt s3)
    have m: "mapping_of s r (page_path va) = (if present (sys_mem s3 pt d) then Some (sys_mem s3 pt d) else None)"
      using ok(4,5) i leaf_at_snoc [of "sys_mem s3" r "[a, b, c]" d] by simp
    show ?thesis
    proof (cases "present (sys_mem s3 pt d)")
      case True
      then show ?thesis using mapped m ok(1) by (simp add: unf)
    next
      case False
      let ?e = "(pa AND PointerMask) OR (fl OR Present)"
      note w = write_leaf_step [OF ok(2,4) _ i(6), of ?e]
      have diff: "strict_prefix q (page_path va)" if "tables s3 r q \<noteq> tables s r q" for q
        using ok(7) [OF that] i(2) by auto
      show ?thesis
        by (rule that(3) [of "s3\<lparr>sys_mem := write_entry pt d ?e (sys_mem s3)\<rparr>"])
          (use False ok(1-6,8) m w i(2) present_or diff in \<open>auto simp: unf intro: local_step_trans\<close>)
    qed
  qed
qed

section \<open>Looking up and unmapping\<close>

text \<open>
  The walk that \<open>GetPhysicalAddress\<close> and \<open>UnmapPage\<close> make: the four tests for a present entry, and the
  tables they reach. \<open>walk k\<close> is the walk with the continuations \<open>stop\<close> (by level) and \<open>go\<close>.
\<close>

definition walk :: "table_mem \<Rightarrow> u64 \<Rightarrow> nat \<times> nat \<times> nat \<times> nat \<Rightarrow> (nat \<Rightarrow> 'x) \<Rightarrow> (u64 \<Rightarrow> u64 \<Rightarrow> u64 \<Rightarrow> 'x) \<Rightarrow> 'x" where
  "walk m r idx stop go = (case idx of (a, b, c, d) \<Rightarrow>
     if \<not> present (m r a) then stop 0
     else let pdp = m r a AND PointerMask
     in if \<not> present (m pdp b) then stop 1
     else let pd = m pdp b AND PointerMask
     in if \<not> present (m pd c) then stop 2
     else let pt = m pd c AND PointerMask
     in if \<not> present (m pt d) then stop 3
     else go pdp pd pt)"

lemma walk_spec:
  assumes tree: "ptree m r O'" and i: "a < 512" "b < 512" "c < 512" "d < 512"
    and h: "leaf_at m r ([] @ [a]) = None" "leaf_at m r ([a] @ [b]) = None" "leaf_at m r ([a, b] @ [c]) = None"
  obtains (stop) n where "leaf_at m r [a, b, c, d] = None" "\<And>(st :: nat \<Rightarrow> 'x) go. walk m r (a, b, c, d) st go = st n"
  | (go) pdp pd pt where "dir m r [a] = Some pdp" "dir m r [a, b] = Some pd" "dir m r [a, b, c] = Some pt"
      "present (m pt d)" "leaf_at m r [a, b, c, d] = Some (m pt d)" "\<And>(st :: nat \<Rightarrow> 'x) go. walk m r (a, b, c, d) st go = go pdp pd pt"
proof -
  note l = leaf_at_snoc [of m r "[a, b, c]" d, simplified]
  note u = dir_snoc [of m r "[a, b]" c, simplified] dir_snoc [of m r "[a]" b, simplified]
  note w1 = walk_step [OF tree dir_Nil _ i(1) h(1), simplified]
  show ?thesis
  proof (cases "present (m r a)")
    case False
    then show ?thesis using w1 by (intro stop) (simp_all add: l u walk_def)
  next
    case 1: True
    define pdp where "pdp = m r a AND PointerMask"
    have d1: "dir m r [a] = Some pdp" using w1(2) 1 by (simp add: pdp_def)
    note w2 = walk_step [OF tree d1 _ i(2) h(2), simplified]
    show ?thesis
    proof (cases "present (m pdp b)")
      case False
      then show ?thesis using w2 1 by (intro stop) (simp_all add: l u walk_def pdp_def)
    next
      case 2: True
      define pd where "pd = m pdp b AND PointerMask"
      have d2: "dir m r [a, b] = Some pd" using w2(2) 2 by (simp add: pd_def)
      note w3 = walk_step [OF tree d2 _ i(3) h(3), simplified]
      show ?thesis
      proof (cases "present (m pd c)")
        case False
        then show ?thesis using w3 1 2 by (intro stop) (simp_all add: l walk_def pdp_def pd_def)
      next
        case 3: True
        define pt where "pt = m pd c AND PointerMask"
        have d3: "dir m r [a, b, c] = Some pt" using w3(2) 3 by (simp add: pt_def)
        show ?thesis
        proof (cases "present (m pt d)")
          case False
          then show ?thesis using 1 2 3 d3 by (intro stop) (simp_all add: l walk_def pdp_def pd_def pt_def)
        next
          case True
          then show ?thesis using 1 2 3 d3 d2 d1 i(4)
            by (intro go [OF d1 d2 d3]) (simp_all add: l walk_def pdp_def pd_def pt_def Let_def)
        qed
      qed
    qed
  qed
qed

lemma GetPhysicalAddress_walk:
  assumes "ExtractPageTableIndices va = (a, b, c, d, off)"
  shows "GetPhysicalAddress r va s =
    walk (sys_mem s) r (a, b, c, d) (\<lambda>_. 0) (\<lambda>pdp pd pt. (sys_mem s pt d AND PointerMask) OR off)"
  using assms by (simp add: GetPhysicalAddress_def walk_def Let_def)

lemma GetPhysicalAddress_spec:
  assumes wf: "pt_wf s r" and nohuge: "\<not> covered_by_huge s r va"
  shows "GetPhysicalAddress r va s =
    (case mapping_of s r (page_path va) of None \<Rightarrow> 0 | Some e \<Rightarrow> (e AND PointerMask) OR (va AND 0xFFF))"
proof -
  obtain a b c d where i: "ExtractPageTableIndices va = (a, b, c, d, va AND 0xFFF)" "page_path va = [a, b, c, d]"
    "a < 512" "b < 512" "c < 512" "d < 512" by (rule indices)
  have tree: "ptree (sys_mem s) r (owned s)" using wf by (simp add: pt_wf_def)
  from tree i(3-6) covered_by_huge_prefix [OF nohuge i(2)] show ?thesis
    by (cases rule: walk_spec) (simp_all add: GetPhysicalAddress_walk [OF i(1)] i(2))
qed

definition unmap_tail :: "u64 \<Rightarrow> u64 \<Rightarrow> u64 \<Rightarrow> u64 \<Rightarrow> nat \<Rightarrow> nat \<Rightarrow> nat \<Rightarrow> nat \<Rightarrow> paging_sys \<Rightarrow> fault + paging_sys" where
  "unmap_tail r pdp pd pt a b c d s =
     (let s1 = s\<lparr>sys_mem := write_entry pt d 0 (sys_mem s)\<rparr>
      in if IsTableEmpty (sys_mem s1 pt)
         then bindR (drop_table pt pd c s1) (\<lambda>s2.
              if IsTableEmpty (sys_mem s2 pd)
              then bindR (drop_table pd pdp b s2) (\<lambda>s3.
                   if IsTableEmpty (sys_mem s3 pdp) \<and> a < 256 then drop_table pdp r a s3 else Inr s3)
              else Inr s2)
         else Inr s1)"

lemma UnmapPage_walk:
  assumes "ExtractPageTableIndices va = (a, b, c, d, off)"
  shows "\<exists>msg. UnmapPage r va s =
    walk (sys_mem s) r (a, b, c, d) (\<lambda>n. Inl (Panic (msg n))) (\<lambda>pdp pd pt. unmap_tail r pdp pd pt a b c d s)"
proof -
  let ?msg = "\<lambda>n. if n = 0 then ''Attempted to unmap a virtual address that is not mapped (PML4 entry not present)!''
    else if n = 1 then ''Attempted to unmap a virtual address that is not mapped (PDP entry not present)!''
    else if n = 2 then ''Attempted to unmap a virtual address that is not mapped (PD entry not present)!''
    else ''Attempted to unmap a virtual address that is not mapped (PT entry not present)!''"
  show ?thesis
    by (rule exI [of _ ?msg]) (use assms in \<open>simp add: UnmapPage_def walk_def unmap_tail_def Let_def\<close>)
qed

text \<open>
  No table other than a higher-half PDP is left without a present entry; \<open>X\<close> holds the paths of
  tables about to be looked at.
\<close>

definition no_empty_except :: "nat list set \<Rightarrow> paging_sys \<Rightarrow> u64 \<Rightarrow> bool" where
  "no_empty_except X s r \<longleftrightarrow>
     (\<forall>p t. tables s r p = Some t \<longrightarrow> IsTableEmpty (sys_mem s t) \<longrightarrow> p = [] \<or> p \<in> X \<or> length p = 1 \<and> hd p \<ge> 256)"

abbreviation no_empty_tables :: "paging_sys \<Rightarrow> u64 \<Rightarrow> bool" where
  "no_empty_tables \<equiv> no_empty_except {}"

lemma no_empty_write:
  assumes ne: "no_empty_except X s r" and wf: "pt_wf s r" and p: "tables s r p = Some t"
    and mem: "sys_mem s' = write_entry t i e (sys_mem s)" and sub: "tables s' r \<subseteq>\<^sub>m tables s r"
    and X: "\<And>x. x \<in> X \<Longrightarrow> tables s' r x = None"
  shows "no_empty_except {p} s' r"
  unfolding no_empty_except_def
proof (intro allI impI)
  have tree: "ptree (sys_mem s) r (owned s)" using wf by (simp add: pt_wf_def)
  fix q u assume q: "tables s' r q = Some u" "IsTableEmpty (sys_mem s' u)"
  then have old: "tables s r q = Some u" using sub by (auto simp: map_le_def dom_def)
  show "q = [] \<or> q \<in> {p} \<or> length q = 1 \<and> 256 \<le> hd q"
  proof (cases "q = p")
    case False
    then have "u \<noteq> t" using ptree_unique [OF tree p old] by simp
    then have "sys_mem s' u = sys_mem s u" by (auto simp: mem entry_simps)
    then show ?thesis using ne old q X [of q] unfolding no_empty_except_def by auto
  qed simp
qed

lemma no_empty_done:
  assumes "no_empty_except {p} s r" and "tables s r p = Some t" and "\<not> (IsTableEmpty (sys_mem s t) \<and> \<not> (length p = 1 \<and> hd p \<ge> 256))"
  shows "no_empty_tables s r"
  using assms unfolding no_empty_except_def by (metis insertE option.inject)

text \<open>What the tail of \<open>UnmapPage\<close> achieves, as a relation between the states before and after.\<close>

definition unmapped_to :: "u64 \<Rightarrow> nat list \<Rightarrow> paging_sys \<Rightarrow> paging_sys \<Rightarrow> bool" where
  "unmapped_to r path s s' \<longleftrightarrow>
     pt_wf s' r \<and> local_step r s s' \<and> mapping_of s' r = (mapping_of s r)(path := None) \<and>
     tables s' r \<subseteq>\<^sub>m tables s r \<and> (\<forall>i \<ge> 256. tables s' r [i] = tables s r [i])"

lemma unmapped_to_drop:
  assumes "unmapped_to r path s s1" and p: "tables s1 r p = Some t" "tables s1 r (p @ [i]) = Some f"
    and e: "IsTableEmpty (sys_mem s1 f)" and "p \<noteq> [] \<or> i < 256"
    and ne: "no_empty_tables s r \<Longrightarrow> no_empty_except {p @ [i]} s1 r"
  obtains s2 where "drop_table f t i s1 = Inr s2" "unmapped_to r path s s2" "tables s2 r = (tables s1 r)(p @ [i] := None)"
    "no_empty_tables s r \<Longrightarrow> no_empty_except {p} s2 r"
proof -
  have 1: "pt_wf s1 r" "local_step r s s1" "mapping_of s1 r = (mapping_of s r)(path := None)"
     "tables s1 r \<subseteq>\<^sub>m tables s r" "\<forall>i \<ge> 256. tables s1 r [i] = tables s r [i]"
    using assms(1) unfolding unmapped_to_def by blast+
  from drop_table_ok [OF 1(1) p e] obtain s2 where 2: "drop_table f t i s1 = Inr s2" "pt_wf s2 r" "local_step r s1 s2"
      "mapping_of s2 r = mapping_of s1 r" "tables s2 r = (tables s1 r)(p @ [i] := None)"
      "sys_mem s2 = write_entry t i 0 (sys_mem s1)" by blast
  have sub: "tables s2 r \<subseteq>\<^sub>m tables s1 r" using 2(5) by (auto simp: map_le_def)
  have "unmapped_to r path s s2"
    unfolding unmapped_to_def
    using 1 2(2,4) sub local_step_trans [OF 1(2) 2(3)] map_le_trans [OF sub 1(4)] assms(5) 2(5)
    by (auto simp: Cons_eq_append_conv)
  moreover have "no_empty_except {p} s2 r" if "no_empty_tables s r"
    by (rule no_empty_write [OF ne [OF that] 1(1) p(1) 2(6) sub]) (simp add: 2(5))
  ultimately show ?thesis using that 2(1,5) by blast
qed

lemma unmap_tail_ok:
  assumes wf: "pt_wf s r" and d: "tables s r [a] = Some pdp" "tables s r [a, b] = Some pd" "tables s r [a, b, c] = Some pt"
    and "dd < 512"
  obtains s' where "unmap_tail r pdp pd pt a b c dd s = Inr s'" "unmapped_to r [a, b, c, dd] s s'"
    "no_empty_tables s r \<Longrightarrow> no_empty_tables s' r"
proof -
  define s1 where "s1 = s\<lparr>sys_mem := write_entry pt dd 0 (sys_mem s)\<rparr>"
  have np: "\<not> present 0" by (simp add: present_def)
  note w = write_leaf_step [OF wf d(3) _ assms(5), of 0, folded s1_def]
  have 1: "unmapped_to r [a, b, c, dd] s s1" "tables s1 r = tables s r"
    using w np by (simp_all add: unmapped_to_def)
  have ne1: "no_empty_except {[a, b] @ [c]} s1 r" if "no_empty_tables s r"
    using no_empty_write [OF that wf d(3), of s1 dd 0] 1(2) by (simp add: s1_def)
  have tail: "unmap_tail r pdp pd pt a b c dd s =
      (if IsTableEmpty (sys_mem s1 pt)
         then bindR (drop_table pt pd c s1) (\<lambda>s2.
              if IsTableEmpty (sys_mem s2 pd)
              then bindR (drop_table pd pdp b s2) (\<lambda>s3.
                   if IsTableEmpty (sys_mem s3 pdp) \<and> a < 256 then drop_table pdp r a s3 else Inr s3)
              else Inr s2)
         else Inr s1)" by (simp add: unmap_tail_def s1_def)
  have t1: "tables s1 r [a, b] = Some pd" "tables s1 r ([a, b] @ [c]) = Some pt" using d 1(2) by simp_all
  show ?thesis
  proof (cases "IsTableEmpty (sys_mem s1 pt)")
    case False
    then show ?thesis using that [of s1] 1 tail no_empty_done [OF ne1 t1(2)] by simp
  next
    case e1: True
    obtain s2 where 2: "drop_table pt pd c s1 = Inr s2" "unmapped_to r [a, b, c, dd] s s2"
        "tables s2 r = (tables s1 r)([a, b] @ [c] := None)" "no_empty_tables s r \<Longrightarrow> no_empty_except {[a, b]} s2 r"
      using unmapped_to_drop [OF 1(1) t1 e1 _ ne1] by auto
    have t2: "tables s2 r [a] = Some pdp" "tables s2 r ([a] @ [b]) = Some pd" using d 1(2) 2(3) by simp_all
    have ne2: "no_empty_except {[a] @ [b]} s2 r" if "no_empty_tables s r" using 2(4) that by simp
    show ?thesis
    proof (cases "IsTableEmpty (sys_mem s2 pd)")
      case False
      then show ?thesis using that [of s2] 2 e1 tail no_empty_done [OF ne2 t2(2)] by simp
    next
      case e2: True
      obtain s3 where 3: "drop_table pd pdp b s2 = Inr s3" "unmapped_to r [a, b, c, dd] s s3"
          "tables s3 r = (tables s2 r)([a] @ [b] := None)" "no_empty_tables s r \<Longrightarrow> no_empty_except {[a]} s3 r"
        using unmapped_to_drop [OF 2(2) t2 e2 _ ne2] by auto
      have t3: "tables s3 r [] = Some r" "tables s3 r ([] @ [a]) = Some pdp" using d 1(2) 2(3) 3(3) by simp_all
      have ne3: "no_empty_except {[] @ [a]} s3 r" if "no_empty_tables s r" using 3(4) that by simp
      show ?thesis
      proof (cases "IsTableEmpty (sys_mem s3 pdp) \<and> a < 256")
        case False
        then show ?thesis using that [of s3] 2 3 e1 e2 tail no_empty_done [OF ne3 t3(2)] by auto
      next
        case e3: True
        then obtain s4 where 4: "drop_table pdp r a s3 = Inr s4" "unmapped_to r [a, b, c, dd] s s4"
            "no_empty_tables s r \<Longrightarrow> no_empty_except {[]} s4 r"
          using unmapped_to_drop [OF 3(2) t3 _ _ ne3] by auto
        have "no_empty_tables s4 r" if "no_empty_tables s r"
          using 4(3) [OF that] by (auto simp: no_empty_except_def)
        then show ?thesis using that [of s4] 2 3 4 e1 e2 e3 tail by simp
      qed
    qed
  qed
qed

lemma UnmapPage_cases:
  assumes wf: "pt_wf s r" and nohuge: "\<not> covered_by_huge s r va"
  obtains (unmapped) "mapping_of s r (page_path va) = None" "\<exists>msg. UnmapPage r va s = Inl (Panic msg)"
  | (ok) s' where "UnmapPage r va s = Inr s'" "mapping_of s r (page_path va) \<noteq> None" "unmapped_to r (page_path va) s s'"
      "no_empty_tables s r \<Longrightarrow> no_empty_tables s' r"
proof -
  obtain a b c d where i: "ExtractPageTableIndices va = (a, b, c, d, va AND 0xFFF)" "page_path va = [a, b, c, d]"
    "a < 512" "b < 512" "c < 512" "d < 512" by (rule indices)
  have tree: "ptree (sys_mem s) r (owned s)" using wf by (simp add: pt_wf_def)
  obtain msg where un: "UnmapPage r va s =
    walk (sys_mem s) r (a, b, c, d) (\<lambda>n. Inl (Panic (msg n))) (\<lambda>pdp pd pt. unmap_tail r pdp pd pt a b c d s)"
    using UnmapPage_walk [OF i(1)] by blast
  from tree i(3-6) covered_by_huge_prefix [OF nohuge i(2)] show ?thesis
  proof (cases rule: walk_spec [where ?'x = "fault + paging_sys"])
    case (stop n)
    then show ?thesis using unmapped un i(2) by simp
  next
    case (go pdp pd pt)
    obtain s' where s': "unmap_tail r pdp pd pt a b c d s = Inr s'" "unmapped_to r [a, b, c, d] s s'"
      "no_empty_tables s r \<Longrightarrow> no_empty_tables s' r" using unmap_tail_ok [OF wf go(1-3) i(6)] by auto
    then show ?thesis using ok [of s'] go(5,6) un i(2) by simp
  qed
qed

end
