(* ===== verification/Boot_Paging.thy ===== *)
theory Boot_Paging
  imports Paging_Theorems
begin

text \<open>
  Taking over the boot loader's page tables (\<^verbatim>\<open>Paging::Initialize\<close>, \<^verbatim>\<open>CopyExistingPageTableToNew\<close>, \<^verbatim>\<open>DeepCopyPageTables\<close>
  and \<^verbatim>\<open>ReserveHigherHalfPML4Slots\<close> in \<^verbatim>\<open>Memory/Paging.cpp\<close>): the kernel's own tables translate every address as the boot loader's do.

  The boot loader's tables need not form a tree; they only have to lie outside the frames that the memory manager can hand out.
\<close>

unbundle bit_operations_syntax

section \<open>Translation by the processor\<close>

text \<open>
  A walk of the processor from a table of level \<open>n\<close> (4 for the PML4, 1 for a PT): the flags of the directory entries
  on the way and the entry that maps memory, which is in a PT or has the huge page bit on level 3 or 2.
\<close>

definition is_leaf :: "nat \<Rightarrow> u64 \<Rightarrow> bool" where
  "is_leaf n e \<longleftrightarrow> n = 1 \<or> (n = 2 \<or> n = 3) \<and> huge e"

fun hw_walk :: "nat \<Rightarrow> table_mem \<Rightarrow> u64 \<Rightarrow> nat list \<Rightarrow> (u64 list \<times> u64) option" where
  "hw_walk (Suc n) m t (i # is) =
     (if i \<ge> 512 \<or> \<not> present (m t i) then None
      else if is_leaf (Suc n) (m t i) then Some ([], m t i)
      else map_option (\<lambda>(flags, leaf). ((m t i AND FlagsMask) # flags, leaf)) (hw_walk n m (m t i AND PointerMask) is))"
| "hw_walk _ _ _ _ = None"

text \<open>All tables such a walk can visit lie in \<open>S\<close>.\<close>

fun tables_in :: "nat \<Rightarrow> table_mem \<Rightarrow> u64 \<Rightarrow> u64 set \<Rightarrow> bool" where
  "tables_in 0 m t S \<longleftrightarrow> True"
| "tables_in (Suc n) m t S \<longleftrightarrow> t \<in> S \<and>
     (\<forall>i < 512. present (m t i) \<longrightarrow> \<not> is_leaf (Suc n) (m t i) \<longrightarrow> tables_in n m (m t i AND PointerMask) S)"

text \<open>The number of tables below a table, with multiplicity: the frames a copy needs.\<close>

fun need :: "nat \<Rightarrow> table_mem \<Rightarrow> u64 \<Rightarrow> nat" where
  "need 0 m t = 0"
| "need (Suc n) m t = sum_list (map (\<lambda>i. if present (m t i) \<and> \<not> is_leaf (Suc n) (m t i)
      then Suc (need n m (m t i AND PointerMask)) else 0) [0..<512])"

definition need_slot :: "nat \<Rightarrow> table_mem \<Rightarrow> u64 \<Rightarrow> nat \<Rightarrow> nat" where
  "need_slot n m t i = (if present (m t i) \<and> \<not> is_leaf (Suc n) (m t i) then Suc (need n m (m t i AND PointerMask)) else 0)"

lemma need_Suc: "need (Suc n) m t = sum_list (map (need_slot n m t) [0..<512])"
  by (simp add: need_slot_def [abs_def])

declare need.simps(2) [simp del]

text \<open>Walks, reach and cost depend on the tables in \<open>S\<close> only.\<close>

lemma walk_cong:
  assumes "tables_in n m t S" and "\<And>b. b \<in> S \<Longrightarrow> m' b = m b"
  shows "(\<forall>p. hw_walk n m' t p = hw_walk n m t p) \<and> tables_in n m' t S \<and> need n m' t = need n m t"
  using assms(1)
proof (induction n arbitrary: t)
  case (Suc n)
  have t: "m' t = m t" using Suc.prems assms(2) by simp
  have sub: "tables_in n m (m t i AND PointerMask) S" if "i < 512" "present (m t i)" "\<not> is_leaf (Suc n) (m t i)" for i
    using Suc.prems that by simp
  have "hw_walk (Suc n) m' t p = hw_walk (Suc n) m t p" for p using Suc.IH [OF sub] t by (cases p) auto
  moreover have "tables_in (Suc n) m' t S" using Suc.IH [OF sub] Suc.prems t by simp
  moreover have "need_slot n m' t i = need_slot n m t i" if "i < 512" for i using Suc.IH [OF sub] that t by (simp add: need_slot_def)
  then have "need (Suc n) m' t = need (Suc n) m t" unfolding need_Suc by (intro arg_cong [of _ _ sum_list] map_cong refl) simp
  ultimately show ?case by blast
qed simp

lemma tables_in_mono: "tables_in n m t S \<Longrightarrow> S \<subseteq> S' \<Longrightarrow> tables_in n m t S'"
  by (induction n arbitrary: t) auto

text \<open>
  The tables below \<open>t\<close> form a tree inside \<open>C\<close>: different slots lead to disjoint sets of tables, and every entry is zero or present.
\<close>

fun tree :: "nat \<Rightarrow> table_mem \<Rightarrow> u64 \<Rightarrow> u64 set \<Rightarrow> bool" where
  "tree 0 m t C \<longleftrightarrow> True"
| "tree (Suc n) m t C \<longleftrightarrow> (\<exists>D. (\<forall>i. D i \<subseteq> C) \<and> (\<forall>i j. i \<noteq> j \<longrightarrow> D i \<inter> D j = {}) \<and>
     (\<forall>i < 512. (m t i = 0 \<or> present (m t i)) \<and>
        (present (m t i) \<and> \<not> is_leaf (Suc n) (m t i) \<longrightarrow>
           (m t i AND PointerMask) \<in> D i \<and> tree n m (m t i AND PointerMask) (D i - {m t i AND PointerMask}))))"

declare tree.simps(2) [simp del]

lemma tree_SucI:
  assumes "\<And>i. D i \<subseteq> C" and "\<And>i j. i \<noteq> j \<Longrightarrow> D i \<inter> D j = {}" and "\<And>i. i < 512 \<Longrightarrow> m t i = 0 \<or> present (m t i)"
    and "\<And>i. i < 512 \<Longrightarrow> present (m t i) \<Longrightarrow> \<not> is_leaf (Suc n) (m t i) \<Longrightarrow>
      (m t i AND PointerMask) \<in> D i \<and> tree n m (m t i AND PointerMask) (D i - {m t i AND PointerMask})"
  shows "tree (Suc n) m t C"
  unfolding tree.simps using assms by (intro exI [of _ D] conjI allI impI) blast+

definition branches :: "nat \<Rightarrow> table_mem \<Rightarrow> u64 \<Rightarrow> u64 set \<Rightarrow> (nat \<Rightarrow> u64 set) \<Rightarrow> bool" where
  "branches n m t C D \<longleftrightarrow> (\<forall>i. D i \<subseteq> C) \<and> (\<forall>i j. i \<noteq> j \<longrightarrow> D i \<inter> D j = {}) \<and>
     (\<forall>i < 512. (m t i = 0 \<or> present (m t i)) \<and>
        (present (m t i) \<and> \<not> is_leaf (Suc n) (m t i) \<longrightarrow>
           (m t i AND PointerMask) \<in> D i \<and> tree n m (m t i AND PointerMask) (D i - {m t i AND PointerMask})))"

lemma tree_SucE:
  assumes "tree (Suc n) m t C"
  obtains D where "branches n m t C D"
  using assms unfolding tree.simps branches_def by blast

lemma branchesD:
  assumes "branches n m t C D"
  shows "D i \<subseteq> C" "i \<noteq> j \<Longrightarrow> D i \<inter> D j = {}" "i < 512 \<Longrightarrow> m t i = 0 \<or> present (m t i)"
    "i < 512 \<Longrightarrow> present (m t i) \<Longrightarrow> \<not> is_leaf (Suc n) (m t i) \<Longrightarrow>
      (m t i AND PointerMask) \<in> D i \<and> tree n m (m t i AND PointerMask) (D i - {m t i AND PointerMask})"
  using assms unfolding branches_def by blast+

lemma tree_mono:
  assumes "tree n m t C" and "C \<subseteq> C'"
  shows "tree n m t C'"
proof (cases n)
  case (Suc k)
  have t: "tree (Suc k) m t C" using assms(1) Suc by simp
  from tree_SucE [OF t] obtain D where "branches k m t C D" .
  note D = branchesD [OF this]
  show ?thesis unfolding Suc by (intro tree_SucI [of D]) (use D assms(2) in blast)+
qed simp

lemma tree_cong:
  assumes "tree n m t C" and "\<And>b. b \<in> insert t C \<Longrightarrow> m' b = m b"
  shows "tree n m' t C"
  using assms
proof (induction n arbitrary: t C)
  case (Suc n)
  from tree_SucE [OF Suc.prems(1)] obtain D where "branches n m t C D" .
  note D = branchesD [OF this]
  have t: "m' t = m t" using Suc.prems(2) by simp
  have "tree n m' b (D i - {b})" if "b \<in> D i" "tree n m b (D i - {b})" for b i
    by (rule Suc.IH [OF that(2)]) (use that(1) D(1) Suc.prems(2) in blast)
  then show ?case by (intro tree_SucI [of D]) (use D t in auto)
qed simp

lemma tree_tables_in:
  assumes "tree n m t C"
  shows "tables_in n m t (insert t C)"
  using assms
proof (induction n arbitrary: t C)
  case (Suc n)
  from tree_SucE [OF Suc.prems] obtain D where "branches n m t C D" .
  note D = branchesD [OF this]
  have "tables_in n m (m t i AND PointerMask) (insert t C)" if "i < 512" "present (m t i)" "\<not> is_leaf (Suc n) (m t i)" for i
    using tables_in_mono [OF Suc.IH, of "m t i AND PointerMask" "D i - {m t i AND PointerMask}" "insert t C"] D(1) [of i] D(4) [OF that] by blast
  then show ?case by simp
qed simp

text \<open>Such a tree is one in the sense of the theory \<open>Page_Tables\<close>.\<close>

lemma tree_paths:
  assumes "tree n m t C" and "t \<notin> C" and "table_at m t p = Some b" and "length p < n" and "set p \<subseteq> {..<512}"
  shows "b \<in> insert t C \<and> (p \<noteq> [] \<longrightarrow> b \<in> C) \<and> (\<forall>i < 512. m b i = 0 \<or> present (m b i)) \<and>
    (\<forall>q. table_at m t q = Some b \<and> length q < n \<and> set q \<subseteq> {..<512} \<longrightarrow> q = p)"
  using assms
proof (induction n arbitrary: t C p b)
  case (Suc n)
  from tree_SucE [OF Suc.prems(1)] obtain D where "branches n m t C D" .
  note D = branchesD [OF this]
  have step: "i < 512 \<and> set q \<subseteq> {..<512} \<and> x \<in> D i \<and> (\<forall>k < 512. m x k = 0 \<or> present (m x k)) \<and>
      (\<forall>q'. table_at m t (i # q') = Some x \<and> length (i # q') < Suc n \<and> set q' \<subseteq> {..<512} \<longrightarrow> q' = q)"
    if q: "table_at m t (i # q) = Some x" "length (i # q) < Suc n" "set (i # q) \<subseteq> {..<512}" for i q x
  proof -
    let ?b = "m t i AND PointerMask"
    have e: "m t i \<noteq> 0" "\<not> huge (m t i)" "table_at m ?b q = Some x" "i < 512" "1 < Suc n" using q by (auto split: if_splits)
    then have "present (m t i)" "\<not> is_leaf (Suc n) (m t i)" using D(3) by (auto simp: is_leaf_def)
    from D(4) [OF e(4) this] have b: "?b \<in> D i" "tree n m ?b (D i - {?b})" by blast+
    have "?b \<notin> D i - {?b}" "length q < n" "set q \<subseteq> {..<512}" using q by simp_all
    note ih = Suc.IH [OF b(2) this(1) e(3) this(2,3)]
    have "x \<in> D i" "\<forall>k < 512. m x k = 0 \<or> present (m x k)" using ih b(1) by blast+
    moreover have "q' = q" if "table_at m t (i # q') = Some x" "length (i # q') < Suc n" "set q' \<subseteq> {..<512}" for q'
      using ih that e(1,2) by simp
    ultimately show ?thesis using e(4) q(3) by simp
  qed
  show ?case
  proof (cases p)
    case Nil
    then have "b = t" using Suc.prems(3) by simp
    have "q = []" if "table_at m t q = Some t" "length q < Suc n" "set q \<subseteq> {..<512}" for q
      using that step [of "hd q" "tl q" t] D(1) [of "hd q"] Suc.prems(2) by (cases q) auto
    then show ?thesis using Nil \<open>b = t\<close> D(3) by auto
  next
    case (Cons i p')
    note s = step [of i p' b, folded Cons, OF Suc.prems(3-5)]
    have "b \<in> C" "b \<noteq> t" using s D(1) [of i] Suc.prems(2) by auto
    have "q = p" if "table_at m t q = Some b" "length q < Suc n" "set q \<subseteq> {..<512}" for q
    proof (cases q)
      case Nil
      then show ?thesis using that \<open>b \<noteq> t\<close> by simp
    next
      case q: (Cons j q')
      then have "b \<in> D j" using step [of j q' b] that by simp
      then have "j = i" using s D(2) by blast
      then show ?thesis using s that q Cons by auto
    qed
    then show ?thesis using \<open>b \<in> C\<close> s by blast
  qed
qed simp

lemma tree_ptree:
  assumes "tree 4 m r C" and "r \<notin> C"
  shows "ptree m r (insert r C)"
proof -
  have d: "b \<in> insert r C \<and> (\<forall>i < 512. m b i = 0 \<or> present (m b i)) \<and> (\<forall>q. dir m r q = Some b \<longrightarrow> q = p)" if "dir m r p = Some b" for p b
    using tree_paths [OF assms, of p b] that by (auto simp: dir_def split: if_splits)
  show ?thesis unfolding ptree_def by (intro conjI allI impI subsetI) (use d in \<open>auto simp: ran_def\<close>)
qed

section \<open>Copying one slot\<close>

text \<open>The addresses of the frames that can be handed out.\<close>

definition pool :: "paging_sys \<Rightarrow> u64 set" where
  "pool s = (\<lambda>f. of_nat f * PageSize) ` free_set (sys_pmm s)"

text \<open>Slot \<open>i\<close> of the copy \<open>dst\<close> is like the slot of the source; the tables below lie in \<open>C\<close>.\<close>

definition slot_ok :: "nat \<Rightarrow> table_mem \<Rightarrow> u64 \<Rightarrow> table_mem \<Rightarrow> u64 \<Rightarrow> u64 set \<Rightarrow> nat \<Rightarrow> bool" where
  "slot_ok n m src m' dst C i \<longleftrightarrow>
     (let e = m src i; e' = m' dst i
      in if \<not> present e then e' = 0
         else if is_leaf (Suc n) e then e' = e
         else present e' \<and> \<not> is_leaf (Suc n) e' \<and> e' AND FlagsMask = e AND FlagsMask \<and>
              (e' AND PointerMask) \<in> C \<and> tree n m' (e' AND PointerMask) (C - {e' AND PointerMask}) \<and>
              (\<forall>p. hw_walk n m' (e' AND PointerMask) p = hw_walk n m (e AND PointerMask) p))"

text \<open>From \<open>s\<close> to \<open>s'\<close> only \<open>dst\<close> and frames of the pool have been written, and \<open>k\<close> frames were taken.\<close>

definition copy_step :: "u64 \<Rightarrow> nat \<Rightarrow> paging_sys \<Rightarrow> paging_sys \<Rightarrow> bool" where
  "copy_step dst k s s' \<longleftrightarrow> pmm_wf (sys_pmm s') \<and> pool s' \<subseteq> pool s \<and>
     card (free_set (sys_pmm s)) = card (free_set (sys_pmm s')) + k \<and>
     (\<forall>b. b \<notin> insert dst (pool s - pool s') \<longrightarrow> sys_mem s' b = sys_mem s b) \<and>
     owned s \<union> (pool s - pool s') \<subseteq> owned s' \<and>
     sys_cr3 s' = sys_cr3 s \<and> sys_kernelState s' = sys_kernelState s \<and> sys_pageState s' = sys_pageState s"

lemma copy_stepD:
  assumes "copy_step dst k s s'"
  shows "pmm_wf (sys_pmm s')" "pool s' \<subseteq> pool s" "card (free_set (sys_pmm s)) = card (free_set (sys_pmm s')) + k"
    "b \<notin> insert dst (pool s - pool s') \<Longrightarrow> sys_mem s' b = sys_mem s b"
    "sys_cr3 s' = sys_cr3 s" "sys_kernelState s' = sys_kernelState s" "sys_pageState s' = sys_pageState s"
    "owned s \<union> (pool s - pool s') \<subseteq> owned s'"
  using assms unfolding copy_step_def by blast+

lemma copy_step_refl: "pmm_wf (sys_pmm s) \<Longrightarrow> copy_step dst 0 s s"
  by (simp add: copy_step_def)

lemma copy_step_trans:
  assumes "copy_step dst k s t" and "copy_step dst l t u"
  shows "copy_step dst (k + l) s u"
proof -
  have "sys_mem u b = sys_mem s b" if "b \<notin> insert dst (pool s - pool u)" for b
  proof -
    have "b \<notin> insert dst (pool s - pool t)" "b \<notin> insert dst (pool t - pool u)"
      using that copy_stepD(2) [OF assms(1)] copy_stepD(2) [OF assms(2)] by auto
    then show ?thesis using copy_stepD(4) [OF assms(1)] copy_stepD(4) [OF assms(2)] by simp
  qed
  moreover have "owned s \<union> (pool s - pool u) \<subseteq> owned u" using copy_stepD(8) [OF assms(1)] copy_stepD(8) [OF assms(2)] by blast
  ultimately show ?thesis using copy_stepD(1-3,5-7) [OF assms(1)] copy_stepD(1-3,5-7) [OF assms(2)] unfolding copy_step_def by auto
qed

text \<open>An entry of the copy: the flags of the source with the address of the new frame.\<close>

lemma copy_entry:
  fixes e :: u64
  assumes "f < 2 ^ 40"
  defines "e' \<equiv> (of_nat f * PageSize) OR (e AND FlagsMask)"
  shows "e' AND PointerMask = of_nat f * PageSize" and "e' AND FlagsMask = e AND FlagsMask"
    and "present e' \<longleftrightarrow> present e" and "is_leaf n e' \<longleftrightarrow> is_leaf n e"
proof -
  note b = frame_addr_bit [OF assms(1)]
  have bits: "bit e' k = (if 12 \<le> k \<and> k < 52 then bit (of_nat f * PageSize) k else bit e k)" if "k < 64" for k
    using that b [of k] by (auto simp: e'_def FlagsMask_not PointerMask_bit bit_simps)
  show "e' AND PointerMask = of_nat f * PageSize" by (rule bit_word_eqI) (use bits b in \<open>auto simp: bit_and_iff PointerMask_bit\<close>)
  show "e' AND FlagsMask = e AND FlagsMask" by (rule bit_word_eqI) (use bits in \<open>auto simp: bit_simps FlagsMask_not PointerMask_bit\<close>)
  show "present e' \<longleftrightarrow> present e" "is_leaf n e' \<longleftrightarrow> is_leaf n e"
    using bits by (simp_all add: present_bit is_leaf_def huge_bit)
qed

lemma slot_ok_cong:
  assumes "slot_ok n m src m1 dst C i" and "m2 dst i = m1 dst i" and "\<And>b. b \<in> C \<Longrightarrow> m2 b = m1 b"
  shows "slot_ok n m src m2 dst C i"
proof -
  have "tree n m2 t (C - {t}) \<and> (\<forall>p. hw_walk n m2 t p = hw_walk n m1 t p)" if "t \<in> C" "tree n m1 t (C - {t})" for t
    using tree_cong [OF that(2), of m2] walk_cong [OF tree_tables_in [OF that(2)], of m2] assms(3) that(1) by auto
  then show ?thesis using assms(1,2) unfolding slot_ok_def Let_def by auto
qed

section \<open>Copying a table\<close>

text \<open>Every entry of the copy that is not zero has the flags of the source.\<close>

definition flags_from :: "table_mem \<Rightarrow> u64 \<Rightarrow> table_mem \<Rightarrow> u64 \<Rightarrow> bool" where
  "flags_from m src m' dst \<longleftrightarrow> (\<forall>i < 512. m' dst i \<noteq> 0 \<longrightarrow> m' dst i AND FlagsMask = m src i AND FlagsMask)"

definition copied :: "nat \<Rightarrow> u64 \<Rightarrow> u64 \<Rightarrow> paging_sys \<Rightarrow> paging_sys \<Rightarrow> bool" where
  "copied n src dst s s' \<longleftrightarrow> copy_step dst (need n (sys_mem s) src) s s' \<and>
     tree n (sys_mem s') dst (pool s - pool s') \<and> (\<forall>p. hw_walk n (sys_mem s') dst p = hw_walk n (sys_mem s) src p) \<and>
     flags_from (sys_mem s) src (sys_mem s') dst"

text \<open>A table is copied when each turn of the loop over its slots copies the slot.\<close>

definition copies_slot :: "nat \<Rightarrow> u64 \<Rightarrow> u64 \<Rightarrow> table_mem \<Rightarrow> nat \<Rightarrow> paging_sys \<Rightarrow> paging_sys \<Rightarrow> bool" where
  "copies_slot n src dst m i t t' \<longleftrightarrow> copy_step dst (need_slot n m src i) t t' \<and>
     (\<forall>j. j \<noteq> i \<longrightarrow> sys_mem t' dst j = sys_mem t dst j) \<and> slot_ok n m src (sys_mem t') dst (pool t - pool t') i"

lemma slots_copied:
  assumes slots: "\<And>i. i < 512 \<Longrightarrow> slot_ok n m src m' dst (D i) i" and "\<And>i. D i \<subseteq> C" and "\<And>i j. i \<noteq> j \<Longrightarrow> D i \<inter> D j = {}"
  shows "tree (Suc n) m' dst C \<and> (\<forall>p. hw_walk (Suc n) m' dst p = hw_walk (Suc n) m src p) \<and> flags_from m src m' dst"
proof -
  have "(m' dst i = 0 \<or> present (m' dst i)) \<and> (present (m' dst i) \<and> \<not> is_leaf (Suc n) (m' dst i) \<longrightarrow>
      (m' dst i AND PointerMask) \<in> D i \<and> tree n m' (m' dst i AND PointerMask) (D i - {m' dst i AND PointerMask}))" if "i < 512" for i
    using slots [OF that] by (auto simp: slot_ok_def Let_def present_bit split: if_splits)
  then have "tree (Suc n) m' dst C" using assms(2,3) by (intro tree_SucI [of D]) blast+
  moreover have "hw_walk (Suc n) m' dst p = hw_walk (Suc n) m src p" for p
  proof (cases p)
    case (Cons i ps)
    then show ?thesis using slots [of i] by (cases "i < 512") (auto simp: slot_ok_def Let_def present_bit split: if_splits)
  qed simp
  moreover have "m' dst i \<noteq> 0 \<longrightarrow> m' dst i AND FlagsMask = m src i AND FlagsMask" if "i < 512" for i
    using slots [OF that] by (auto simp: slot_ok_def Let_def split: if_splits)
  ultimately show ?thesis by (auto simp: flags_from_def)
qed

lemma fill_slots:
  assumes wf: "pmm_wf (sys_pmm s)" and clear: "\<And>i. i < 512 \<Longrightarrow> sys_mem s dst i = 0" and dst: "dst \<notin> pool s"
    and enough: "need (Suc n) (sys_mem s) src \<le> card (free_set (sys_pmm s))"
    and turn: "\<And>i k t. i < 512 \<Longrightarrow> copy_step dst k s t \<Longrightarrow> sys_mem t dst i = 0 \<Longrightarrow>
        need_slot n (sys_mem s) src i \<le> card (free_set (sys_pmm t)) \<Longrightarrow> \<exists>t'. g i t = Inr t' \<and> copies_slot n src dst (sys_mem s) i t t'"
  shows "\<exists>s'. foldR g [0..<512] s = Inr s' \<and> copied (Suc n) src dst s s'"
proof -
  let ?c = "\<lambda>xs. sum_list (map (need_slot n (sys_mem s) src) xs)"
  let ?Q = "\<lambda>xs t D. (\<forall>i \<in> set xs. slot_ok n (sys_mem s) src (sys_mem t) dst (D i) i) \<and> (\<forall>i. D i \<subseteq> pool s - pool t) \<and> (\<forall>i j. i \<noteq> j \<longrightarrow> D i \<inter> D j = {})"
  let ?P = "\<lambda>xs t. copy_step dst (?c xs) s t \<and> (\<exists>D. ?Q xs t D) \<and> (\<forall>i < 512. i \<notin> set xs \<longrightarrow> sys_mem t dst i = 0)"
  have "\<exists>s'. foldR g [0..<512] s = Inr s' \<and> ?P [0..<512] s'"
  proof (rule foldR_invariant [where P = ?P])
    show "?P [] s" using wf clear copy_step_refl by (auto intro!: exI [of _ "\<lambda>_. {}"])
    fix xs i ys t assume zs: "[0..<512] = xs @ i # ys" and P: "?P xs t"
    then obtain D where D: "\<And>j. j \<in> set xs \<Longrightarrow> slot_ok n (sys_mem s) src (sys_mem t) dst (D j) j" "\<And>j. D j \<subseteq> pool s - pool t"
      "\<And>j k. j \<noteq> k \<Longrightarrow> D j \<inter> D k = {}" by auto
    have "distinct (xs @ i # ys)" unfolding zs [symmetric] by (rule distinct_upt)
    then have i: "i \<notin> set xs" by simp
    have "i \<in> set [0..<512]" unfolding zs by simp
    then have i512: "i < 512" unfolding set_upt by simp
    have "?c xs + need_slot n (sys_mem s) src i \<le> need (Suc n) (sys_mem s) src" unfolding need_Suc zs by simp
    then have avail: "need_slot n (sys_mem s) src i \<le> card (free_set (sys_pmm t))" using enough copy_stepD(3) [of dst "?c xs" s t] P by linarith
    have st: "copy_step dst (?c xs) s t" "sys_mem t dst i = 0" using P i i512 by blast+
    from turn [OF i512 st avail] obtain t' where t': "g i t = Inr t'" "copies_slot n src dst (sys_mem s) i t t'" by blast
    then have step: "copy_step dst (need_slot n (sys_mem s) src i) t t'" and same: "\<And>j. j \<noteq> i \<Longrightarrow> sys_mem t' dst j = sys_mem t dst j"
      and new: "slot_ok n (sys_mem s) src (sys_mem t') dst (pool t - pool t') i" by (auto simp: copies_slot_def)
    have sub: "pool t' \<subseteq> pool t" "pool t \<subseteq> pool s" using copy_stepD(2) step P by blast+
    have old: "slot_ok n (sys_mem s) src (sys_mem t') dst (D j) j" if "j \<in> set xs" for j
    proof (rule slot_ok_cong [OF D(1) [OF that]])
      have "j \<noteq> i" using that i by blast
      then show "sys_mem t' dst j = sys_mem t dst j" by (rule same)
      show "sys_mem t' b = sys_mem t b" if "b \<in> D j" for b using copy_stepD(4) [OF step, of b] D(2) [of j] that dst by auto
    qed
    let ?D = "D(i := pool t - pool t')"
    have "?Q (xs @ [i]) t' ?D"
    proof (intro conjI allI impI ballI)
      show "slot_ok n (sys_mem s) src (sys_mem t') dst (?D j) j" if "j \<in> set (xs @ [i])" for j using that old new i by auto
      show "?D j \<subseteq> pool s - pool t'" for j using D(2) [of j] sub by auto
      show "?D j \<inter> ?D k = {}" if "j \<noteq> k" for j k using that D(3) [OF that] D(2) [of j] D(2) [of k] by auto
    qed
    moreover have "copy_step dst (?c (xs @ [i])) s t'" using copy_step_trans [of dst "?c xs" s t, OF _ step] P by simp
    moreover have "\<forall>k < 512. k \<notin> set (xs @ [i]) \<longrightarrow> sys_mem t' dst k = 0" using same P by simp
    ultimately have "?P (xs @ [i]) t'" by blast
    then show "\<exists>t'. g i t = Inr t' \<and> ?P (xs @ [i]) t'" using t'(1) by blast
  qed
  then obtain s' D where s': "foldR g [0..<512] s = Inr s'" "copy_step dst (?c [0..<512]) s s'" "?Q [0..<512] s' D" by blast
  have "slot_ok n (sys_mem s) src (sys_mem s') dst (D i) i" if "i < 512" for i using s'(3) that unfolding set_upt by simp
  from slots_copied [OF this, of "pool s - pool s'"] s' show ?thesis unfolding copied_def need_Suc by blast
qed

text \<open>
  A directory slot: a new frame is taken, a copy of the subtable is made there, and the slot gets the new address. The slot may be written
  before the copy (into a cleared frame) or after it.
\<close>

lemma directory_slot_copied:
  assumes i: "need_slot n (sys_mem s) src i = Suc (need n (sys_mem s) (e AND PointerMask))" "e = sys_mem s src i" "present e" "\<not> is_leaf (Suc n) e"
    and f: "f < 2 ^ 40" "new = of_nat f * PageSize" "new \<in> pool t" "pool u = pool t - {new}" "card (free_set (sys_pmm t)) = Suc (card (free_set (sys_pmm u)))"
    and src: "tables_in n (sys_mem s) (e AND PointerMask) S" "\<And>b. b \<in> S \<Longrightarrow> sys_mem u b = sys_mem s b" and dst: "dst \<notin> pool t"
    and u: "\<And>b. b \<noteq> dst \<Longrightarrow> b \<noteq> new \<Longrightarrow> sys_mem u b = sys_mem t b"
      "sys_cr3 u = sys_cr3 t" "sys_kernelState u = sys_kernelState t" "sys_pageState u = sys_pageState t" "owned u = insert new (owned t)"
    and v: "copied n (e AND PointerMask) new u v"
    and w: "sys_pmm w = sys_pmm v" "\<And>b. b \<noteq> dst \<Longrightarrow> sys_mem w b = sys_mem v b" "\<And>j. j \<noteq> i \<Longrightarrow> sys_mem w dst j = sys_mem t dst j"
      "sys_mem w dst i = new OR (e AND FlagsMask)" "sys_cr3 w = sys_cr3 v" "sys_kernelState w = sys_kernelState v" "sys_pageState w = sys_pageState v"
  shows "copies_slot n src dst (sys_mem s) i t w"
proof -
  have cs: "copy_step new (need n (sys_mem u) (e AND PointerMask)) u v" and tree: "tree n (sys_mem v) new (pool u - pool v)"
    and walk: "\<And>p. hw_walk n (sys_mem v) new p = hw_walk n (sys_mem u) (e AND PointerMask) p"
    using v by (auto simp: copied_def)
  note csD = copy_stepD [OF cs]
  have pw: "pool w = pool v" "owned w = owned v" using w(1) by (simp_all add: pool_def owned_def)
  have sub: "insert new (pool u - pool v) \<subseteq> pool t - pool w" using f(3,4) csD(2) pw by auto
  have mem: "sys_mem w b = sys_mem t b" if "b \<notin> insert dst (pool t - pool w)" for b
    using that w(2) [of b] u(1) [of b] csD(4) [of b] f(3,4) csD(2) pw by auto
  have own: "owned t \<union> (pool t - pool w) \<subseteq> owned w" using csD(8) u(5) f(4) pw by auto
  note src' = walk_cong [OF src]
  have "copy_step dst (need_slot n (sys_mem s) src i) t w"
    unfolding copy_step_def i(1) using csD(1-3,5-7) f(4,5) pw u(2-4) w(1,5-7) mem own src' by auto
  moreover have "slot_ok n (sys_mem s) src (sys_mem w) dst (pool t - pool w) i"
  proof -
    have same: "sys_mem w b = sys_mem v b" if "b \<in> insert new (pool u - pool v)" for b using w(2) [of b] that sub dst by auto
    have "pool u - pool v \<subseteq> pool t - pool w - {new}" using sub f(4) by auto
    from tree_mono [OF tree_cong [OF tree same] this] have "tree n (sys_mem w) new (pool t - pool w - {new})" .
    moreover have "hw_walk n (sys_mem w) new p = hw_walk n (sys_mem s) (e AND PointerMask) p" for p
      using walk_cong [OF tree_tables_in [OF tree] same] walk src' by simp
    moreover have "new \<in> pool t - pool w" using sub by blast
    ultimately show ?thesis using copy_entry [OF f(1), where e = e] i(2-4) w(4) f(2) by (auto simp: slot_ok_def Let_def)
  qed
  ultimately show ?thesis using w(3) by (simp add: copies_slot_def)
qed

lemma leaf_slot_copied:
  assumes "present (sys_mem s src i)" and "is_leaf (Suc n) (sys_mem s src i)" and "pmm_wf (sys_pmm t)"
  shows "copies_slot n src dst (sys_mem s) i t (t\<lparr>sys_mem := write_entry dst i (sys_mem s src i) (sys_mem t)\<rparr>)"
  using assms by (auto simp: copies_slot_def copy_step_def need_slot_def slot_ok_def pool_def owned_def entry_simps write_entry_def)

lemma absent_slot_copied:
  assumes "\<not> present (sys_mem s src i)" and "sys_mem t dst i = 0" and "pmm_wf (sys_pmm t)"
  shows "copies_slot n src dst (sys_mem s) i t t"
  using assms by (simp add: copies_slot_def copy_step_def need_slot_def slot_ok_def)

section \<open>The deep copy\<close>

text \<open>A frame of the pool is taken.\<close>

lemma take_frame:
  assumes wf: "pmm_wf (sys_pmm t)" and "0 < card (free_set (sys_pmm t))"
  obtains f new pmm' where "new = of_nat f * PageSize" "AllocatePages 1 (sys_pmm t) = Inr (new, pmm')" "f < 2 ^ 40" "new \<noteq> 0" "pmm_wf pmm'"
    "new \<in> pool t" "(\<lambda>f. of_nat f * PageSize) ` free_set pmm' = pool t - {new}"
    "card (free_set (sys_pmm t)) = Suc (card (free_set pmm'))" "(\<lambda>f. of_nat f * PageSize) ` allocated_set pmm' = insert new (owned t)"
  using wf
proof (cases rule: pmm.alloc_cases)
  case (some f pmm')
  let ?F = "free_set (sys_pmm t)"
  have "inj_on (\<lambda>f. of_nat f * PageSize :: u64) ?F"
  proof (rule inj_onI)
    fix x y assume "x \<in> ?F" "y \<in> ?F" and eq: "of_nat x * PageSize = of_nat y * PageSize"
    then have "x < 2 ^ 40" "y < 2 ^ 40" using free_frame_bounds [OF wf] by simp_all
    then show "x = y" using eq frame_addr_inj by simp
  qed
  then have "(\<lambda>f. of_nat f * PageSize) ` (?F - {f}) = pool t - (\<lambda>f. of_nat f * PageSize) ` {f}"
    unfolding pool_def by (rule inj_on_image_set_diff) (use some(2) in auto)
  then have "(\<lambda>f. of_nat f * PageSize) ` free_set pmm' = pool t - {of_nat f * PageSize}" using some(9) by simp
  moreover have "card ?F = Suc (card (free_set pmm'))" using some(2,9) card_Suc_Diff1 [of ?F f] by simp
  moreover have "of_nat f * PageSize \<in> pool t" unfolding pool_def using some(2) by blast
  moreover have "(\<lambda>f. of_nat f * PageSize) ` allocated_set pmm' = insert (of_nat f * PageSize) (owned t)" using some(8) by (simp add: owned_def)
  ultimately show ?thesis using that [OF refl some(1,5,6,7)] by blast
qed (use assms in simp)

lemma deep_copy:
  assumes "n \<le> 3" and "pmm_wf (sys_pmm s)" and "tables_in n (sys_mem s) src S" and "S \<inter> pool s = {}" and "dst \<notin> S" and "dst \<notin> pool s"
    and "\<And>i. i < 512 \<Longrightarrow> sys_mem s dst i = 0" and "need n (sys_mem s) src \<le> card (free_set (sys_pmm s))"
  shows "\<exists>s'. DeepCopyPageTables n src dst s = Inr s' \<and> copied n src dst s s'"
  using assms
proof (induction n arbitrary: src dst s)
  case 0
  then show ?case by (auto simp: copied_def copy_step_refl flags_from_def)
next
  case (Suc n)
  show ?case unfolding DeepCopyPageTables.simps
  proof (rule fill_slots [OF Suc.prems(2,7,6,8)])
    fix i k t assume i: "i < 512" and st: "copy_step dst k s t" and free: "sys_mem t dst i = 0"
      and enough: "need_slot n (sys_mem s) src i \<le> card (free_set (sys_pmm t))"
    note stD = copy_stepD [OF st]
    define e where "e = sys_mem s src i"
    have S: "sys_mem t b = sys_mem s b" if "b \<in> S" for b using stD(4) [of b] that Suc.prems(4,5) by auto
    have src: "src \<in> S" "src \<noteq> dst" using Suc.prems(3,5) by auto
    then have et: "sys_mem t src i = e" using S by (simp add: e_def)
    let ?body = "\<lambda>t. let entry = sys_mem t src i
       in if \<not> present entry then Inr t
          else if (Suc n = 3 \<or> Suc n = 2) \<and> entry AND HugePage \<noteq> 0 then Inr (t\<lparr>sys_mem := write_entry dst i entry (sys_mem t)\<rparr>)
          else if Suc n = 1 then Inr (t\<lparr>sys_mem := write_entry dst i entry (sys_mem t)\<rparr>)
          else bindR (AllocatePages 1 (sys_pmm t)) (\<lambda>(newTablePhys, pmm').
            let m1 = clear_table newTablePhys (sys_mem t); m2 = write_entry dst i (newTablePhys OR (m1 src i AND FlagsMask)) m1
            in DeepCopyPageTables n (m2 src i AND PointerMask) newTablePhys (t\<lparr>sys_pmm := pmm', sys_mem := m2\<rparr>))"
    show "\<exists>t'. ?body t = Inr t' \<and> copies_slot n src dst (sys_mem s) i t t'"
    proof (cases "present e \<and> \<not> is_leaf (Suc n) e")
      case False
      then consider "\<not> present e" | "present e" "is_leaf (Suc n) e" by blast
      then show ?thesis
        using absent_slot_copied [of s src i t dst n] leaf_slot_copied [of s src i n t dst] free stD(1)
        by cases (auto simp: et e_def [symmetric] is_leaf_def huge_def)
    next
      case dir: True
      have cost: "need_slot n (sys_mem s) src i = Suc (need n (sys_mem s) (e AND PointerMask))" using dir by (simp add: need_slot_def e_def)
      have "0 < card (free_set (sys_pmm t))" using enough cost by simp
      from take_frame [OF stD(1) this] obtain f new pmm' where new_def: "new = of_nat f * PageSize"
        and f: "AllocatePages 1 (sys_pmm t) = Inr (new, pmm')" "f < 2 ^ 40" "pmm_wf pmm'" "new \<in> pool t"
        "(\<lambda>f. of_nat f * PageSize) ` free_set pmm' = pool t - {new}" "card (free_set (sys_pmm t)) = Suc (card (free_set pmm'))" "(\<lambda>f. of_nat f * PageSize) ` allocated_set pmm' = insert new (owned t)" .
      define u where "u = t\<lparr>sys_pmm := pmm', sys_mem := write_entry dst i (new OR (e AND FlagsMask)) (clear_table new (sys_mem t))\<rparr>"
      have new: "new \<in> pool t" "new \<notin> S" "new \<noteq> dst" "new \<noteq> src" using f(4) stD(2) Suc.prems(4,6) src by auto
      have pu: "pool u = pool t - {new}" and ou: "owned u = insert new (owned t)" using f(5,7) by (simp_all add: u_def pool_def owned_def)
      have mu: "sys_mem u b = sys_mem t b" if "b \<noteq> dst" "b \<noteq> new" for b using that by (auto simp: u_def entry_simps)
      have uS: "sys_mem u b = sys_mem s b" if "b \<in> S" for b using that mu S new(2) Suc.prems(5) by metis
      have sub: "tables_in n (sys_mem s) (e AND PointerMask) S" using Suc.prems(3) i dir by (simp add: e_def)
      note su = walk_cong [OF sub uS]
      have "\<exists>v. DeepCopyPageTables n (e AND PointerMask) new u = Inr v \<and> copied n (e AND PointerMask) new u v"
      proof (rule Suc.IH)
        show "need n (sys_mem u) (e AND PointerMask) \<le> card (free_set (sys_pmm u))" using su enough cost f(6) by (simp add: u_def)
        show "S \<inter> pool u = {}" using Suc.prems(4) stD(2) pu by auto
        show "sys_mem u new j = 0" for j using new(3) by (simp add: u_def entry_simps)
      qed (use Suc.prems(1) f(3) su new(2) pu in \<open>auto simp: u_def\<close>)
      then obtain v where v: "DeepCopyPageTables n (e AND PointerMask) new u = Inr v" "copied n (e AND PointerMask) new u v" by blast
      have "\<not> ((Suc n = 3 \<or> Suc n = 2) \<and> e AND HugePage \<noteq> 0)" "Suc n \<noteq> 1" using dir by (auto simp: is_leaf_def huge_def)
      moreover have "clear_table new (sys_mem t) src i = e" "write_entry dst i x (clear_table new (sys_mem t)) src i = e" for x
        using src(2) new(4) et by (simp_all add: entry_simps)
      ultimately have run: "?body t = Inr v" using dir f(1) v(1) by (auto simp: et Let_def u_def)
      have vD: "sys_mem v dst = sys_mem u dst" using v(2) copy_stepD(4) [of new _ u v dst] new(3) pu Suc.prems(6) stD(2) by (auto simp: copied_def)
      have "copies_slot n src dst (sys_mem s) i t v"
        by (rule directory_slot_copied [OF cost e_def _ _ f(2) new_def new(1) pu _ sub uS _ mu _ _ _ ou v(2)])
          (use dir f(6) Suc.prems(6) stD(2) vD new(3) in \<open>auto simp: u_def entry_simps\<close>)
      then show ?thesis using run by blast
    qed
  qed
qed

section \<open>Taking over the boot loader's tables\<close>

text \<open>
  The top level: unlike in the deep copy, the new PDP is not cleared, so the frames that can be handed out must be zero.
\<close>

definition clean :: "paging_sys \<Rightarrow> bool" where
  "clean s \<longleftrightarrow> (\<forall>b \<in> pool s. \<forall>i < 512. sys_mem s b i = 0)"

lemma copy_existing:
  assumes wf: "pmm_wf (sys_pmm s)" and src: "tables_in 4 (sys_mem s) (sys_cr3 s) S" and S: "S \<inter> pool s = {}" and dst: "dst \<notin> S" "dst \<notin> pool s"
    and clear: "\<And>i. i < 512 \<Longrightarrow> sys_mem s dst i = 0" and clean: "clean s"
    and enough: "need 4 (sys_mem s) (sys_cr3 s) \<le> card (free_set (sys_pmm s))"
  shows "\<exists>s'. CopyExistingPageTableToNew dst s = Inr s' \<and> copied 4 (sys_cr3 s) dst s s'"
proof -
  have four: "(4 :: nat) = Suc 3" by simp
  define cr3 where "cr3 = sys_cr3 s"
  have top: "cr3 \<in> S" "\<And>i. i < 512 \<Longrightarrow> present (sys_mem s cr3 i) \<Longrightarrow> \<not> is_leaf (Suc 3) (sys_mem s cr3 i) \<Longrightarrow>
      tables_in 3 (sys_mem s) (sys_mem s cr3 i AND PointerMask) S"
    using src unfolding four tables_in.simps cr3_def by blast+
  show ?thesis unfolding CopyExistingPageTableToNew_def Let_def cr3_def [symmetric] four
  proof (rule fill_slots [OF wf clear dst(2)])
    show "need (Suc 3) (sys_mem s) cr3 \<le> card (free_set (sys_pmm s))" using enough unfolding four cr3_def .
    fix i k t assume i: "i < 512" and st: "copy_step dst k s t" and free: "sys_mem t dst i = 0"
      and avail: "need_slot 3 (sys_mem s) cr3 i \<le> card (free_set (sys_pmm t))"
    note stD = copy_stepD [OF st]
    define e where "e = sys_mem s cr3 i"
    have tS: "sys_mem t b = sys_mem s b" if "b \<in> S" for b using stD(4) [of b] that S dst by auto
    have cr3: "cr3 \<in> S" "cr3 \<noteq> dst" using top(1) dst by auto
    then have et: "sys_mem t cr3 i = e" using tS by (simp add: e_def)
    let ?body = "if \<not> present (sys_mem t cr3 i) then Inr t
       else bindR (AllocatePages 1 (sys_pmm t)) (\<lambda>(dstPhys, pmm').
         if dstPhys = 0 then Inl (Panic ''Failed to allocate memory for page table during deep copy!'')
         else bindR (DeepCopyPageTables 3 (sys_mem t cr3 i AND PointerMask) dstPhys (t\<lparr>sys_pmm := pmm'\<rparr>)) (\<lambda>s'.
           Inr (s'\<lparr>sys_mem := write_entry dst i ((sys_mem s' cr3 i AND FlagsMask) OR dstPhys) (sys_mem s')\<rparr>)))"
    have "\<exists>t'. ?body = Inr t' \<and> copies_slot 3 cr3 dst (sys_mem s) i t t'"
    proof (cases "present e")
      case False
      then show ?thesis using absent_slot_copied [of s cr3 i t dst 3] free stD(1) by (simp add: et e_def [symmetric])
    next
      case dir: True
      have leaf: "\<not> is_leaf (Suc 3) e" by (simp add: is_leaf_def)
      have cost: "need_slot 3 (sys_mem s) cr3 i = Suc (need 3 (sys_mem s) (e AND PointerMask))" using dir leaf by (simp add: need_slot_def e_def)
      have "0 < card (free_set (sys_pmm t))" using avail cost by simp
      from take_frame [OF stD(1) this] obtain f new pmm' where new_def: "new = of_nat f * PageSize"
        and f: "AllocatePages 1 (sys_pmm t) = Inr (new, pmm')" "f < 2 ^ 40" "pmm_wf pmm'" "new \<in> pool t"
        "(\<lambda>f. of_nat f * PageSize) ` free_set pmm' = pool t - {new}" "card (free_set (sys_pmm t)) = Suc (card (free_set pmm'))" "new \<noteq> 0"
        "(\<lambda>f. of_nat f * PageSize) ` allocated_set pmm' = insert new (owned t)" .
      define u where "u = t\<lparr>sys_pmm := pmm'\<rparr>"
      have new: "new \<in> pool t" "new \<in> pool s" "new \<notin> S" "new \<noteq> dst" using f(4) stD(2) S dst by auto
      have pu: "pool u = pool t - {new}" and ou: "owned u = insert new (owned t)" using f(5,8) by (simp_all add: u_def pool_def owned_def)
      have uS: "sys_mem u b = sys_mem s b" if "b \<in> S" for b using that tS by (simp add: u_def)
      have sub: "tables_in 3 (sys_mem s) (e AND PointerMask) S" using top(2) [OF i] dir leaf unfolding e_def by blast
      note su = walk_cong [OF sub uS]
      have "\<exists>v. DeepCopyPageTables 3 (e AND PointerMask) new u = Inr v \<and> copied 3 (e AND PointerMask) new u v"
      proof (rule deep_copy)
        show "need 3 (sys_mem u) (e AND PointerMask) \<le> card (free_set (sys_pmm u))" using su avail cost f(6) by (simp add: u_def)
        show "S \<inter> pool u = {}" using S stD(2) pu by auto
        have "sys_mem u new = sys_mem s new" using stD(4) [of new] new(1,4) by (simp add: u_def)
        then show "sys_mem u new j = 0" if "j < 512" for j using clean that new(2) by (simp add: clean_def)
      qed (use f(3) su new(3) pu in \<open>auto simp: u_def\<close>)
      then obtain v where v: "DeepCopyPageTables 3 (e AND PointerMask) new u = Inr v" "copied 3 (e AND PointerMask) new u v" by blast
      have vm: "sys_mem v b = sys_mem t b" if "b \<notin> insert new (pool u - pool v)" for b
        using v(2) copy_stepD(4) [of new _ u v b] that by (auto simp: copied_def u_def)
      have "dst \<notin> insert new (pool u - pool v)" "cr3 \<notin> insert new (pool u - pool v)" using pu new(2-4) cr3 dst S stD(2) by auto
      then have vD: "sys_mem v dst = sys_mem t dst" "sys_mem v cr3 i = e" using vm et by simp_all
      define w where "w = v\<lparr>sys_mem := write_entry dst i (new OR (e AND FlagsMask)) (sys_mem v)\<rparr>"
      have "?body = Inr w" using dir f(1,7) v(1) vD(2) by (simp add: et u_def w_def or.commute)
      moreover have "copies_slot 3 cr3 dst (sys_mem s) i t w"
        by (rule directory_slot_copied [OF cost e_def dir leaf f(2) new_def new(1) pu _ sub uS _ _ _ _ _ ou v(2)])
          (use f(6) dst(2) stD(2) vD(1) in \<open>auto simp: u_def w_def entry_simps write_entry_def\<close>)
      ultimately show ?thesis by blast
    qed
    then show "\<exists>t'. ?body = Inr t' \<and> copies_slot 3 cr3 dst (sys_mem s) i t t'" .
  qed
qed

section \<open>Reserving the higher half\<close>

lemma empty_walk: "(\<And>i. m t i = 0) \<Longrightarrow> hw_walk n m t p = None"
  by (cases n; cases p) (auto simp: present_bit)

lemma hw_walk_4:
  "hw_walk 4 m r (i # is) = (if i \<ge> 512 \<or> \<not> present (m r i) then None
     else map_option (\<lambda>(flags, leaf). ((m r i AND FlagsMask) # flags, leaf)) (hw_walk 3 m (m r i AND PointerMask) is))"
proof -
  have four: "(4 :: nat) = Suc 3" by simp
  show ?thesis unfolding four hw_walk.simps(1) by (simp add: is_leaf_def)
qed

lemma tree_4:
  "tree 4 m t C \<longleftrightarrow> (\<exists>D. (\<forall>i. D i \<subseteq> C) \<and> (\<forall>i j. i \<noteq> j \<longrightarrow> D i \<inter> D j = {}) \<and>
     (\<forall>i < 512. (m t i = 0 \<or> present (m t i)) \<and>
        (present (m t i) \<longrightarrow> (m t i AND PointerMask) \<in> D i \<and> tree 3 m (m t i AND PointerMask) (D i - {m t i AND PointerMask}))))"
proof -
  have four: "(4 :: nat) = Suc 3" by simp
  show ?thesis unfolding four tree.simps by (simp add: is_leaf_def)
qed

text \<open>Slots of the root are only added, without the huge page bit.\<close>

definition slots_added :: "u64 \<Rightarrow> table_mem \<Rightarrow> table_mem \<Rightarrow> bool" where
  "slots_added r m m' \<longleftrightarrow> (\<forall>j. m' r j = m r j \<or> \<not> present (m r j) \<and> present (m' r j) \<and> \<not> huge (m' r j))"

lemma slots_added_trans: "slots_added r m m' \<Longrightarrow> slots_added r m' m'' \<Longrightarrow> slots_added r m m''"
  unfolding slots_added_def by metis

lemma slots_added_present: "slots_added r m m' \<Longrightarrow> present (m r j) \<Longrightarrow> present (m' r j)"
  unfolding slots_added_def by metis

lemma reserve_slot_walk:
  assumes wf: "pmm_wf (sys_pmm t)" and i: "i < 512" and below: "tree 4 (sys_mem t) r T" and r: "r \<notin> T" "r \<notin> pool t" and T: "T \<inter> pool t = {}"
    and free: "0 < card (free_set (sys_pmm t))"
  shows "\<exists>t' k. reserve_slot r i t = Inr t' \<and> k \<le> 1 \<and> copy_step r k t t' \<and> tree 4 (sys_mem t') r (T \<union> (pool t - pool t')) \<and>
     (\<forall>p. hw_walk 4 (sys_mem t') r p = hw_walk 4 (sys_mem t) r p) \<and> present (sys_mem t' r i) \<and> slots_added r (sys_mem t) (sys_mem t')"
proof (cases "present (sys_mem t r i)")
  case True
  then have "reserve_slot r i t = Inr t" by (simp add: reserve_slot_def)
  then show ?thesis using True below wf by (intro exI [of _ t] exI [of _ 0]) (simp add: copy_step_refl slots_added_def)
next
  case absent: False
  from take_frame [OF wf free] obtain f new pmm' where new_def: "new = of_nat f * PageSize"
    and f: "AllocatePages 1 (sys_pmm t) = Inr (new, pmm')" "f < 2 ^ 40" "new \<noteq> 0" "pmm_wf pmm'" "new \<in> pool t"
    "(\<lambda>f. of_nat f * PageSize) ` free_set pmm' = pool t - {new}" "card (free_set (sys_pmm t)) = Suc (card (free_set pmm'))"
    "(\<lambda>f. of_nat f * PageSize) ` allocated_set pmm' = insert new (owned t)" .
  define e where "e = new OR (Present OR ReadWrite)"
  define t' where "t' = t\<lparr>sys_pmm := pmm', sys_mem := write_entry r i e (clear_table new (sys_mem t))\<rparr>"
  have e: "e AND PointerMask = new" "present e" "\<not> huge e" using directory_entry [OF f(2) directory_flags_ok(2)] by (simp_all add: e_def new_def)
  have run: "reserve_slot r i t = Inr t'" using absent f(1,3) by (simp add: reserve_slot_def t'_def e_def)
  have p: "pool t' = pool t - {new}" using f(6) by (simp add: t'_def pool_def)
  have new: "new \<noteq> r" "new \<notin> T" using f(5) r T by auto
  have mem: "sys_mem t' r i = e" "\<And>j. j \<noteq> i \<Longrightarrow> sys_mem t' r j = sys_mem t r j" "\<And>j. sys_mem t' new j = 0"
    "\<And>b. b \<noteq> r \<Longrightarrow> b \<noteq> new \<Longrightarrow> sys_mem t' b = sys_mem t b"
    using new(1) by (auto simp: t'_def entry_simps write_entry_def clear_table_def)
  from below obtain D where D: "\<And>j. D j \<subseteq> T" "\<And>j k. j \<noteq> k \<Longrightarrow> D j \<inter> D k = {}"
    "\<And>j. j < 512 \<Longrightarrow> sys_mem t r j = 0 \<or> present (sys_mem t r j)" "\<And>j. j < 512 \<Longrightarrow> present (sys_mem t r j) \<Longrightarrow>
       (sys_mem t r j AND PointerMask) \<in> D j \<and> tree 3 (sys_mem t) (sys_mem t r j AND PointerMask) (D j - {sys_mem t r j AND PointerMask})"
    unfolding tree_4 by metis
  have T': "sys_mem t' b = sys_mem t b" if "b \<in> T" for b using that mem(4) new(2) r(1) by metis
  have sub: "tables_in 3 (sys_mem t) (sys_mem t r j AND PointerMask) T" if "j < 512" "present (sys_mem t r j)" for j
    using tree_tables_in [of 3 "sys_mem t" "sys_mem t r j AND PointerMask"] D(4) [OF that] D(1) [of j] tables_in_mono by blast
  note cong = walk_cong [OF sub T']
  have reg: "sys_pmm t' = pmm'" "sys_cr3 t' = sys_cr3 t" "sys_kernelState t' = sys_kernelState t" "sys_pageState t' = sys_pageState t"
    "owned t' = insert new (owned t)" using f(8) by (simp_all add: t'_def owned_def)
  have "sys_mem t' b = sys_mem t b" if "b \<notin> insert r (pool t - pool t')" for b using that mem(4) [of b] p f(5) by blast
  then have "copy_step r 1 t t'" unfolding copy_step_def reg using f(4,7) p by auto
  moreover have "tree 4 (sys_mem t') r (T \<union> (pool t - pool t'))"
  proof -
    let ?D = "D(i := {new})"
    have "tree (Suc 2) (sys_mem t') new {}" by (rule tree_SucI [of "\<lambda>_. {}"]) (use mem(3) in \<open>simp_all add: present_bit\<close>)
    then have "tree 3 (sys_mem t') new {}" by simp
    moreover have "tree 3 (sys_mem t') b (D j - {b})" if "b \<in> D j" "tree 3 (sys_mem t) b (D j - {b})" for b j
      by (rule tree_cong [OF that(2)]) (use that(1) D(1) [of j] T' in blast)
    ultimately have "(sys_mem t' r j = 0 \<or> present (sys_mem t' r j)) \<and> (present (sys_mem t' r j) \<longrightarrow>
       (sys_mem t' r j AND PointerMask) \<in> ?D j \<and> tree 3 (sys_mem t') (sys_mem t' r j AND PointerMask) (?D j - {sys_mem t' r j AND PointerMask}))"
      if "j < 512" for j using that e mem(1) mem(2) [of j] D(3,4) [of j] by (cases "j = i") auto
    moreover have "?D j \<subseteq> T \<union> (pool t - pool t')" "j \<noteq> k \<Longrightarrow> ?D j \<inter> ?D k = {}" for j k
      using D(1) [of j] D(1) [of k] D(2) [of j k] new(2) p f(5) by (auto split: if_splits)
    ultimately show ?thesis unfolding tree_4 by (intro exI [of _ ?D]) blast
  qed
  moreover have "hw_walk 4 (sys_mem t') r q = hw_walk 4 (sys_mem t) r q" for q
  proof (cases q)
    case (Cons j js)
    then show ?thesis using mem(1) mem(2) [of j] cong [of j] absent e empty_walk [of "sys_mem t'" new] mem(3)
      by (cases "j = i") (auto simp: hw_walk_4)
  qed simp
  moreover have "slots_added r (sys_mem t) (sys_mem t')" unfolding slots_added_def using mem(1,2) e(2,3) absent by metis
  ultimately show ?thesis using run mem(1) e(2) by (intro exI [of _ t'] exI [of _ 1]) simp
qed

lemma reserve_slots_walk:
  assumes wf: "pmm_wf (sys_pmm t)" and zs: "\<And>i. i \<in> set zs \<Longrightarrow> i < 512" and below: "tree 4 (sys_mem t) r T" and r: "r \<notin> T" "r \<notin> pool t"
    and T: "T \<inter> pool t = {}" and free: "length zs \<le> card (free_set (sys_pmm t))"
  shows "\<exists>t' k. foldR (reserve_slot r) zs t = Inr t' \<and> copy_step r k t t' \<and> tree 4 (sys_mem t') r (T \<union> (pool t - pool t')) \<and>
     (\<forall>p. hw_walk 4 (sys_mem t') r p = hw_walk 4 (sys_mem t) r p) \<and> (\<forall>i \<in> set zs. present (sys_mem t' r i)) \<and>
     k \<le> length zs \<and> slots_added r (sys_mem t) (sys_mem t')"
proof -
  let ?P = "\<lambda>xs u. \<exists>k \<le> length xs. copy_step r k t u \<and> tree 4 (sys_mem u) r (T \<union> (pool t - pool u)) \<and>
     (\<forall>p. hw_walk 4 (sys_mem u) r p = hw_walk 4 (sys_mem t) r p) \<and> (\<forall>i \<in> set xs. present (sys_mem u r i)) \<and> slots_added r (sys_mem t) (sys_mem u)"
  have "\<exists>t'. foldR (reserve_slot r) zs t = Inr t' \<and> ?P zs t'"
  proof (rule foldR_invariant [where P = ?P])
    show "?P [] t" using wf below copy_step_refl by (simp add: slots_added_def)
    fix xs i ys u assume eq: "zs = xs @ i # ys" and "?P xs u"
    then obtain k where k: "k \<le> length xs" "copy_step r k t u" "tree 4 (sys_mem u) r (T \<union> (pool t - pool u))"
      "\<And>p. hw_walk 4 (sys_mem u) r p = hw_walk 4 (sys_mem t) r p" "\<And>i. i \<in> set xs \<Longrightarrow> present (sys_mem u r i)"
      "slots_added r (sys_mem t) (sys_mem u)" by blast
    note kD = copy_stepD [OF k(2)]
    have "0 < card (free_set (sys_pmm u))" using kD(3) k(1) free eq by simp
    then have "\<exists>v l. reserve_slot r i u = Inr v \<and> l \<le> 1 \<and> copy_step r l u v \<and> tree 4 (sys_mem v) r ((T \<union> (pool t - pool u)) \<union> (pool u - pool v)) \<and>
       (\<forall>p. hw_walk 4 (sys_mem v) r p = hw_walk 4 (sys_mem u) r p) \<and> present (sys_mem v r i) \<and> slots_added r (sys_mem u) (sys_mem v)"
      by (intro reserve_slot_walk) (use kD(1,2) k(3) zs eq r T in auto)
    then obtain v l where v: "reserve_slot r i u = Inr v" "l \<le> 1" "copy_step r l u v" "tree 4 (sys_mem v) r ((T \<union> (pool t - pool u)) \<union> (pool u - pool v))"
      "\<And>p. hw_walk 4 (sys_mem v) r p = hw_walk 4 (sys_mem u) r p" "present (sys_mem v r i)" "slots_added r (sys_mem u) (sys_mem v)" by blast
    have "(T \<union> (pool t - pool u)) \<union> (pool u - pool v) = T \<union> (pool t - pool v)" using kD(2) copy_stepD(2) [OF v(3)] by blast
    then have "?P (xs @ [i]) v" using k(1,4,5) v(2,4-6) copy_step_trans [OF k(2) v(3)] slots_added_present [OF v(7)] slots_added_trans [OF k(6) v(7)]
      by (intro exI [of _ "k + l"]) auto
    then show "\<exists>v. reserve_slot r i u = Inr v \<and> ?P (xs @ [i]) v" using v(1) by blast
  qed
  then show ?thesis by blast
qed

section \<open>Property\<close>

lemma huge_FlagsMask: "huge e \<longleftrightarrow> bit (e AND FlagsMask) 7"
  by (simp add: huge_bit bit_simps FlagsMask_not PointerMask_bit)

text \<open>The whole set-up: what it does to the tables, how many frames it takes, and where the reserved bit of the root can come from.\<close>

definition taken_over :: "u64 set \<Rightarrow> paging_sys \<Rightarrow> paging_sys \<Rightarrow> u64 \<Rightarrow> bool" where
  "taken_over S s s' r \<longleftrightarrow> r = sys_kernelState s' \<and> sys_cr3 s' = r \<and> sys_pageState s' = r \<and> pt_wf s' r \<and>
     (\<forall>p. hw_walk 4 (sys_mem s') r p = hw_walk 4 (sys_mem s) (sys_cr3 s) p) \<and>
     tables_in 4 (sys_mem s') r (pool s - pool s') \<and> (\<forall>i \<in> {256..<512}. present (sys_mem s' r i)) \<and> (\<forall>b \<in> S. sys_mem s' b = sys_mem s b) \<and>
     card (free_set (sys_pmm s)) \<le> card (free_set (sys_pmm s')) + (257 + need 4 (sys_mem s) (sys_cr3 s)) \<and>
     (\<forall>i < 512. huge (sys_mem s' r i) \<longrightarrow> huge (sys_mem s (sys_cr3 s) i))"

text \<open>The higher half: 256 slots, each with at most one new table.\<close>

lemma reserve_higher_half:
  assumes "pmm_wf (sys_pmm t)" and "tree 4 (sys_mem t) r T" and "r \<notin> T" "r \<notin> pool t" and "T \<inter> pool t = {}" and "256 \<le> card (free_set (sys_pmm t))"
  obtains t' k where "ReserveHigherHalfPML4Slots r t = Inr t'" "copy_step r k t t'" "k \<le> 256"
    "tree 4 (sys_mem t') r (T \<union> (pool t - pool t'))" "\<forall>p. hw_walk 4 (sys_mem t') r p = hw_walk 4 (sys_mem t) r p"
    "\<forall>i \<in> {256..<512}. present (sys_mem t' r i)" "slots_added r (sys_mem t) (sys_mem t')"
proof -
  have "i < 512" if "i \<in> set [256..<512]" for i :: nat using that unfolding set_upt by simp
  moreover have "length [256..<512] \<le> card (free_set (sys_pmm t))" using assms(6) unfolding length_upt by simp
  ultimately have "\<exists>t' k. foldR (reserve_slot r) [256..<512] t = Inr t' \<and> copy_step r k t t' \<and> tree 4 (sys_mem t') r (T \<union> (pool t - pool t')) \<and>
     (\<forall>p. hw_walk 4 (sys_mem t') r p = hw_walk 4 (sys_mem t) r p) \<and> (\<forall>i \<in> set [256..<512]. present (sys_mem t' r i)) \<and>
     k \<le> length [256..<512] \<and> slots_added r (sys_mem t) (sys_mem t')"
    by (intro reserve_slots_walk [OF assms(1) _ assms(2-5)])
  moreover have "512 - 256 = (256 :: nat)" by simp
  ultimately show ?thesis using that unfolding ReserveHigherHalfPML4Slots_fold set_upt length_upt by metis
qed

text \<open>An entry with the bit for a large page comes from one with that bit.\<close>

lemma huge_from:
  assumes "flags_from m src m1 r" and "slots_added r m1 m2" and "i < 512" and "huge (m2 r i)"
  shows "huge (m src i)"
proof -
  have h: "huge (m1 r i)" using assms(2,4) unfolding slots_added_def by metis
  then have "m1 r i AND FlagsMask = m src i AND FlagsMask" using assms(1,3) unfolding flags_from_def by (auto simp: huge_bit)
  with h show ?thesis by (auto simp: huge_FlagsMask [of "m1 r i"] huge_FlagsMask [of "m src i"])
qed

lemma Paging_Initialize_takes_over:
  assumes "pmm_wf (sys_pmm s)" and "tables_in 4 (sys_mem s) (sys_cr3 s) S" and "S \<inter> pool s = {}" and "clean s"
    and "257 + need 4 (sys_mem s) (sys_cr3 s) \<le> card (free_set (sys_pmm s))"
  shows "\<exists>s' r. Paging_Initialize s = Inr s' \<and> taken_over S s s' r"
proof -
  have "0 < card (free_set (sys_pmm s))" using assms(5) by simp
  from take_frame [OF assms(1) this] obtain f r pmm' where "r = of_nat f * PageSize"
    and f: "AllocatePages 1 (sys_pmm s) = Inr (r, pmm')" "f < 2 ^ 40" "r \<noteq> 0" "pmm_wf pmm'" "r \<in> pool s"
    "(\<lambda>f. of_nat f * PageSize) ` free_set pmm' = pool s - {r}" "card (free_set (sys_pmm s)) = Suc (card (free_set pmm'))"
    "(\<lambda>f. of_nat f * PageSize) ` allocated_set pmm' = insert r (owned s)" .
  define s1 where "s1 = s\<lparr>sys_pmm := pmm', sys_mem := clear_table r (sys_mem s), sys_kernelState := r\<rparr>"
  have p1: "pool s1 = pool s - {r}" "owned s1 = insert r (owned s)" using f(6,8) by (simp_all add: s1_def pool_def owned_def)
  have s1: "sys_pmm s1 = pmm'" "sys_cr3 s1 = sys_cr3 s" "sys_kernelState s1 = r" "\<And>b. b \<noteq> r \<Longrightarrow> sys_mem s1 b = sys_mem s b" "\<And>i. sys_mem s1 r i = 0"
    by (simp_all add: s1_def clear_table_def)
  have rS: "r \<notin> S" using f(5) assms(3) by blast
  then have m1: "sys_mem s1 b = sys_mem s b" if "b \<in> S" for b using that s1(4) by metis
  note w1 = walk_cong [OF assms(2) m1]
  have "\<exists>s2. CopyExistingPageTableToNew r s1 = Inr s2 \<and> copied 4 (sys_cr3 s1) r s1 s2"
  proof (rule copy_existing)
    show "clean s1" using assms(4) p1 s1(4) by (auto simp: clean_def)
    show "need 4 (sys_mem s1) (sys_cr3 s1) \<le> card (free_set (sys_pmm s1))" using w1 s1(1,2) assms(5) f(7) by simp
  qed (use w1 s1(1,2,5) f(4) assms(3) p1 rS in auto)
  then obtain s2 where s2: "CopyExistingPageTableToNew r s1 = Inr s2" "copied 4 (sys_cr3 s1) r s1 s2" by blast
  have c2: "copy_step r (need 4 (sys_mem s) (sys_cr3 s)) s1 s2" "tree 4 (sys_mem s2) r (pool s1 - pool s2)"
    "\<And>p. hw_walk 4 (sys_mem s2) r p = hw_walk 4 (sys_mem s) (sys_cr3 s) p" "flags_from (sys_mem s1) (sys_cr3 s) (sys_mem s2) r"
    using s2(2) w1 s1(2) by (auto simp: copied_def)
  note c2D = copy_stepD [OF c2(1)]
  have "256 \<le> card (free_set (sys_pmm s2))" using c2D(3) assms(5) f(7) s1(1) by simp
  then obtain s3 k where s3: "ReserveHigherHalfPML4Slots r s2 = Inr s3" and c3: "copy_step r k s2 s3" and k3: "k \<le> 256"
     and t3: "tree 4 (sys_mem s3) r ((pool s1 - pool s2) \<union> (pool s2 - pool s3))"
     and w3: "\<forall>p. hw_walk 4 (sys_mem s3) r p = hw_walk 4 (sys_mem s2) r p" and h3: "\<forall>i \<in> {256..<512}. present (sys_mem s3 r i)"
     and a3: "slots_added r (sys_mem s2) (sys_mem s3)"
    using reserve_higher_half [OF c2D(1) c2(2)] c2D(2) p1 by blast
  define s' where "s' = SwitchToKernelPageTable s3"
  have s': "sys_mem s' = sys_mem s3" "sys_pmm s' = sys_pmm s3" "sys_kernelState s' = r" "sys_cr3 s' = r" "sys_pageState s' = r" "pool s' = pool s3"
    using copy_stepD(6) [OF c3] c2D(6) s1(3) by (simp_all add: s'_def SwitchToKernelPageTable_def SwitchToPageTable_def pool_def)
  have run: "Paging_Initialize s = Inr s'"
    using f(1,3) s2(1) s3 by (simp add: Paging_Initialize_def Let_def s1_def [symmetric] s'_def)
  let ?C = "(pool s1 - pool s2) \<union> (pool s2 - pool s3)"
  have C: "insert r ?C \<subseteq> pool s - pool s'" "r \<notin> ?C" using p1(1) f(5) c2D(2) copy_stepD(2) [OF c3] s'(6) by auto
  then have "tables_in 4 (sys_mem s') r (pool s - pool s')" using tables_in_mono [OF tree_tables_in [OF t3]] s'(1) by simp
  moreover have "pt_wf s' r"
  proof -
    have "owned s' = owned s3" using s'(2) by (simp add: owned_def)
    then have "insert r ?C \<subseteq> owned s'" using p1(2) c2D(8) copy_stepD(8) [OF c3] by auto
    then show ?thesis using tree_ptree [OF t3 C(2)] s'(1,2) copy_stepD(1) [OF c3] by (auto simp: pt_wf_def ptree_def)
  qed
  moreover have "sys_mem s' b = sys_mem s b" if "b \<in> S" for b
    using copy_stepD(4) [OF copy_step_trans [OF c2(1) c3], of b] m1 [OF that] that rS assms(3) p1 s'(1) by auto
  moreover have "huge (sys_mem s' r i) \<longrightarrow> huge (sys_mem s (sys_cr3 s) i)" if i: "i < 512" for i
    using huge_from [OF c2(4) a3 i] m1 assms(2) s'(1) by (cases "sys_cr3 s \<in> S") (auto simp: eval_nat_numeral)
  moreover have "card (free_set (sys_pmm s)) \<le> card (free_set (sys_pmm s')) + (257 + need 4 (sys_mem s) (sys_cr3 s))"
    using f(7) s1(1) s'(2) c2D(3) copy_stepD(3) [OF c3] k3 by simp
  ultimately show ?thesis using run s' c2(3) w3 h3 unfolding taken_over_def by (intro exI [of _ s'] exI [of _ r]) simp
qed


text \<open>Boot tables with one huge page, at the start of the higher half, in memory that is not usable.\<close>

definition boot_tables :: table_mem where
  "boot_tables t i = (if t = 0x9F000 \<and> i = 256 then 0xA0003 else if t = 0xA0000 \<and> i = 0 then 0x83 else 0)"

lemma boot_entries:
  "boot_tables 0x9F000 i = (if i = 256 then 0xA0003 else 0)" "boot_tables 0xA0000 i = (if i = 0 then 0x83 else 0)"
  "present 0xA0003" "present 0x83" "huge 0x83" "\<not> present 0" "(0xA0003 :: u64) AND PointerMask = 0xA0000"
  by (simp_all add: boot_tables_def present_def huge_def HugePage_def Present_def PointerMask_def)

lemma need_one_slot:
  assumes "\<And>i. i \<noteq> k \<Longrightarrow> need_slot n m t i = 0" and "k < 512"
  shows "need (Suc n) m t = need_slot n m t k"
proof -
  have "need (Suc n) m t = (\<Sum>i = 0..<512. need_slot n m t i)" by (simp only: need_Suc interv_sum_list_conv_sum_set_nat set_upt)
  also have "\<dots> = (\<Sum>i = 0..<512. if i = k then need_slot n m t k else 0)" by (rule sum.cong) (use assms(1) in auto)
  also have "\<dots> = need_slot n m t k" using assms(2) by (simp add: sum.delta')
  finally show ?thesis .
qed

lemma boot_need: "need 4 boot_tables 0x9F000 = 1"
proof -
  have "need (Suc 2) boot_tables 0xA0000 = need_slot 2 boot_tables 0xA0000 0"
    by (rule need_one_slot) (simp_all add: need_slot_def boot_entries)
  then have "need 3 boot_tables 0xA0000 = 0" by (simp add: need_slot_def boot_entries is_leaf_def)
  moreover have "need (Suc 3) boot_tables 0x9F000 = need_slot 3 boot_tables 0x9F000 256"
    by (rule need_one_slot) (simp_all add: need_slot_def boot_entries)
  ultimately show ?thesis by (simp add: need_slot_def boot_entries is_leaf_def)
qed

lemma boot_tables_in: "tables_in 4 boot_tables 0x9F000 {0x9F000, 0xA0000}"
proof -
  have three: "(3 :: nat) = Suc 2" by simp
  have pdp: "tables_in 3 boot_tables 0xA0000 {0x9F000, 0xA0000}" unfolding three tables_in.simps by (simp add: boot_entries is_leaf_def)
  have "tables_in (Suc 3) boot_tables 0x9F000 {0x9F000, 0xA0000}" unfolding tables_in.simps using pdp by (simp add: boot_entries)
  then show ?thesis by simp
qed


end
