(* ===== verification/Kernel_Window.thy ===== *)
theory Kernel_Window
  imports Boot_Paging
begin

text \<open>
  The kernel's window for device registers: the virtual pages from \<^verbatim>\<open>0xFFFFFFFF80000000\<close> in which
  \<^verbatim>\<open>FindAvailableVirtualAddressRangeKernel\<close> searches (\<^verbatim>\<open>Memory/Paging.cpp\<close>). When the boot loader left no huge page and no page
  with physical address 0 there, the search and \<^verbatim>\<open>MapPage\<close> go together: the page that is found can be mapped.
\<close>

unbundle bit_operations_syntax

section \<open>Walks and the abstract map\<close>

lemma dir_append_None: "dir m r p = None \<Longrightarrow> dir m r (p @ q) = None"
proof (induction q rule: rev_induct)
  case (snoc j q)
  then have "dir m r ((p @ q) @ [j]) = None" unfolding dir_snoc by simp
  then show ?case by simp
qed simp

lemma leaf_below_None:
  assumes "dir m r p = None" and "q \<noteq> []"
  shows "leaf_at m r (p @ q) = None"
proof -
  have "leaf_at m r ((p @ butlast q) @ [last q]) = None" unfolding leaf_at_snoc using dir_append_None [OF assms(1)] by simp
  moreover have "(p @ butlast q) @ [last q] = p @ q" using assms(2) by simp
  ultimately show ?thesis by simp
qed

text \<open>
  Where the directory entries are zero or present, the processor's walk ends at the leaf of the abstract map, and the number of directories it
  passed tells the size of the page. In the root the huge page bit is reserved.
\<close>

lemma walk_leaf:
  assumes tree: "ptree m r S" and "dir m r p = Some b" and "length p + n = 4" and "length q = n" and "set q \<subseteq> {..<512}"
    and "p = [] \<Longrightarrow> \<not> huge (m b (hd q))" and "k < n"
  shows "leaf_at m r (p @ take (Suc k) q) = Some e \<longleftrightarrow> (\<exists>fl. hw_walk n m b q = Some (fl, e) \<and> length fl = k)"
  using assms(2-)
proof (induction n arbitrary: p b q k)
  case (Suc n)
  then obtain i q' where q: "q = i # q'" "i < 512" "set q' \<subseteq> {..<512}" "length q' = n" by (cases q) auto
  have lp: "length p < 3 \<longleftrightarrow> n \<noteq> 0" "length p = 3 \<longleftrightarrow> n = 0" using Suc.prems(2) by auto
  have here: "leaf_at m r (p @ [i]) = (if present (m b i) \<and> (n = 0 \<or> huge (m b i)) then Some (m b i) else None)"
    using Suc.prems(1) q(2) lp(2) by (simp add: leaf_at_snoc)
  have root: "n = 3 \<longleftrightarrow> p = []" "n \<le> 3" using Suc.prems(2) by auto
  have leaf: "is_leaf (Suc n) (m b i) \<longleftrightarrow> n = 0 \<or> huge (m b i)"
    using Suc.prems(5) q(1) root by (auto simp: is_leaf_def numeral_eq_Suc le_Suc_eq)
  show ?case
  proof (cases k)
    case 0
    have "hw_walk (Suc n) m b q = Some ([], e) \<longleftrightarrow> present (m b i) \<and> is_leaf (Suc n) (m b i) \<and> e = m b i"
      using q(1,2) by (auto split: option.splits)
    then show ?thesis using 0 q(1) here leaf by (auto simp: take_Suc)
  next
    case (Suc j)
    have path: "p @ take (Suc k) q = (p @ [i]) @ take (Suc j) q'" "take (Suc j) q' \<noteq> []" "j < n" "n \<noteq> 0"
      using Suc q Suc.prems(6) by (auto simp: take_Suc)
    show ?thesis
    proof (cases "present (m b i) \<and> \<not> huge (m b i)")
      case True
      let ?b = "m b i AND PointerMask"
      have "dir m r (p @ [i]) = Some ?b" using Suc.prems(1) q(2) lp(1) path(4) True by (auto simp: dir_snoc present_def)
      from Suc.IH [OF this _ q(4,3) _ path(3)] Suc.prems(2)
      have "leaf_at m r (p @ take (Suc k) q) = Some e \<longleftrightarrow> (\<exists>fl. hw_walk n m ?b q' = Some (fl, e) \<and> length fl = j)"
        unfolding path(1) by simp
      also have "\<dots> \<longleftrightarrow> (\<exists>fl. hw_walk (Suc n) m b q = Some (fl, e) \<and> length fl = k)"
        using True q(1,2) leaf path(4) Suc by (auto simp: length_Suc_conv split: option.splits)
      finally show ?thesis .
    next
      case False
      then have "dir m r (p @ [i]) = None"
        using Suc.prems(1) q(2) lp(1) path(4) ptreeD(3) [OF tree Suc.prems(1), of i] by (auto simp: dir_snoc)
      then have "leaf_at m r (p @ take (Suc k) q) = None" unfolding path(1) by (rule leaf_below_None) (rule path(2))
      moreover have "hw_walk (Suc n) m b q \<noteq> Some (fl, e)" if "length fl = k" for fl
        using False leaf that q(1) Suc by auto
      ultimately show ?thesis by auto
    qed
  qed
qed simp

section \<open>The window\<close>

definition window_page :: "nat \<Rightarrow> u64" where
  "window_page j = 0xFFFFFFFF80000000 + of_nat j * PageSize"

lemma small_bit: "bit j n \<Longrightarrow> j < 2 ^ k \<Longrightarrow> n < k" for j :: nat
  by (metis bit_take_bit_iff take_bit_nat_eq_self)

lemma window_page_bit:
  assumes "j < 2 ^ 19"
  shows "bit (window_page j) n \<longleftrightarrow> n < 64 \<and> (31 \<le> n \<or> 12 \<le> n \<and> bit j (n - 12))"
proof -
  let ?b = "NOT (mask 31) :: u64" and ?p = "push_bit 12 (of_nat j) :: u64"
  have s: "n < 31" if "bit j (n - 12)" for n using small_bit [OF that assms] by simp
  have "window_page j = ?b + ?p" by (simp add: window_page_def push_bit_eq_mult mask_eq_decr_exp)
  also have "\<dots> = ?b OR ?p"
    by (rule disjunctive_add) (use s in \<open>auto simp: bit_simps\<close>)
  finally show ?thesis by (auto simp: bit_simps)
qed

lemma window_page_aligned: "j < 2 ^ 19 \<Longrightarrow> window_page j AND (PageSize - 1) = 0"
proof -
  assume "j < 2 ^ 19"
  then have "\<not> bit (window_page j) n" if "n < 12" for n using that by (simp add: window_page_bit)
  then have "window_page j AND mask 12 = 0" by (intro bit_word_eqI) (auto simp: bit_simps)
  then show ?thesis by (simp add: mask_eq_decr_exp)
qed

lemma window_page_nonzero: "j < 2 ^ 19 \<Longrightarrow> window_page j \<noteq> 0"
  using window_page_bit [of j 40] by auto

lemma page_path_bits:
  assumes "page_path va = page_path va'" and "12 \<le> n" and "n < 48"
  shows "bit va n = bit va' n"
proof -
  have eq: "drop_bit k va AND 0x1FF = drop_bit k va' AND 0x1FF" if "k \<in> {39, 30, 21, 12}" for k
    using assms(1) that by (auto simp: page_path_def ExtractPageTableIndices_def word_unat_eq_iff)
  have m: "(0x1FF :: u64) = mask 9" by (simp add: mask_eq_decr_exp)
  have b: "bit va (k + i) = bit va' (k + i)" if "k \<in> {39, 30, 21, 12}" "i < 9" for k i
    using arg_cong [OF eq [OF that(1)], of "\<lambda>w. bit w i"] that(2) unfolding m by (simp add: bit_simps add.commute)
  have "n = 39 + (n - 39) \<and> n - 39 < 9 \<or> n = 30 + (n - 30) \<and> n - 30 < 9 \<or> n = 21 + (n - 21) \<and> n - 21 < 9 \<or> n = 12 + (n - 12) \<and> n - 12 < 9"
    using assms(2,3) by auto
  then show ?thesis using b by (metis insertCI)
qed

lemma window_page_inj:
  assumes "j < 2 ^ 19" and "k < 2 ^ 19" and "page_path (window_page j) = page_path (window_page k)"
  shows "j = k"
proof (rule bit_eqI)
  fix n
  show "bit j n = bit k n"
  proof (cases "n < 19")
    case True
    then show ?thesis using page_path_bits [OF assms(3), of "n + 12"] window_page_bit [OF assms(1), of "n + 12"] window_page_bit [OF assms(2), of "n + 12"] by simp
  next
    case False
    then show ?thesis using small_bit [OF _ assms(1)] small_bit [OF _ assms(2)] by blast
  qed
qed

definition WindowPages :: nat where "WindowPages = 524287"

text \<open>What the search relies on in the window, and the pages that are free there.\<close>

definition window_ok :: "paging_sys \<Rightarrow> u64 \<Rightarrow> bool" where
  "window_ok s r \<longleftrightarrow> (\<forall>j < WindowPages. \<not> covered_by_huge s r (window_page j) \<and>
     (\<forall>e. mapping_of s r (page_path (window_page j)) = Some e \<longrightarrow> e AND PointerMask \<noteq> 0))"

definition window_free :: "paging_sys \<Rightarrow> u64 \<Rightarrow> nat set" where
  "window_free s r = {j. j < WindowPages \<and> mapping_of s r (page_path (window_page j)) = None}"

lemma WindowPages_less: "j < WindowPages \<Longrightarrow> j < 2 ^ 19"
  by (simp add: WindowPages_def)

lemma finite_window_free [simp]: "finite (window_free s r)"
  by (simp add: window_free_def)

lemma unmapped_window:
  assumes "pt_wf s r" and "window_ok s r"
  shows "unmapped_pages r 0xFFFFFFFF80000000 0xFFFFFFFFFFFFF000 s = window_free s r"
proof -
  have "range_pages 0xFFFFFFFF80000000 0xFFFFFFFFFFFFF000 = WindowPages" by (simp add: range_pages_def WindowPages_def)
  moreover have "IsMapped r (window_page j) s \<longleftrightarrow> mapping_of s r (page_path (window_page j)) \<noteq> None" if j: "j < WindowPages" for j
  proof -
    have "\<not> covered_by_huge s r (window_page j)" using assms(2) j by (simp add: window_ok_def)
    from GetPhysicalAddress_spec [OF assms(1) this] show ?thesis
      using assms(2) j by (auto simp: IsMapped_def window_ok_def or_eq_0_iff split: option.splits)
  qed
  ultimately show ?thesis by (auto simp: unmapped_pages_def window_free_def window_page_def [symmetric])
qed

lemma find_window_page:
  assumes "pt_wf s r" and "window_ok s r" and "sys_kernelState s = r" and "window_free s r \<noteq> {}"
  shows "\<exists>j \<in> window_free s r. FindAvailableVirtualAddressRangeKernel 1 s = Some (Inr (window_page j, window_page j + PageSize))"
proof -
  let ?F = "window_free s r"
  have r: "\<exists>q. run_at ?F (unat (1 :: u64)) q" using assms(4) by auto
  then have "first_run ?F 1 \<in> ?F" using first_run_ok [of ?F 1] by simp
  moreover have "FindAvailableVirtualAddressRangeKernel 1 s = Some (Inr (window_page (first_run ?F 1), window_page (first_run ?F 1) + PageSize))"
    using find_range_correct [of "0xFFFFFFFFFFFFF000" 0 "0xFFFFFFFF80000000" r s 1 0] scan_start [of 1] r
    by (simp add: FindAvailableVirtualAddressRangeKernel_def FindAvailableVirtualAddressRange_def assms(3) unmapped_window [OF assms(1,2)] window_page_def)
  ultimately show ?thesis by blast
qed

text \<open>A page of the window is found and mapped; the window is then as before but for this page.\<close>

definition maps_page :: "u64 \<Rightarrow> u64 \<Rightarrow> u64 \<Rightarrow> u64 \<Rightarrow> paging_sys \<Rightarrow> paging_sys \<Rightarrow> bool" where
  "maps_page r va pa fl s s' \<longleftrightarrow> pt_wf s' r \<and> window_ok s' r \<and> local_step r s s' \<and> mapping_of s r (page_path va) = None \<and>
     mapping_of s' r = (mapping_of s r)(page_path va \<mapsto> ((pa AND PointerMask) OR (fl OR Present))) \<and>
     card (window_free s r) = Suc (card (window_free s' r)) \<and> card (free_set (sys_pmm s)) \<le> card (free_set (sys_pmm s')) + 3"

lemma window_map:
  assumes wf: "pt_wf s r" and ok: "window_ok s r" and r: "sys_kernelState s = r" and free: "window_free s r \<noteq> {}"
    and mem: "3 \<le> card (free_set (sys_pmm s))" and pa: "pa AND (PageSize - 1) = 0" "pa AND PointerMask \<noteq> 0"
  shows "\<exists>va stop s'. FindAvailableVirtualAddressRangeKernel 1 s = Some (Inr (va, stop)) \<and> va \<noteq> 0 \<and>
     MapPage r va pa fl s = Inr s' \<and> maps_page r va pa fl s s'"
proof -
  obtain j where j: "j \<in> window_free s r" "FindAvailableVirtualAddressRangeKernel 1 s = Some (Inr (window_page j, window_page j + PageSize))"
    using find_window_page [OF wf ok r free] by blast
  then have un: "mapping_of s r (page_path (window_page j)) = None" and jw: "j < WindowPages" by (simp_all add: window_free_def)
  note j19 = WindowPages_less [OF jw]
  have nh: "\<not> covered_by_huge s r (window_page j)" using ok jw by (simp add: window_ok_def)
  let ?e = "(pa AND PointerMask) OR (fl OR Present)"
  from wf window_page_aligned [OF j19] pa(1) nh show ?thesis
  proof (cases rule: MapPage_cases [where fl = fl])
    case (ok s')
    note m = ok(5)
    have same: "page_path (window_page k) = page_path (window_page j) \<longleftrightarrow> k = j" if "k < WindowPages" for k
      using window_page_inj [OF WindowPages_less [OF that] j19] by auto
    have "window_free s' r = window_free s r - {j}" using m same by (auto simp: window_free_def split: if_splits)
    then have "card (window_free s r) = Suc (card (window_free s' r))" using j(1) by (simp add: card_Suc_Diff1 del: card_Diff_insert)
    moreover have "?e AND PointerMask \<noteq> 0" using pa(2) by (simp add: bit.conj_disj_distrib2 or_eq_0_iff)
    then have "window_ok s' r" using assms(2) m covered_by_huge_update [OF m [unfolded fun_upd_def [symmetric]]]
      by (auto simp: window_ok_def split: if_splits)
    ultimately show ?thesis using j(2) ok window_page_nonzero [OF j19] unfolding maps_page_def by blast
  qed (use un mem in auto)
qed

section \<open>The window after the take-over\<close>

text \<open>What the boot loader's tables must be like: no reserved bit in the root, and no huge page and no page at physical address 0 in the window.\<close>

definition boot_window_ok :: "table_mem \<Rightarrow> u64 \<Rightarrow> bool" where
  "boot_window_ok m cr3 \<longleftrightarrow> (\<forall>i < 512. \<not> huge (m cr3 i)) \<and>
     (\<forall>j < WindowPages. \<forall>fl e. hw_walk 4 m cr3 (page_path (window_page j)) = Some (fl, e) \<longrightarrow> length fl = 3 \<and> e AND PointerMask \<noteq> 0)"

definition boot_window_free :: "table_mem \<Rightarrow> u64 \<Rightarrow> nat set" where
  "boot_window_free m cr3 = {j. j < WindowPages \<and> hw_walk 4 m cr3 (page_path (window_page j)) = None}"

lemma hw_walk_depth: "hw_walk n m b q = Some (fl, e) \<Longrightarrow> length fl < n"
proof (induction n m b q arbitrary: fl rule: hw_walk.induct)
  case (1 n m t i "is")
  then show ?case by (auto split: if_splits)
qed simp_all

lemma page_path_bound: "set (page_path va) \<subseteq> {..<512}"
  by (rule indices [of va]) simp

lemma walk_page:
  assumes "ptree m r S" and "\<not> huge (m r (hd (page_path va)))" and "k < 4"
  shows "leaf_at m r (take (Suc k) (page_path va)) = Some e \<longleftrightarrow> (\<exists>fl. hw_walk 4 m r (page_path va) = Some (fl, e) \<and> length fl = k)"
  using walk_leaf [OF assms(1), of "[]" r 4 "page_path va" k e] assms(2,3) page_path_bound by simp

lemma hd_page_path: "hd (page_path va) < 512"
  by (rule indices [of va]) simp

lemma taken_over_window:
  assumes t: "taken_over S s s' r" and ok: "boot_window_ok (sys_mem s) (sys_cr3 s)"
  shows "window_ok s' r" and "window_free s' r = boot_window_free (sys_mem s) (sys_cr3 s)" and "\<forall>i < 512. \<not> huge (sys_mem s' r i)"
proof -
  have tree: "ptree (sys_mem s') r (owned s')" and w: "\<And>p. hw_walk 4 (sys_mem s') r p = hw_walk 4 (sys_mem s) (sys_cr3 s) p"
    using t unfolding taken_over_def pt_wf_def by blast+
  show root: "\<forall>i < 512. \<not> huge (sys_mem s' r i)" using t ok by (auto simp: taken_over_def boot_window_ok_def)
  have leaf: "mapping_of s' r (take (Suc k) (page_path va)) = Some e \<longleftrightarrow>
      (\<exists>fl. hw_walk 4 (sys_mem s) (sys_cr3 s) (page_path va) = Some (fl, e) \<and> length fl = k)" if "k < 4" for k va e
    using walk_page [OF tree _ that, of va e] root hd_page_path unfolding w by blast
  have full: "mapping_of s' r (page_path va) = Some e \<longleftrightarrow>
      (\<exists>fl. hw_walk 4 (sys_mem s) (sys_cr3 s) (page_path va) = Some (fl, e) \<and> length fl = 3)" for va e
    using leaf [of 3 va e] by simp
  have "\<not> covered_by_huge s' r (window_page j)" if "j < WindowPages" for j
  proof
    assume "covered_by_huge s' r (window_page j)"
    then obtain n e where "n \<in> {1..<4}" "mapping_of s' r (take n (page_path (window_page j))) = Some e" by (auto simp: covered_by_huge_def)
    moreover from this obtain k where "n = Suc k" "k < 3" by (cases n) auto
    ultimately obtain fl where "hw_walk 4 (sys_mem s) (sys_cr3 s) (page_path (window_page j)) = Some (fl, e)" "length fl = k"
      using leaf [of k "window_page j" e] by auto
    then show False using ok that \<open>k < 3\<close> unfolding boot_window_ok_def by fastforce
  qed
  then show "window_ok s' r" using ok by (auto simp: window_ok_def full boot_window_ok_def)
  have "mapping_of s' r (page_path (window_page j)) = None \<longleftrightarrow> hw_walk 4 (sys_mem s) (sys_cr3 s) (page_path (window_page j)) = None" if "j < WindowPages" for j
    using full [of "window_page j"] ok that by (cases "hw_walk 4 (sys_mem s) (sys_cr3 s) (page_path (window_page j))") (auto simp: boot_window_ok_def)
  then show "window_free s' r = boot_window_free (sys_mem s) (sys_cr3 s)" by (auto simp: window_free_def boot_window_free_def)
qed

text \<open>Pages that are added later leave the translations as they are.\<close>

lemma translations_kept:
  assumes tree: "ptree (sys_mem s) r S" "ptree (sys_mem s') r S'" and root: "\<forall>i < 512. \<not> huge (sys_mem s r i)"
    and ext: "mapping_of s r \<subseteq>\<^sub>m mapping_of s' r" and top: "\<And>i. mapping_of s' r [i] = mapping_of s r [i]"
    and walk: "hw_walk 4 (sys_mem s) r (page_path va) = Some (fl, e)"
  shows "\<exists>fl'. hw_walk 4 (sys_mem s') r (page_path va) = Some (fl', e) \<and> length fl' = length fl"
proof -
  have k: "length fl < 4" using hw_walk_depth [OF walk] .
  let ?i = "hd (page_path va)"
  have "leaf_at (sys_mem s) r ([] @ [?i]) = None" using root hd_page_path [of va] unfolding leaf_at_snoc by simp
  then have n: "leaf_at (sys_mem s') r ([] @ [?i]) = None" using top by simp
  have "\<not> huge (sys_mem s' r ?i)"
  proof
    assume h: "huge (sys_mem s' r ?i)"
    then have "sys_mem s' r ?i \<noteq> 0" by (auto simp: huge_def)
    then have "present (sys_mem s' r ?i)" using ptreeD(3) [OF tree(2) dir_Nil, of ?i] hd_page_path [of va] by simp
    then show False using n h hd_page_path [of va] unfolding leaf_at_snoc by simp
  qed
  moreover have "leaf_at (sys_mem s) r (take (Suc (length fl)) (page_path va)) = Some e"
    using walk_page [OF tree(1) _ k, of va e] root hd_page_path walk by blast
  then have "leaf_at (sys_mem s') r (take (Suc (length fl)) (page_path va)) = Some e" using ext by (force simp: map_le_def)
  ultimately show ?thesis using walk_page [OF tree(2) _ k, of va e] by blast
qed

end
