(* ===== verification/C_Strings.thy ===== *)
theory C_Strings
  imports Prelude "HOL-Library.Sublist"
begin

text \<open>
  Zero-terminated strings (\<^verbatim>\<open>Utility/cstring.cpp\<close>, \<^verbatim>\<open>Utility/cstring.h\<close>, \<^verbatim>\<open>Utility/StringUtils.cpp\<close>) and the
  byte copying routines (\<^verbatim>\<open>memops.cpp\<close>).

  A pointer to characters is modelled by the bytes from where it points to the end of the object it
  points into, so \<open>p + n\<close> is \<open>drop n p\<close> and a read past the object is the fault \<open>OutOfBounds\<close>. The byte
  copying routines work on overlapping memory, so they are modelled on a flat memory, a function from
  addresses to bytes.
\<close>

section \<open>Zero-terminated strings\<close>

abbreviation NUL :: char where "NUL \<equiv> CHR 0x00"

text \<open>The value of a character read as \<^verbatim>\<open>unsigned char\<close>.\<close>

definition uchar :: "char \<Rightarrow> int" where
  "uchar c = of_char c"

definition char_at :: "string \<Rightarrow> nat \<Rightarrow> fault + char" where
  "char_at p i = (if i < length p then Inr (p ! i) else Inl OutOfBounds)"

fun StringLength :: "string \<Rightarrow> fault + nat" where
  "StringLength [] = Inl OutOfBounds"
| "StringLength (c # p) = (if c = NUL then Inr 0 else bindR (StringLength p) (\<lambda>n. Inr (n + 1)))"

text \<open>\<^verbatim>\<open>strlen\<close> counts in an \<^verbatim>\<open>int\<close>; the model is the loop for strings shorter than \<open>2 ^ 31\<close>.\<close>

fun strlen_loop :: "string \<Rightarrow> int \<Rightarrow> fault + int" where
  "strlen_loop [] count = Inl OutOfBounds"
| "strlen_loop (c # p) count = (if c = NUL then Inr count else strlen_loop p (count + 1))"

definition strlen :: "string \<Rightarrow> fault + int" where
  "strlen p = strlen_loop p 0"

fun strcmp :: "string \<Rightarrow> string \<Rightarrow> fault + int" where
  "strcmp [] s2 = Inl OutOfBounds"
| "strcmp (a # s1) [] = Inl OutOfBounds"
| "strcmp (a # s1) (b # s2) = (if a \<noteq> NUL \<and> a = b then strcmp s1 s2 else Inr (uchar a - uchar b))"

fun strncmp :: "string \<Rightarrow> string \<Rightarrow> nat \<Rightarrow> fault + int" where
  "strncmp s1 s2 0 = Inr 0"
| "strncmp [] s2 (Suc n) = Inl OutOfBounds"
| "strncmp (a # s1) [] (Suc n) = Inl OutOfBounds"
| "strncmp (a # s1) (b # s2) (Suc n) =
     (if a \<noteq> b then Inr (uchar a - uchar b)
      else if a = NUL then Inr 0
      else strncmp s1 s2 n)"

text \<open>The searches return the pointer they find, here as the distance from the start.\<close>

fun strchr_loop :: "string \<Rightarrow> char \<Rightarrow> nat \<Rightarrow> fault + nat option" where
  "strchr_loop [] c i = Inl OutOfBounds"
| "strchr_loop (a # s) c i = (if a = NUL then Inr None else if a = c then Inr (Some i) else strchr_loop s c (i + 1))"

definition strchr :: "string \<Rightarrow> char \<Rightarrow> fault + nat option" where
  "strchr s c = strchr_loop s c 0"

text \<open>The inner loop of \<^verbatim>\<open>strstr\<close>: advance while both characters are equal and not zero; then test \<^verbatim>\<open>!*n\<close>.\<close>

fun strstr_match :: "string \<Rightarrow> string \<Rightarrow> fault + bool" where
  "strstr_match [] n = Inl OutOfBounds"
| "strstr_match (a # h) [] = Inl OutOfBounds"
| "strstr_match (a # h) (b # n) = (if a \<noteq> NUL \<and> b \<noteq> NUL \<and> a = b then strstr_match h n else Inr (b = NUL))"

fun strstr_loop :: "string \<Rightarrow> string \<Rightarrow> nat \<Rightarrow> fault + nat option" where
  "strstr_loop [] needle i = Inl OutOfBounds"
| "strstr_loop (a # h) needle i =
     (if a = NUL then Inr None
      else bindR (char_at needle 0) (\<lambda>b.
        if a = b
        then bindR (strstr_match (a # h) needle) (\<lambda>found.
               if found then Inr (Some i) else strstr_loop h needle (i + 1))
        else strstr_loop h needle (i + 1)))"

definition strstr :: "string \<Rightarrow> string \<Rightarrow> fault + nat option" where
  "strstr haystack needle =
     bindR (char_at needle 0) (\<lambda>b. if b = NUL then Inr (Some 0) else strstr_loop haystack needle 0)"

text \<open>\<^verbatim>\<open>strncpy\<close>: copy until the zero or the limit, then pad; writing past the destination is a fault.\<close>

fun strncpy_pad :: "string \<Rightarrow> nat \<Rightarrow> fault + string" where
  "strncpy_pad dest 0 = Inr dest"
| "strncpy_pad [] (Suc n) = Inl OutOfBounds"
| "strncpy_pad (d # dest) (Suc n) = bindR (strncpy_pad dest n) (\<lambda>r. Inr (NUL # r))"

fun strncpy :: "string \<Rightarrow> string \<Rightarrow> nat \<Rightarrow> fault + string" where
  "strncpy dest src 0 = Inr dest"
| "strncpy dest [] (Suc n) = Inl OutOfBounds"
| "strncpy dest (c # src) (Suc n) =
     (if c = NUL then strncpy_pad dest (Suc n)
      else case dest of [] \<Rightarrow> Inl OutOfBounds | d # dest' \<Rightarrow> bindR (strncpy dest' src n) (\<lambda>r. Inr (c # r)))"

definition IsCharWhitespace :: "char \<Rightarrow> bool" where
  "IsCharWhitespace c \<longleftrightarrow> c = CHR '' '' \<or> c = CHR 0x09 \<or> c = CHR 0x0A \<or> c = CHR 0x0B \<or> c = CHR 0x0C \<or> c = CHR 0x0D"

text \<open>A C string: characters other than zero, then the zero, then whatever follows in the object.\<close>

definition cstr :: "string \<Rightarrow> string \<Rightarrow> string" where
  "cstr s rest = s @ NUL # rest"

definition no_nul :: "string \<Rightarrow> bool" where
  "no_nul s \<longleftrightarrow> NUL \<notin> set s"

lemma no_nul_simps [simp]: "no_nul []" "no_nul (c # s) \<longleftrightarrow> c \<noteq> NUL \<and> no_nul s" "no_nul (s @ t) \<longleftrightarrow> no_nul s \<and> no_nul t"
  by (auto simp: no_nul_def)

lemma cstr_simps [simp]: "cstr [] r = NUL # r" "cstr (c # s) r = c # cstr s r"
  by (simp_all add: cstr_def)

lemma uchar_inj [simp]: "uchar a - uchar b = 0 \<longleftrightarrow> a = b" "uchar a = uchar b \<longleftrightarrow> a = b"
  by (auto simp: uchar_def)

lemma StringLength_cstr [simp]: "no_nul s \<Longrightarrow> StringLength (cstr s r) = Inr (length s)"
  by (induction s) auto

lemma strlen_loop_cstr: "no_nul s \<Longrightarrow> strlen_loop (cstr s r) k = Inr (k + int (length s))"
  by (induction s arbitrary: k) auto

lemma strlen_cstr [simp]: "no_nul s \<Longrightarrow> strlen (cstr s r) = Inr (int (length s))"
  by (simp add: strlen_def strlen_loop_cstr)

lemma strcmp_cstr_total: "no_nul s \<Longrightarrow> no_nul t \<Longrightarrow> \<exists>d. strcmp (cstr s r) (cstr t q) = Inr d \<and> (d = 0 \<longleftrightarrow> s = t)"
proof (induction s arbitrary: t)
  case Nil
  then show ?case by (cases t) auto
next
  case (Cons a s)
  then show ?case by (cases t) auto
qed

text \<open>\<^verbatim>\<open>strncmp\<close> on two readable ranges that contain no zero before their end compares the ranges.\<close>

lemma strncmp_eq:
  assumes "length s = n" and "length t = n" and "no_nul s \<or> no_nul t"
  shows "\<exists>d. strncmp (s @ r) (t @ q) n = Inr d \<and> (d = 0 \<longleftrightarrow> s = t)"
  using assms
proof (induction s arbitrary: t n)
  case (Cons a s)
  then obtain b t' where "t = b # t'" by (cases t) auto
  with Cons show ?case by auto
qed simp

lemma strstr_match_cstr:
  "no_nul h \<Longrightarrow> no_nul n \<Longrightarrow> strstr_match (cstr h r) (cstr n q) = Inr (prefix n h)"
proof (induction h arbitrary: n)
  case Nil
  then show ?case by (cases n) auto
next
  case (Cons a h)
  then show ?case by (cases n) auto
qed

lemma strstr_loop_cstr:
  assumes "no_nul h" and "no_nul n" and "n \<noteq> []"
  shows "strstr_loop (cstr h r) (cstr n q) k =
    Inr (if \<exists>i. prefix n (drop i h) then Some (k + (LEAST i. prefix n (drop i h))) else None)"
  using assms
proof (induction h arbitrary: k)
  case Nil
  then show ?case by auto
next
  case (Cons a h)
  have b: "char_at (cstr n q) 0 = Inr (hd n)" using Cons.prems by (cases n) (auto simp: char_at_def)
  show ?case
  proof (cases "prefix n (a # h)")
    case True
    have "hd n = a" using True Cons.prems(3) by (cases n) auto
    moreover have "(LEAST i. prefix n (drop i (a # h))) = 0" using True by (intro Least_eq_0) simp
    moreover have "strstr_match (a # cstr h r) (cstr n q) = Inr True"
      using strstr_match_cstr [of "a # h" n r q] Cons.prems True by simp
    ultimately show ?thesis using True b Cons.prems by (auto intro: exI [of _ 0])
  next
    case False
    have ex: "(\<exists>i. prefix n (drop i (a # h))) \<longleftrightarrow> (\<exists>i. prefix n (drop i h))"
      using False by (metis drop0 drop_Suc_Cons not0_implies_Suc)
    have m: "strstr_match (a # cstr h r) (cstr n q) = Inr False"
      using strstr_match_cstr [of "a # h" n r q] Cons.prems False by simp
    have "(LEAST i. prefix n (drop i (a # h))) = Suc (LEAST i. prefix n (drop i h))" if ex: "\<exists>i. prefix n (drop i h)"
    proof -
      from ex obtain i where "prefix n (drop (Suc i) (a # h))" by auto
      from Least_Suc [of "\<lambda>i. prefix n (drop i (a # h))", OF this] False show ?thesis by simp
    qed
    then show ?thesis using Cons ex b m by auto
  qed
qed

section \<open>Byte copying\<close>

type_synonym memory = "nat \<Rightarrow> u8"

definition memcpy :: "nat \<Rightarrow> nat \<Rightarrow> nat \<Rightarrow> memory \<Rightarrow> memory" where
  "memcpy dest src n m = fold (\<lambda>i m. m(dest + i := m (src + i))) [0..<n] m"

definition memset :: "nat \<Rightarrow> int \<Rightarrow> nat \<Rightarrow> memory \<Rightarrow> memory" where
  "memset s c n m = fold (\<lambda>i m. m(s + i := word_of_int c)) [0..<n] m"

definition memmove :: "nat \<Rightarrow> nat \<Rightarrow> nat \<Rightarrow> memory \<Rightarrow> memory" where
  "memmove dest src n m =
     (if src > dest then fold (\<lambda>i m. m(dest + i := m (src + i))) [0..<n] m
      else if src < dest then fold (\<lambda>i m. m(dest + (i - 1) := m (src + (i - 1)))) (rev [1..<n + 1]) m
      else m)"

fun memcmp_loop :: "nat list \<Rightarrow> nat \<Rightarrow> nat \<Rightarrow> memory \<Rightarrow> int" where
  "memcmp_loop [] s1 s2 m = 0"
| "memcmp_loop (i # is) s1 s2 m =
     (if m (s1 + i) \<noteq> m (s2 + i) then (if m (s1 + i) < m (s2 + i) then -1 else 1) else memcmp_loop is s1 s2 m)"

definition memcmp :: "nat \<Rightarrow> nat \<Rightarrow> nat \<Rightarrow> memory \<Rightarrow> int" where
  "memcmp s1 s2 n m = memcmp_loop [0..<n] s1 s2 m"

text \<open>The intended meaning: every destination byte gets what the source byte held at the start.\<close>

definition copied :: "nat \<Rightarrow> nat \<Rightarrow> nat \<Rightarrow> memory \<Rightarrow> memory" where
  "copied dest src n m = (\<lambda>a. if dest \<le> a \<and> a < dest + n then m (src + (a - dest)) else m a)"

lemma copy_up:
  assumes "dest < src \<or> src + n \<le> dest"
  shows "fold (\<lambda>i m. m(dest + i := m (src + i))) [0..<n] m = copied dest src n m"
  using assms
proof (induction n)
  case (Suc n)
  then have "dest < src \<or> src + n \<le> dest" by auto
  with Suc show ?case by (auto simp: copied_def fun_eq_iff)
qed (auto simp: copied_def fun_eq_iff)

lemma copy_down:
  assumes "src < dest" and "k \<le> n"
  shows "fold (\<lambda>i m. m(dest + (i - 1) := m (src + (i - 1)))) (rev [k + 1..<n + 1]) m =
    (\<lambda>a. if dest + k \<le> a \<and> a < dest + n then m (src + (a - dest)) else m a)"
  using assms(2)
proof (induction "n - k" arbitrary: k)
  case 0
  then show ?case by (auto simp: fun_eq_iff)
next
  case (Suc d)
  then have k: "k < n" "d = n - Suc k" by auto
  have "rev [k + 1..<n + 1] = rev [Suc k + 1..<n + 1] @ [k + 1]" using k by (simp add: upt_conv_Cons)
  with Suc.hyps(1) [OF k(2)] k assms(1) show ?case by (auto simp: fun_eq_iff)
qed

lemma memmove_copied: "memmove dest src n m = copied dest src n m"
proof -
  consider "src > dest" | "src < dest" | "src = dest" by linarith
  then show ?thesis
  proof cases
    case 1
    then show ?thesis by (simp add: memmove_def copy_up)
  next
    case 2
    then show ?thesis using copy_down [of src dest 0 n m] by (simp add: memmove_def copied_def)
  next
    case 3
    then show ?thesis by (auto simp: memmove_def copied_def)
  qed
qed

lemma memcmp_zero_iff: "memcmp s1 s2 n m = 0 \<longleftrightarrow> (\<forall>i < n. m (s1 + i) = m (s2 + i))"
proof -
  have "memcmp_loop is s1 s2 m = 0 \<longleftrightarrow> (\<forall>i \<in> set is. m (s1 + i) = m (s2 + i))" for "is"
    by (induction "is") auto
  then show ?thesis by (auto simp: memcmp_def)
qed

section \<open>Properties\<close>

text \<open>
  C14. \<^verbatim>\<open>memmove\<close> is correct for every overlap of source and destination: each destination byte ends up
  with what the corresponding source byte held before the call, and no other byte changes.
  \<^verbatim>\<open>memcpy\<close> gives the same result when the destination does not start inside the source.
\<close>

theorem memmove_overlap:
  "memmove dest src n m = (\<lambda>a. if dest \<le> a \<and> a < dest + n then m (src + (a - dest)) else m a) \<and>
   (dest < src \<or> src + n \<le> dest \<longrightarrow> memcpy dest src n m = memmove dest src n m)"
  using copy_up [of dest src n m] by (simp add: memmove_copied memcpy_def) (simp add: copied_def)

theorem memmove_overlap_witness:
  "memcpy 0 2 3 (\<lambda>a. of_nat a) = memmove 0 2 3 (\<lambda>a. of_nat a) \<and> memmove 0 2 3 (\<lambda>a. of_nat a) 1 = 3"
  using memmove_overlap [of 0 2 3 "\<lambda>a. of_nat a"] by simp

text \<open>
  C15. \<^verbatim>\<open>strstr\<close> on two C strings never reads outside them and returns the first occurrence of the needle,
  or a null pointer exactly when it does not occur.
\<close>

theorem strstr_first_occurrence:
  assumes "no_nul h" and "no_nul n"
  shows "strstr (cstr h r) (cstr n q) =
    Inr (if \<exists>i. prefix n (drop i h) then Some (LEAST i. prefix n (drop i h)) else None)"
proof (cases n)
  case Nil
  then show ?thesis by (auto simp: strstr_def char_at_def intro!: Least_eq_0 [symmetric])
next
  case (Cons a n')
  then show ?thesis using strstr_loop_cstr [OF assms, of r q 0] assms by (simp add: strstr_def char_at_def)
qed

theorem strstr_first_occurrence_witness:
  "strstr (cstr ''xabab'' []) (cstr ''ab'' ''tail'') = Inr (Some 1)"
proof -
  have "(LEAST i. prefix ''ab'' (drop i ''xabab'')) = 1"
  proof (rule Least_equality)
    fix y assume "prefix ''ab'' (drop y ''xabab'')"
    then show "1 \<le> y" by (cases y) auto
  qed simp
  moreover have "\<exists>i. prefix ''ab'' (drop i ''xabab'')" by (rule exI [of _ 1]) simp
  ultimately show ?thesis using strstr_first_occurrence [of "''xabab''" "''ab''" "[]" "''tail''"] by simp
qed

end
