(* ===== verification/String_View.thy ===== *)
theory String_View
  imports C_Strings
begin

text \<open>
  Non-owning views of characters (\<^verbatim>\<open>Utility/StringView.h\<close>): a pointer and a size. The size is a
  \<^verbatim>\<open>size_t\<close>, modelled as a natural number below \<open>2 ^ 64\<close>; the subtraction that can wrap is \<open>sub64\<close>.
  \<open>view_ok\<close> says that the view lies inside the object it points into; \<open>view_text\<close> is what it shows.
\<close>

record StringView =
  sv_data :: string
  sv_size :: nat

definition npos :: nat where "npos = 2 ^ 64 - 1"

definition sub64 :: "nat \<Rightarrow> nat \<Rightarrow> nat" where
  "sub64 a b = (a + 2 ^ 64 - b) mod 2 ^ 64"

section \<open>Operations\<close>

text \<open>The constructor from a zero-terminated string, and the view of a string literal.\<close>

definition view_of_cstr :: "string \<Rightarrow> fault + StringView" where
  "view_of_cstr p = bindR (StringLength p) (\<lambda>n. Inr \<lparr>sv_data = p, sv_size = n\<rparr>)"

definition lit :: "string \<Rightarrow> StringView" where
  "lit s = \<lparr>sv_data = cstr s [], sv_size = length s\<rparr>"

definition sv_eq :: "StringView \<Rightarrow> StringView \<Rightarrow> fault + bool" where
  "sv_eq a b =
     (if sv_size a \<noteq> sv_size b then Inr False
      else bindR (strncmp (sv_data a) (sv_data b) (sv_size a)) (\<lambda>d. Inr (d = 0)))"

definition Compare :: "StringView \<Rightarrow> string \<Rightarrow> fault + int" where
  "Compare v path = strncmp (sv_data v) path (sv_size v)"

definition Substring :: "StringView \<Rightarrow> nat \<Rightarrow> nat \<Rightarrow> StringView" where
  "Substring v start len =
     (if start \<ge> sv_size v then \<lparr>sv_data = drop (sv_size v) (sv_data v), sv_size = 0\<rparr>
      else \<lparr>sv_data = drop start (sv_data v), sv_size = len\<rparr>)"

definition SubstringFrom :: "StringView \<Rightarrow> nat \<Rightarrow> StringView" where
  "SubstringFrom v start =
     (if start \<ge> sv_size v then \<lparr>sv_data = drop (sv_size v) (sv_data v), sv_size = 0\<rparr>
      else \<lparr>sv_data = drop start (sv_data v), sv_size = sv_size v - start\<rparr>)"

text \<open>
  \<^verbatim>\<open>CountOf\<close>: after a match the index moves by the needle's size less one, which for an empty needle
  wraps and with the loop's own increment leaves the index where it was: the loop does not end.
\<close>

function count_loop :: "StringView \<Rightarrow> StringView \<Rightarrow> nat \<Rightarrow> nat \<Rightarrow> fault + nat" where
  "count_loop v needle i count =
     (if i < sv_size v then
        bindR (strncmp (drop i (sv_data v)) (sv_data needle) (sv_size needle)) (\<lambda>d.
          if d = 0 then
            (if sv_size needle = 0 then Inl Hang
             else count_loop v needle (i + (sv_size needle - 1) + 1) (count + 1))
          else count_loop v needle (i + 1) count)
      else Inr count)"
  by pat_completeness auto
termination by (relation "measure (\<lambda>(v, needle, i, count). sv_size v - i)") auto

declare count_loop.simps [simp del]

definition CountOf :: "StringView \<Rightarrow> StringView \<Rightarrow> fault + nat" where
  "CountOf v needle = count_loop v needle 0 0"

text \<open>
  \<^verbatim>\<open>IndexOf\<close>: the bound is \<open>_size - needle._size\<close> and wraps when the needle is longer than the view; the scan
  then leaves the view, and it is stopped in the model when it leaves the object.
\<close>

function index_loop :: "StringView \<Rightarrow> StringView \<Rightarrow> nat \<Rightarrow> nat \<Rightarrow> fault + nat" where
  "index_loop v needle bound i =
     (if i \<le> bound then
        (if i > length (sv_data v) then Inl OutOfBounds
         else bindR (strncmp (drop i (sv_data v)) (sv_data needle) (sv_size needle)) (\<lambda>d.
           if d = 0 then Inr i else index_loop v needle bound (i + 1)))
      else Inr npos)"
  by pat_completeness auto
termination by (relation "measure (\<lambda>(v, needle, bound, i). length (sv_data v) + 1 - i)") auto

declare index_loop.simps [simp del]

definition IndexOf :: "StringView \<Rightarrow> StringView \<Rightarrow> fault + nat" where
  "IndexOf v needle = index_loop v needle (sub64 (sv_size v) (sv_size needle)) 0"

section \<open>What a view shows\<close>

lemma sub64_le: "b \<le> a \<Longrightarrow> a < 2 ^ 64 \<Longrightarrow> sub64 a b = a - b"
proof -
  assume "b \<le> a" "a < 2 ^ 64"
  then have "a + 2 ^ 64 - b = (a - b) + 2 ^ 64" "a - b < 2 ^ 64" by simp_all
  then show ?thesis by (simp only: sub64_def mod_add_self2 mod_less)
qed

definition view_ok :: "StringView \<Rightarrow> bool" where
  "view_ok v \<longleftrightarrow> sv_size v \<le> length (sv_data v)"

definition view_text :: "StringView \<Rightarrow> string" where
  "view_text v = take (sv_size v) (sv_data v)"

lemma length_view_text [simp]: "view_ok v \<Longrightarrow> length (view_text v) = sv_size v"
  by (simp add: view_ok_def view_text_def)

lemma view_data: "view_ok v \<Longrightarrow> sv_data v = view_text v @ drop (sv_size v) (sv_data v)"
  by (simp add: view_text_def)

lemma lit_simps [simp]: "view_ok (lit s)" "view_text (lit s) = s" "sv_size (lit s) = length s"
  by (simp_all add: lit_def view_ok_def view_text_def cstr_def)

lemma sv_eq_text:
  assumes "view_ok a" and "view_ok b" and "no_nul (view_text a) \<or> no_nul (view_text b)"
  shows "sv_eq a b = Inr (view_text a = view_text b)"
proof (cases "sv_size a = sv_size b")
  case True
  obtain d where "strncmp (view_text a @ drop (sv_size a) (sv_data a)) (view_text b @ drop (sv_size b) (sv_data b)) (sv_size a) = Inr d"
      "d = 0 \<longleftrightarrow> view_text a = view_text b"
    using strncmp_eq [of "view_text a" "sv_size a" "view_text b"] assms True by auto
  then show ?thesis using True view_data [OF assms(1)] view_data [OF assms(2)] by (simp add: sv_eq_def)
next
  case False
  then have "view_text a \<noteq> view_text b" using assms(1,2) by (metis length_view_text)
  then show ?thesis using False by (simp add: sv_eq_def)
qed

lemma Substring_text:
  assumes "view_ok v" and "start + len \<le> sv_size v"
  shows "view_ok (Substring v start len)" "view_text (Substring v start len) = take len (drop start (view_text v))"
  using assms by (auto simp: Substring_def view_ok_def view_text_def drop_take min_def)

lemma SubstringFrom_text:
  assumes "view_ok v"
  shows "view_ok (SubstringFrom v start)" "view_text (SubstringFrom v start) = drop start (view_text v)"
  using assms by (auto simp: SubstringFrom_def view_ok_def view_text_def drop_take)

text \<open>One character of a view, as the code compares it: \<^verbatim>\<open>src.Substring(pos, 1) == "c"\<close>.\<close>

lemma Substring_char:
  assumes "view_ok v" and "c \<noteq> NUL"
  shows "sv_eq (Substring v i 1) (lit [c]) = Inr (i < sv_size v \<and> view_text v ! i = c)"
proof (cases "i < sv_size v")
  case True
  then have s: "view_ok (Substring v i 1)" "view_text (Substring v i 1) = take 1 (drop i (view_text v))"
    using Substring_text [OF assms(1), of i 1] by auto
  have "take 1 (drop i (view_text v)) = [view_text v ! i]"
    using True assms(1) by (simp add: take_Suc_conv_app_nth hd_drop_conv_nth take_Suc)
  then show ?thesis using True s assms(2) by (simp add: sv_eq_text)
next
  case False
  then show ?thesis by (simp add: Substring_def sv_eq_def)
qed

lemmas Substring_char_Suc = Substring_char [unfolded One_nat_def]

text \<open>Searching a view for one character.\<close>

lemma strncmp_char:
  assumes "view_ok v" and "i < sv_size v" and "c \<noteq> NUL"
  shows "\<exists>d. strncmp (drop i (sv_data v)) (sv_data (lit [c])) (Suc 0) = Inr d \<and> (d = 0 \<longleftrightarrow> view_text v ! i = c)"
proof -
  have "i < length (sv_data v)" using assms by (simp add: view_ok_def)
  then have "drop i (sv_data v) = view_text v ! i # drop (Suc i) (sv_data v)"
    using assms(2) by (simp add: Cons_nth_drop_Suc view_text_def)
  then show ?thesis using assms(3) by (auto simp: lit_def)
qed

lemma index_loop_char:
  assumes ok: "view_ok v" and c: "c \<noteq> NUL" and "sv_size v < 2 ^ 64" and ne: "0 < sv_size v" and "i \<le> sv_size v"
    and before: "\<forall>j < i. view_text v ! j \<noteq> c"
  shows "index_loop v (lit [c]) (sv_size v - 1) i =
    Inr (if c \<in> set (view_text v) then LEAST j. j < sv_size v \<and> view_text v ! j = c else npos)"
  using assms(5) before
proof (induction "sv_size v - i" arbitrary: i)
  case 0
  then have "i = sv_size v" by simp
  then have "c \<notin> set (view_text v)" using 0(3) ok by (metis in_set_conv_nth length_view_text)
  then show ?case using \<open>i = sv_size v\<close> ne by (subst index_loop.simps) simp
next
  case (Suc d)
  then have i: "i < sv_size v" by simp
  obtain r where r: "strncmp (drop i (sv_data v)) (sv_data (lit [c])) (Suc 0) = Inr r" "r = 0 \<longleftrightarrow> view_text v ! i = c"
    using strncmp_char [OF ok i c] by blast
  have lt: "\<not> length (sv_data v) < i" "i \<le> sv_size v - 1" using i ok by (auto simp: view_ok_def)
  show ?case
  proof (cases "view_text v ! i = c")
    case True
    then have "(LEAST j. j < sv_size v \<and> view_text v ! j = c) = i"
      using Suc.prems(2) i by (intro Least_equality) (auto simp: not_less [symmetric])
    moreover have "c \<in> set (view_text v)" using True i ok nth_mem by fastforce
    ultimately show ?thesis using True i lt r by (subst index_loop.simps) simp
  next
    case False
    then have "\<forall>j < i + 1. view_text v ! j \<noteq> c" using Suc.prems(2) less_Suc_eq by auto
    moreover have "index_loop v (lit [c]) (sv_size v - 1) i = index_loop v (lit [c]) (sv_size v - 1) (i + 1)"
      using False i lt r by (subst index_loop.simps) simp
    ultimately show ?thesis using Suc.hyps(1) [of "i + 1"] Suc.hyps(2) i by simp
  qed
qed

lemma IndexOf_char:
  assumes "view_ok v" and "c \<noteq> NUL" and "0 < sv_size v" and "sv_size v < 2 ^ 64"
  shows "IndexOf v (lit [c]) =
    Inr (if c \<in> set (view_text v) then LEAST j. j < sv_size v \<and> view_text v ! j = c else npos)"
proof -
  have "sub64 (sv_size v) (sv_size (lit [c])) = sv_size v - 1"
    using assms(3,4) by (simp add: sub64_le)
  then show ?thesis using index_loop_char [OF assms(1,2,4,3)] by (simp add: IndexOf_def)
qed

lemma count_loop_char:
  assumes ok: "view_ok v" and c: "c \<noteq> NUL" and "i \<le> sv_size v"
  shows "count_loop v (lit [c]) i k = Inr (k + count_list (drop i (view_text v)) c)"
  using assms(3)
proof (induction "sv_size v - i" arbitrary: i k)
  case 0
  then have "i = sv_size v" by simp
  then show ?case using ok by (subst count_loop.simps) simp
next
  case (Suc d)
  then have i: "i < sv_size v" by simp
  obtain r where r: "strncmp (drop i (sv_data v)) (sv_data (lit [c])) (Suc 0) = Inr r" "r = 0 \<longleftrightarrow> view_text v ! i = c"
    using strncmp_char [OF ok i c] by blast
  have dr: "drop i (view_text v) = view_text v ! i # drop (i + 1) (view_text v)"
    using i ok by (simp add: Cons_nth_drop_Suc)
  show ?case
    using Suc.hyps(1) [of "i + 1"] Suc.hyps(2) i r by (subst count_loop.simps) (auto simp: dr)
qed

lemma CountOf_char:
  assumes "view_ok v" and "c \<noteq> NUL"
  shows "CountOf v (lit [c]) = Inr (count_list (view_text v) c)"
  using count_loop_char [OF assms, of 0 0] by (simp add: CountOf_def)

text \<open>A needle longer than the view: the bound wraps and the search runs off the end of the object.\<close>

lemma IndexOf_empty_view_overrun:
  assumes "c \<notin> set d" and "c \<noteq> NUL" and "length d < 2 ^ 63"
  shows "IndexOf \<lparr>sv_data = d, sv_size = 0\<rparr> (lit [c]) = Inl OutOfBounds"
proof -
  let ?v = "\<lparr>sv_data = d, sv_size = 0\<rparr>"
  have "index_loop ?v (lit [c]) npos i = Inl OutOfBounds" if "i \<le> length d" for i
    using that
  proof (induction "length d - i" arbitrary: i)
    case 0
    then show ?case using assms(3) by (subst index_loop.simps) (simp add: npos_def)
  next
    case (Suc k)
    then have i: "i < length d" by simp
    then have "drop i d = d ! i # drop (Suc i) d" "d ! i \<noteq> c" using assms(1) by (auto simp: Cons_nth_drop_Suc)
    then have "index_loop ?v (lit [c]) npos i = index_loop ?v (lit [c]) npos (Suc i)"
      using i assms(3) by (subst index_loop.simps) (auto simp: lit_def npos_def)
    then show ?case using Suc.hyps(1) [of "Suc i"] Suc.hyps(2) i by simp
  qed
  then show ?thesis by (simp add: IndexOf_def sub64_def npos_def)
qed

end
