(* ===== verification/Doubles.thy ===== *)
theory Doubles
  imports Prelude
begin

text \<open>
  Floating point numbers as \<^verbatim>\<open>Utility/Formatter.cpp\<close> uses them. A \<^verbatim>\<open>double\<close> is its bit pattern, which the
  code reads through the union \<^verbatim>\<open>DoubleBits\<close>; a \<^verbatim>\<open>float\<close> is its bit pattern of 32 bits. Every finite
  \<^verbatim>\<open>double\<close> is a whole number of units of \<open>2 ^ -1074\<close>, the smallest positive one, so the value of a
  finite \<^verbatim>\<open>double\<close> is an integer here and the arithmetic of the code stays on integers: the exact
  result, rounded to the nearest value with 53 significant bits, ties to the even one. The numbers the
  code computes with are below \<open>2 ^ 64\<close>, so no operation overflows to an infinity.

  The kernel is built without SSE2, and an operation may be done in the registers of the floating point
  unit, with 64 significant bits, and rounded when its result is stored. For the operations below the
  result is the same: the product of a \<^verbatim>\<open>double\<close> and ten has at most 57 significant bits, and the differences
  are exact.
\<close>

section \<open>Bit patterns\<close>

definition doubleExpMask :: u64 where "doubleExpMask = 0x7FF0000000000000"
definition doubleMantMask :: u64 where "doubleMantMask = 0x000FFFFFFFFFFFFF"
definition doubleSignMask :: u64 where "doubleSignMask = 0x8000000000000000"

definition IsNan :: "u64 \<Rightarrow> bool" where
  "IsNan bits \<longleftrightarrow> bits AND doubleExpMask = doubleExpMask \<and> bits AND doubleMantMask \<noteq> 0"

definition IsInf :: "u64 \<Rightarrow> bool" where
  "IsInf bits \<longleftrightarrow> bits AND doubleExpMask = doubleExpMask \<and> bits AND doubleMantMask = 0"

definition SignBit :: "u64 \<Rightarrow> bool" where
  "SignBit bits \<longleftrightarrow> bits AND doubleSignMask \<noteq> 0"

text \<open>The fields of a \<^verbatim>\<open>double\<close>, and its magnitude in units. The exponent field 0 marks zero and the subnormal numbers.\<close>

definition exponent_field :: "u64 \<Rightarrow> nat" where
  "exponent_field bits = unat bits div 2 ^ 52 mod 2 ^ 11"

definition mantissa_field :: "u64 \<Rightarrow> nat" where
  "mantissa_field bits = unat bits mod 2 ^ 52"

definition magnitude :: "u64 \<Rightarrow> nat" where
  "magnitude bits =
     (if exponent_field bits = 0 then mantissa_field bits
      else (2 ^ 52 + mantissa_field bits) * 2 ^ (exponent_field bits - 1))"

definition double_value :: "u64 \<Rightarrow> int" where
  "double_value bits = (if SignBit bits then - int (magnitude bits) else int (magnitude bits))"

text \<open>The number of units in 1.\<close>

definition unit_count :: nat where
  "unit_count = 2 ^ 1074"

text \<open>Negation of a \<^verbatim>\<open>double\<close> flips its sign bit.\<close>

definition negate_double :: "u64 \<Rightarrow> u64" where
  "negate_double bits = bits XOR doubleSignMask"

section \<open>Arithmetic\<close>

text \<open>The number of low bits a number has beyond its 53 leading ones.\<close>

fun excess :: "nat \<Rightarrow> nat" where
  "excess n = (if n < 2 ^ 53 then 0 else Suc (excess (n div 2)))"

declare excess.simps [simp del]

definition round_units :: "nat \<Rightarrow> nat" where
  "round_units n =
     (let k = excess n; q = n div 2 ^ k; r = n mod 2 ^ k
      in 2 ^ k * (if 2 * r > 2 ^ k \<or> 2 * r = 2 ^ k \<and> odd q then q + 1 else q))"

definition round_double :: "int \<Rightarrow> int" where
  "round_double z = sgn z * int (round_units (nat \<bar>z\<bar>))"

definition double_mult :: "int \<Rightarrow> int \<Rightarrow> int" where
  "double_mult x n = round_double (x * n)"

definition double_minus :: "int \<Rightarrow> int \<Rightarrow> int" where
  "double_minus x y = round_double (x - y)"

text \<open>
  The conversion of an integer, and the conversion to an integer type of a given range, which drops the
  fraction and is undefined when the result does not fit.
\<close>

definition double_of_int :: "int \<Rightarrow> int" where
  "double_of_int i = round_double (i * int unit_count)"

definition int_of_double :: "int \<Rightarrow> int \<Rightarrow> int \<Rightarrow> fault + int" where
  "int_of_double lo hi x =
     (let i = sgn x * (\<bar>x\<bar> div int unit_count)
      in if lo \<le> i \<and> i \<le> hi then Inr i else Inl BadCast)"

text \<open>The \<^verbatim>\<open>double\<close> with the value of a \<^verbatim>\<open>float\<close>; one that is not a number becomes a quiet one.\<close>

fun top_bit :: "nat \<Rightarrow> nat" where
  "top_bit n = (if n < 2 then 0 else Suc (top_bit (n div 2)))"

declare top_bit.simps [simp del]

definition double_of_float :: "u32 \<Rightarrow> u64" where
  "double_of_float bits =
     (let s = unat bits div 2 ^ 31; e = unat bits div 2 ^ 23 mod 2 ^ 8; m = unat bits mod 2 ^ 23
      in of_nat (s * 2 ^ 63 +
        (if e = 255 then 2047 * 2 ^ 52 + (if m = 0 then 0 else 2 ^ 51 + m mod 2 ^ 22 * 2 ^ 29)
         else if e \<noteq> 0 then (e + 896) * 2 ^ 52 + m * 2 ^ 29
         else if m = 0 then 0
         else (top_bit m + 874) * 2 ^ 52 + (m - 2 ^ top_bit m) * 2 ^ (52 - top_bit m))))"

section \<open>Representable numbers\<close>

text \<open>The numbers with at most 53 significant bits.\<close>

definition representable :: "nat \<Rightarrow> bool" where
  "representable n \<longleftrightarrow> (\<exists>m j. m < 2 ^ 53 \<and> n = m * 2 ^ j)"

lemma representableI: "m < 2 ^ 53 \<Longrightarrow> n = m * 2 ^ j \<Longrightarrow> representable n"
  by (auto simp: representable_def)

lemma representable_small: "n < 2 ^ 53 \<Longrightarrow> representable n"
  by (rule representableI [of n _ 0]) simp_all

lemma excess_div: "n div 2 ^ excess n < 2 ^ 53"
proof (induction n rule: excess.induct)
  case (1 n)
  then show ?case by (subst excess.simps) (simp add: div_mult2_eq)
qed

lemma excess_large: "excess n \<noteq> 0 \<Longrightarrow> 2 ^ (52 + excess n) \<le> n"
proof (induction n rule: excess.induct)
  case (1 n)
  then have big: "\<not> n < 2 ^ 53" by (auto simp: excess.simps [of n])
  then have ex: "excess n = Suc (excess (n div 2))" by (simp add: excess.simps [of n])
  show ?case
  proof (cases "excess (n div 2) = 0")
    case True
    then show ?thesis using big ex by simp
  next
    case False
    then have "2 * 2 ^ (52 + excess (n div 2)) \<le> 2 * (n div 2)" using 1(1) [OF big] by simp
    also have "\<dots> \<le> n" by simp
    finally show ?thesis by (simp only: ex add_Suc_right power_Suc)
  qed
qed

lemma excess_less: "n < 2 ^ (53 + k) \<Longrightarrow> excess n \<le> k"
proof (rule ccontr)
  assume lt: "n < 2 ^ (53 + k)" and "\<not> excess n \<le> k"
  then have "53 + k \<le> 52 + excess n" "excess n \<noteq> 0" by simp_all
  then have "(2::nat) ^ (53 + k) \<le> 2 ^ (52 + excess n)" "2 ^ (52 + excess n) \<le> n"
    by (intro power_increasing excess_large; simp)+
  then have "(2::nat) ^ (53 + k) \<le> n" by (rule order_trans)
  then show False using lt by simp
qed

lemma round_units_exact:
  assumes "representable n"
  shows "round_units n = n"
proof -
  from assms obtain m j where mj: "m < 2 ^ 53" "n = m * 2 ^ j" by (auto simp: representable_def)
  then have "n < 2 ^ (53 + j)" by (simp add: power_add)
  then have "excess n \<le> j" by (rule excess_less)
  then have "2 ^ excess n dvd n" using mj(2) by (simp add: dvd_mult le_imp_power_dvd)
  then show ?thesis by (auto simp: round_units_def Let_def)
qed

text \<open>The rounded value is representable, and at most half a unit in the last place away.\<close>

lemma round_units_representable: "representable (round_units n)"
proof -
  define q where "q = (if 2 * (n mod 2 ^ excess n) > 2 ^ excess n \<or> 2 * (n mod 2 ^ excess n) = 2 ^ excess n \<and> odd (n div 2 ^ excess n)
    then n div 2 ^ excess n + 1 else n div 2 ^ excess n)"
  have r: "round_units n = q * 2 ^ excess n" by (simp add: round_units_def q_def Let_def)
  have "q \<le> 2 ^ 53" using excess_div [of n] by (simp add: q_def)
  then consider "q < 2 ^ 53" | "q = 2 ^ 53" by linarith
  then show ?thesis
  proof cases
    case 2
    then show ?thesis using r by (intro representableI [of 1 _ "53 + excess n"]) (simp_all add: power_add)
  qed (use r in \<open>auto intro: representableI\<close>)
qed

lemma round_units_near: "2 * round_units n \<le> 2 * n + 2 ^ excess n" "2 * n \<le> 2 * round_units n + 2 ^ excess n"
proof -
  define k q r where "k = (2::nat) ^ excess n" and "q = n div k" and "r = n mod k"
  have n: "n = k * q + r" and "r < k" by (simp_all add: q_def r_def k_def)
  moreover have "round_units n = k * (if 2 * r > k \<or> 2 * r = k \<and> odd q then q + 1 else q)"
    by (simp add: round_units_def Let_def k_def q_def r_def)
  ultimately show "2 * round_units n \<le> 2 * n + 2 ^ excess n" "2 * n \<le> 2 * round_units n + 2 ^ excess n"
    unfolding k_def [symmetric] by (auto simp: algebra_simps)
qed

lemma representable_pow:
  assumes "representable n"
  shows "representable (n mod 2 ^ k)" and "representable (n div 2 ^ k * 2 ^ k)"
proof -
  from assms obtain m j where mj: "m < 2 ^ 53" "n = m * 2 ^ j" by (auto simp: representable_def)
  have "representable (n mod 2 ^ k) \<and> representable (n div 2 ^ k * 2 ^ k)"
  proof (cases "j \<le> k")
    case True
    then have k: "(2::nat) ^ k = 2 ^ (k - j) * 2 ^ j" by (simp flip: power_add)
    have "n mod 2 ^ k = (m mod 2 ^ (k - j)) * 2 ^ j" unfolding k mj(2) by (rule mult_mod_left [symmetric])
    moreover have "n div 2 ^ k = m div 2 ^ (k - j)" unfolding k mj(2) by simp
    moreover have "m mod 2 ^ (k - j) < 2 ^ 53" "m div 2 ^ (k - j) < 2 ^ 53"
      using mj(1) mod_less_eq_dividend [of m "2 ^ (k - j)"] div_le_dividend [of m "2 ^ (k - j)"] by linarith+
    ultimately show ?thesis by (metis representableI)
  next
    case False
    then have "2 ^ k dvd n" unfolding mj(2) by (intro dvd_mult le_imp_power_dvd) simp
    then show ?thesis using assms by (simp add: representable_small)
  qed
  then show "representable (n mod 2 ^ k)" "representable (n div 2 ^ k * 2 ^ k)" by blast+
qed

lemmas representable_unit = representable_pow [where k = 1074, folded unit_count_def]

lemma unit_count_pos [simp]: "0 < unit_count"
  unfolding unit_count_def by (rule zero_less_power) simp

text \<open>A fraction below 1 stays below 10 when it is multiplied by ten and rounded.\<close>

lemma representable_gap:
  assumes "representable n" and "n < 2 ^ (53 + k)"
  shows "n + 2 ^ k \<le> 2 ^ (53 + k)"
proof -
  from assms(1) obtain m j where mj: "m < 2 ^ 53" "n = m * 2 ^ j" by (auto simp: representable_def)
  show ?thesis
  proof (cases "k \<le> j")
    case True
    then have d: "2 ^ k dvd n" unfolding mj(2) by (intro dvd_mult le_imp_power_dvd) simp
    then obtain c where c: "n = 2 ^ k * c" by (rule dvdE)
    then have "c < 2 ^ 53" using assms(2) by (simp add: power_add)
    then have "2 ^ k * (c + 1) \<le> 2 ^ k * 2 ^ 53" by (intro mult_le_mono2) simp
    then show ?thesis using c by (simp add: power_add algebra_simps)
  next
    case False
    then have "m * 2 ^ j \<le> (2 ^ 53 - 1) * 2 ^ k" using mj(1) by (intro mult_le_mono power_increasing) auto
    then show ?thesis unfolding mj(2) by (simp add: power_add)
  qed
qed

lemma excess_times_ten: "n < unit_count \<Longrightarrow> excess (n * 10) \<le> 1025"
proof (rule excess_less)
  assume "n < unit_count"
  then have "n * 10 < unit_count * 2 ^ 4" by simp
  also have "\<dots> = 2 ^ (53 + 1025)" unfolding unit_count_def power_add [symmetric] by simp
  finally show "n * 10 < 2 ^ (53 + 1025)" .
qed

text \<open>The error of a step, half a unit in the last place of a number below 16.\<close>

definition rounding_error :: nat where
  "rounding_error = 2 ^ 1024"

lemma unit_count_error: "unit_count = 2 ^ 50 * rounding_error"
  unfolding unit_count_def rounding_error_def power_add [symmetric] by simp

lemma round_times_ten:
  assumes "n < unit_count"
  shows "round_units (n * 10) \<le> n * 10 + rounding_error" and "n * 10 \<le> round_units (n * 10) + rounding_error"
proof -
  have "(2::nat) ^ excess (n * 10) \<le> 2 ^ 1025" using excess_times_ten [OF assms] by (intro power_increasing) simp_all
  also have "\<dots> = 2 * rounding_error" unfolding rounding_error_def power_Suc [symmetric] by simp
  finally show "round_units (n * 10) \<le> n * 10 + rounding_error" "n * 10 \<le> round_units (n * 10) + rounding_error"
    using round_units_near [of "n * 10"] by linarith+
qed

lemma round_times_ten_less:
  assumes "representable n" and "n < unit_count"
  shows "round_units (n * 10) < 10 * unit_count"
proof -
  have u: "unit_count = 2 ^ (53 + 1021)" unfolding unit_count_def by simp
  have r: "rounding_error = 8 * 2 ^ 1021" unfolding rounding_error_def by (simp flip: power_add)
  have "n + 2 ^ 1021 \<le> unit_count" using representable_gap [of n 1021] assms unfolding u by blast
  then have "n * 10 + rounding_error + 2 * 2 ^ 1021 \<le> 10 * unit_count" unfolding r by linarith
  moreover have "(0::nat) < 2 ^ 1021" by simp
  ultimately show ?thesis using round_times_ten(1) [OF assms(2)] by linarith
qed

section \<open>Values of bit patterns\<close>

lemma round_double_nat [simp]: "round_double (int n) = int (round_units n)"
  by (cases "n = 0") (simp_all add: round_double_def round_units_exact representable_small)

lemma magnitude_representable: "representable (magnitude bits)"
proof -
  have m: "mantissa_field bits < 2 ^ 52" by (simp add: mantissa_field_def)
  show ?thesis
  proof (cases "exponent_field bits = 0")
    case True
    then show ?thesis using m by (auto simp: magnitude_def intro: representable_small)
  next
    case False
    then show ?thesis using m by (intro representableI [of "2 ^ 52 + mantissa_field bits"]) (simp_all add: magnitude_def)
  qed
qed

lemma mask_bits:
  "bit doubleExpMask n \<longleftrightarrow> 52 \<le> n \<and> n < 63" "bit doubleMantMask n \<longleftrightarrow> n < 52" "bit doubleSignMask n \<longleftrightarrow> n = 63"
proof -
  have "doubleExpMask = push_bit 52 (mask 11)" "doubleMantMask = mask 52" "doubleSignMask = 2 ^ 63"
    by (simp_all add: doubleExpMask_def doubleMantMask_def doubleSignMask_def mask_eq_exp_minus_1 push_bit_eq_mult)
  note eqs = this
  show "bit doubleExpMask n \<longleftrightarrow> 52 \<le> n \<and> n < 63" unfolding eqs(1) by (auto simp: bit_simps)
  show "bit doubleMantMask n \<longleftrightarrow> n < 52" unfolding eqs(2) by (auto simp: bit_simps)
  show "bit doubleSignMask n \<longleftrightarrow> n = 63" unfolding eqs(3) bit_exp_iff by auto
qed

lemma field_bits:
  "exponent_field b = take_bit 11 (drop_bit 52 (unat b))" "mantissa_field b = take_bit 52 (unat b)"
  by (simp_all add: exponent_field_def mantissa_field_def take_bit_eq_mod drop_bit_eq_div)

lemma exponent_full: "b AND doubleExpMask = doubleExpMask \<longleftrightarrow> exponent_field b = 2047"
proof -
  have "exponent_field b = 2047 \<longleftrightarrow> take_bit 11 (drop_bit 52 (unat b)) = mask 11" by (simp add: field_bits mask_eq_exp_minus_1)
  also have "\<dots> \<longleftrightarrow> (\<forall>n < 11. bit b (52 + n))" by (auto simp: bit_eq_iff bit_simps)
  also have "\<dots> \<longleftrightarrow> (\<forall>n. 52 \<le> n \<and> n < 63 \<longrightarrow> bit b n)" 
    by (auto simp: le_iff_add)
  also have "\<dots> \<longleftrightarrow> b AND doubleExpMask = doubleExpMask"
  proof
    assume "b AND doubleExpMask = doubleExpMask"
    then have "bit (b AND doubleExpMask) n = bit doubleExpMask n" for n by (rule arg_cong)
    then show "\<forall>n. 52 \<le> n \<and> n < 63 \<longrightarrow> bit b n" by (simp add: bit_and_iff mask_bits) blast
  next
    assume "\<forall>n. 52 \<le> n \<and> n < 63 \<longrightarrow> bit b n"
    then show "b AND doubleExpMask = doubleExpMask" by (intro bit_eqI) (auto simp: bit_and_iff mask_bits)
  qed
  finally show ?thesis ..
qed

lemma mantissa_zero: "b AND doubleMantMask = 0 \<longleftrightarrow> mantissa_field b = 0"
proof -
  have "mantissa_field b = 0 \<longleftrightarrow> (\<forall>n < 52. \<not> bit b n)" by (auto simp: field_bits bit_eq_iff bit_simps)
  also have "\<dots> \<longleftrightarrow> b AND doubleMantMask = 0"
    using bit_imp_le_length [of b] by (auto simp: bit_eq_iff [of "b AND doubleMantMask"] bit_and_iff mask_bits)
  finally show ?thesis ..
qed

lemma SignBit_bit: "SignBit b \<longleftrightarrow> bit b 63"
  using bit_imp_le_length [of b 63] by (auto simp: SignBit_def bit_eq_iff [of "b AND doubleSignMask"] bit_and_iff mask_bits)

lemma finite_double: "\<not> IsNan b \<and> \<not> IsInf b \<longleftrightarrow> exponent_field b \<noteq> 2047"
  by (auto simp: IsNan_def IsInf_def exponent_full)

lemma negate_double_fields [simp]:
  "magnitude (negate_double b) = magnitude b" "SignBit (negate_double b) \<longleftrightarrow> \<not> SignBit b"
proof -
  have "bit (negate_double b) n \<longleftrightarrow> (if n = 63 then \<not> bit b n else bit b n)" for n
    by (auto simp: negate_double_def bit_xor_iff mask_bits)
  note bits = this
  have "exponent_field (negate_double b) = exponent_field b" "mantissa_field (negate_double b) = mantissa_field b"
    unfolding field_bits by (rule bit_eqI; auto simp: bit_take_bit_iff bit_drop_bit_eq bit_unsigned_iff bits)+
  then show "magnitude (negate_double b) = magnitude b" by (simp add: magnitude_def)
  show "SignBit (negate_double b) \<longleftrightarrow> \<not> SignBit b" by (simp add: SignBit_bit bits)
qed

section \<open>Single precision\<close>

text \<open>The fields of a \<^verbatim>\<open>float\<close>, and its magnitude in units of \<open>2 ^ -149\<close>.\<close>

definition float_exponent :: "u32 \<Rightarrow> nat" where
  "float_exponent bits = unat bits div 2 ^ 23 mod 2 ^ 8"

definition float_mantissa :: "u32 \<Rightarrow> nat" where
  "float_mantissa bits = unat bits mod 2 ^ 23"

definition float_magnitude :: "u32 \<Rightarrow> nat" where
  "float_magnitude bits =
     (if float_exponent bits = 0 then float_mantissa bits
      else (2 ^ 23 + float_mantissa bits) * 2 ^ (float_exponent bits - 1))"

lemma top_bit_bounds: "n \<noteq> 0 \<Longrightarrow> 2 ^ top_bit n \<le> n \<and> n < 2 ^ Suc (top_bit n)"
proof (induction n rule: top_bit.induct)
  case (1 n)
  show ?case
  proof (cases "n < 2")
    case False
    then have "2 ^ top_bit (n div 2) \<le> n div 2" "n div 2 < 2 ^ Suc (top_bit (n div 2))" using 1 by auto
    then show ?thesis using False by (subst (1 2) top_bit.simps) auto
  qed (use 1(2) in \<open>simp add: top_bit.simps\<close>)
qed

text \<open>A bit pattern built from its fields.\<close>

lemma fields_of_nat:
  assumes "s < 2" and "e < 2 ^ 11" and "m < 2 ^ 52"
  shows "exponent_field (of_nat (s * 2 ^ 63 + (e * 2 ^ 52 + m))) = e"
    and "mantissa_field (of_nat (s * 2 ^ 63 + (e * 2 ^ 52 + m))) = m"
    and "SignBit (of_nat (s * 2 ^ 63 + (e * 2 ^ 52 + m))) \<longleftrightarrow> s = 1"
proof -
  define n where "n = s * 2 ^ 63 + (e * 2 ^ 52 + m)"
  have n: "n = (s * 2 ^ 11 + e) * 2 ^ 52 + m" by (simp add: n_def algebra_simps)
  have "n < 2 ^ 64" using assms unfolding n_def by (cases "s = 0") auto
  then have u: "unat (of_nat n :: u64) = n" by (rule unat_of_nat_u64)
  have split: "(a * c + x) div c = a" "(a * c + x) mod c = x" if "x < c" for a c x :: nat using that by simp_all
  have d: "n div 2 ^ 52 = s * 2 ^ 11 + e" "n mod 2 ^ 52 = m" unfolding n by (rule split [OF assms(3)])+
  show "exponent_field (of_nat (s * 2 ^ 63 + (e * 2 ^ 52 + m))) = e"
    using assms(2) unfolding exponent_field_def n_def [symmetric] u d by simp
  show "mantissa_field (of_nat (s * 2 ^ 63 + (e * 2 ^ 52 + m))) = m"
    unfolding mantissa_field_def n_def [symmetric] u d ..
  have "SignBit (of_nat n) \<longleftrightarrow> bit n 63" using bit_unsigned_iff [of "of_nat n :: u64" 63, where ?'a = nat] u by (simp add: SignBit_bit)
  also have "\<dots> \<longleftrightarrow> odd (n div 2 ^ 63)" by (rule bit_iff_odd)
  also have "n div 2 ^ 63 = s" unfolding n_def using assms by (intro split) simp
  finally show "SignBit (of_nat (s * 2 ^ 63 + (e * 2 ^ 52 + m))) \<longleftrightarrow> s = 1" using assms(1) unfolding n_def by (auto simp: less_2_cases_iff)
qed

lemma float_mantissa_top: "float_mantissa f \<noteq> 0 \<Longrightarrow> top_bit (float_mantissa f) < 23"
proof -
  assume "float_mantissa f \<noteq> 0"
  moreover have "float_mantissa f < 2 ^ 23" by (simp add: float_mantissa_def)
  ultimately have "(2::nat) ^ top_bit (float_mantissa f) < 2 ^ 23" using top_bit_bounds by (metis le_less_trans)
  then show ?thesis by (rule power_less_imp_less_exp [rotated]) simp
qed

text \<open>The conversion keeps the value of a finite number, its sign, and what is no number or infinite.\<close>

lemma double_of_float_fields:
  defines "field \<equiv> \<lambda>f. if float_exponent f = 255 then (2047, if float_mantissa f = 0 then 0 else 2 ^ 51 + float_mantissa f mod 2 ^ 22 * 2 ^ 29)
    else if float_exponent f \<noteq> 0 then (float_exponent f + 896, float_mantissa f * 2 ^ 29)
    else if float_mantissa f = 0 then (0, 0)
    else (top_bit (float_mantissa f) + 874, (float_mantissa f - 2 ^ top_bit (float_mantissa f)) * 2 ^ (52 - top_bit (float_mantissa f)))"
  shows "exponent_field (double_of_float f) = fst (field f)" and "mantissa_field (double_of_float f) = snd (field f)"
    and "SignBit (double_of_float f) \<longleftrightarrow> 2 ^ 31 \<le> unat f"
proof -
  have f: "unat f < 2 ^ 32" using unsigned_less [of f, where ?'a = nat] by simp
  have s: "unat f div 2 ^ 31 < 2" "unat f div 2 ^ 31 = 1 \<longleftrightarrow> 2 ^ 31 \<le> unat f" using f by auto
  have e: "float_exponent f < 2 ^ 8" and m: "float_mantissa f < 2 ^ 23" by (simp_all add: float_exponent_def float_mantissa_def)
  have t: "top_bit (float_mantissa f) < 23" "(float_mantissa f - 2 ^ top_bit (float_mantissa f)) * 2 ^ (52 - top_bit (float_mantissa f)) < 2 ^ 52"
    if "float_mantissa f \<noteq> 0"
  proof -
    show lt: "top_bit (float_mantissa f) < 23" by (rule float_mantissa_top [OF that])
    have "float_mantissa f - 2 ^ top_bit (float_mantissa f) < 2 ^ top_bit (float_mantissa f)"
      using top_bit_bounds [OF that] by (simp only: power_Suc) linarith
    then
    have "(float_mantissa f - 2 ^ top_bit (float_mantissa f)) * 2 ^ (52 - top_bit (float_mantissa f))
        < 2 ^ top_bit (float_mantissa f) * 2 ^ (52 - top_bit (float_mantissa f))" by simp
    also have "\<dots> = 2 ^ 52" using lt unfolding power_add [symmetric] by simp
    finally show "(float_mantissa f - 2 ^ top_bit (float_mantissa f)) * 2 ^ (52 - top_bit (float_mantissa f)) < 2 ^ 52" .
  qed
  have d: "double_of_float f = of_nat (unat f div 2 ^ 31 * 2 ^ 63 + (fst (field f) * 2 ^ 52 + snd (field f)))"
    by (simp add: double_of_float_def field_def float_exponent_def float_mantissa_def Let_def)
  have q: "float_mantissa f mod 2 ^ 22 < 2 ^ 22" by simp
  have "fst (field f) < 2 ^ 11" "snd (field f) < 2 ^ 52" using e m t q by (auto simp: field_def)
  note fields_of_nat [OF s(1) this]
  then show "exponent_field (double_of_float f) = fst (field f)" "mantissa_field (double_of_float f) = snd (field f)"
      "SignBit (double_of_float f) \<longleftrightarrow> 2 ^ 31 \<le> unat f"
    unfolding d s(2) by blast+
qed

lemma double_of_float_special:
  "IsNan (double_of_float f) \<longleftrightarrow> float_exponent f = 255 \<and> float_mantissa f \<noteq> 0"
  "IsInf (double_of_float f) \<longleftrightarrow> float_exponent f = 255 \<and> float_mantissa f = 0"
proof -
  have e: "float_exponent f < 256" by (simp add: float_exponent_def)
  show "IsNan (double_of_float f) \<longleftrightarrow> float_exponent f = 255 \<and> float_mantissa f \<noteq> 0"
      "IsInf (double_of_float f) \<longleftrightarrow> float_exponent f = 255 \<and> float_mantissa f = 0"
    using e float_mantissa_top [of f]
    by (auto simp: IsNan_def IsInf_def exponent_full mantissa_zero double_of_float_fields)
qed

lemma double_of_float_magnitude:
  assumes "float_exponent f \<noteq> 255"
  shows "magnitude (double_of_float f) = float_magnitude f * 2 ^ 925"
proof (cases "float_exponent f = 0")
  case False
  then have "(2 ^ 52 + float_mantissa f * 2 ^ 29) * 2 ^ (float_exponent f + 896 - 1)
    = (2 ^ 23 + float_mantissa f) * (2 ^ 29 * 2 ^ (float_exponent f + 896 - 1))" by (simp add: algebra_simps)
  also have "(2::nat) ^ 29 * 2 ^ (float_exponent f + 896 - 1) = 2 ^ (float_exponent f - 1) * 2 ^ 925"
    using False unfolding power_add [symmetric] by (intro arg_cong [where f = "\<lambda>x. 2 ^ x"]) simp
  finally show ?thesis using False assms by (simp add: magnitude_def float_magnitude_def double_of_float_fields ac_simps)
next
  case True
  show ?thesis
  proof (cases "float_mantissa f = 0")
    case False
    define t where "t = top_bit (float_mantissa f)"
    have b: "2 ^ t \<le> float_mantissa f" "t < 23"
      using top_bit_bounds [OF False] float_mantissa_top [OF False] by (simp_all add: t_def)
    then have p: "(2::nat) ^ 52 = 2 ^ t * 2 ^ (52 - t)" "(2::nat) ^ (52 - t) * 2 ^ (t + 874 - 1) = 2 ^ 925"
      unfolding power_add [symmetric] by simp_all
    have "2 ^ 52 + (float_mantissa f - 2 ^ t) * 2 ^ (52 - t) = float_mantissa f * 2 ^ (52 - t)"
      using b(1) unfolding p(1) by (metis le_add_diff_inverse add_mult_distrib)
    then have "(2 ^ 52 + (float_mantissa f - 2 ^ t) * 2 ^ (52 - t)) * 2 ^ (t + 874 - 1) = float_mantissa f * 2 ^ 925"
      using p(2) by (simp only: mult.assoc)
    then show ?thesis using True False by (simp add: magnitude_def float_magnitude_def double_of_float_fields flip: t_def)
  qed (use True in \<open>simp add: magnitude_def float_magnitude_def double_of_float_fields\<close>)
qed

end
