(* ===== verification/Formatter.thy ===== *)
theory Formatter
  imports String_View Doubles
begin

text \<open>
  Formatting and parsing (\<^verbatim>\<open>Utility/Formatter.h\<close>, \<^verbatim>\<open>Utility/Formatter.cpp\<close>). A writer is called with pieces of
  text; the model of a writing function is the text it passes on, in order. A parsing function that
  fails leaves its output argument alone and answers false, here \<open>None\<close>.
  Floating point numbers are bit patterns with the arithmetic of the theory Doubles; what their text
  says about their value is the subject of the theory Double_Text.
\<close>

section \<open>Writing values\<close>

definition digits :: string where
  "digits = ''0123456789ABCDEF'' @ [NUL]"

text \<open>
  \<^verbatim>\<open>(unsigned char)value - 32 <= 94\<close> is computed in \<^verbatim>\<open>int\<close>, so the left-hand side is negative for the
  control characters and the test holds for them as well.
\<close>

definition WriteChar :: "char \<Rightarrow> string" where
  "WriteChar c = (if uchar c - 32 \<le> 94 \<or> c = CHR 0x0A \<or> c = CHR 0x09 \<or> c = CHR 0x0D then [c] else ''?'')"

lemma unat_div_less: "0 < (v :: u64) \<Longrightarrow> \<not> base < 2 \<Longrightarrow> unat (v div base) < unat v"
proof -
  assume "0 < v" "\<not> base < 2"
  then have "0 < unat v" "1 < unat base" by (simp_all add: word_less_nat_alt)
  then show ?thesis by (simp add: unat_div)
qed

text \<open>
  The first loop of \<^verbatim>\<open>WriteUnsigned\<close> fills \<^verbatim>\<open>tmp\<close>, 64 characters, with the digits from the lowest. The
  base is 10 or 16 in every call; with a base below 2 the loop could not end.
\<close>

function unsigned_loop :: "u64 \<Rightarrow> u64 \<Rightarrow> string \<Rightarrow> fault + string" where
  "unsigned_loop v base tmp =
     (if v > 0 then
        (if base < 2 then Inl Hang
         else bindR (char_at digits (unat (v mod base))) (\<lambda>c.
           if length tmp \<ge> 64 then Inl OutOfBounds
           else unsigned_loop (v div base) base (tmp @ [c])))
      else Inr tmp)"
  by pat_completeness auto

termination by (relation "measure (\<lambda>(v, base, tmp). unat v)") (auto simp: unat_div_less)

declare unsigned_loop.simps [simp del]

definition WriteUnsigned :: "u64 \<Rightarrow> u64 \<Rightarrow> fault + string" where
  "WriteUnsigned v base =
     (if v = 0 then Inr (WriteChar (CHR ''0''))
      else bindR (unsigned_loop v base []) (\<lambda>tmp. Inr (concat (map WriteChar (rev tmp)))))"

definition WriteSigned :: "u64 \<Rightarrow> fault + string" where
  "WriteSigned v =
     (if sint v < 0 then bindR (WriteUnsigned (- v) 10) (\<lambda>t. Inr (''-'' @ t))
      else WriteUnsigned v 10)"

text \<open>
  The loop over the decimals of \<^verbatim>\<open>WriteDouble\<close>, with the turns left. The decimal is an \<^verbatim>\<open>int\<close> and indexes
  \<^verbatim>\<open>digits\<close>; nothing in the code bounds it.
\<close>

fun frac_loop :: "nat \<Rightarrow> int \<Rightarrow> fault + string" where
  "frac_loop 0 frac = Inr []"
| "frac_loop (Suc i) frac =
     (let frac = double_mult frac 10
      in bindR (int_of_double (- (2 ^ 31)) (2 ^ 31 - 1) frac) (\<lambda>d.
         bindR (if d < 0 then Inl OutOfBounds else char_at digits (nat d)) (\<lambda>c.
         bindR (frac_loop i (double_minus frac (double_of_int d))) (\<lambda>t. Inr (WriteChar c @ t)))))"

definition WriteDouble :: "u64 \<Rightarrow> fault + string" where
  "WriteDouble value =
     (if IsNan value then Inr ''nan''
      else if IsInf value then Inr ((if SignBit value then ''-'' else []) @ ''inf'')
      else let sign = (if SignBit value then ''-'' else []);
               value = (if SignBit value then negate_double value else value)
           in bindR (int_of_double 0 (2 ^ 64 - 1) (double_value value)) (\<lambda>intPart.
              bindR (WriteUnsigned (word_of_int intPart) 10) (\<lambda>t.
              bindR (frac_loop 6 (double_minus (double_value value) (double_of_int intPart))) (\<lambda>u.
              Inr (sign @ t @ ''.'' @ u)))))"

definition WriteFloat :: "u32 \<Rightarrow> fault + string" where
  "WriteFloat value = WriteDouble (double_of_float value)"

text \<open>
  The argument types with a specialisation of \<^verbatim>\<open>WriteValue\<close>; signed integers and floating point numbers by
  their bit patterns.
\<close>

datatype fmt_arg =
    ArgU8 u8 | ArgU16 u16 | ArgU32 u32 | ArgU64 u64 | ArgPtr u64
  | ArgI8 u8 | ArgI16 u16 | ArgI32 u32 | ArgI64 u64
  | ArgF32 u32 | ArgF64 u64
  | ArgBool bool | ArgChar char | ArgCStr string | ArgView StringView

fun WriteValue :: "fmt_arg \<Rightarrow> fault + string" where
  "WriteValue (ArgU8 v) = WriteUnsigned (ucast v) 10"
| "WriteValue (ArgU16 v) = WriteUnsigned (ucast v) 10"
| "WriteValue (ArgU32 v) = WriteUnsigned (ucast v) 10"
| "WriteValue (ArgU64 v) = WriteUnsigned v 10"
| "WriteValue (ArgPtr v) = bindR (WriteUnsigned v 16) (\<lambda>t. Inr (''0x'' @ t))"
| "WriteValue (ArgI8 v) = WriteSigned (scast v)"
| "WriteValue (ArgI16 v) = WriteSigned (scast v)"
| "WriteValue (ArgI32 v) = WriteSigned (scast v)"
| "WriteValue (ArgI64 v) = WriteSigned v"
| "WriteValue (ArgF32 v) = WriteFloat v"
| "WriteValue (ArgF64 v) = WriteDouble v"
| "WriteValue (ArgBool b) = Inr (if b then ''true'' else ''false'')"
| "WriteValue (ArgChar c) = Inr (WriteChar c)"
| "WriteValue (ArgCStr p) = bindR (strlen p) (\<lambda>n. Inr (take (nat n) p))"
| "WriteValue (ArgView v) = (if sv_size v \<le> length (sv_data v) then Inr (take (sv_size v) (sv_data v)) else Inl OutOfBounds)"

section \<open>Format strings\<close>

text \<open>The compile-time check: the number of holes it counts must be the number of arguments.\<close>

fun format_count :: "string \<Rightarrow> nat" where
  "format_count [] = 0"
| "format_count (c # p) =
     (if c = NUL then 0
      else if c = CHR ''{'' \<and> take 1 p = ''}'' then 1 + format_count (drop 1 p)
      else if c = CHR ''{'' \<and> take 3 p = ''{}}'' then format_count (drop 3 p)
      else format_count p)"

text \<open>
  \<^verbatim>\<open>WriteArgs\<close>, with the remaining arguments. Each character is read only when the tests before it in
  the conjunction hold. Note that the escape test looks at positions 3 and 4 and consumes an argument.
\<close>

function WriteArgs :: "string \<Rightarrow> fmt_arg list \<Rightarrow> fault + string" where
  "WriteArgs p [] = bindR (strlen p) (\<lambda>n. Inr (take (nat n) p))"
| "WriteArgs p (a # as) =
     (case p of
        [] \<Rightarrow> Inl OutOfBounds
      | c # p' \<Rightarrow>
          if c = NUL then Inr []
          else bindR (if c = CHR ''{'' then char_at p 1 else Inr NUL) (\<lambda>c1.
            if c1 = CHR ''}''
            then bindR (WriteValue a) (\<lambda>t. bindR (WriteArgs (drop 2 p) as) (\<lambda>u. Inr (t @ u)))
            else bindR (if c1 = CHR ''{'' then char_at p 3 else Inr NUL) (\<lambda>c3.
              bindR (if c3 = CHR ''}'' then char_at p 4 else Inr NUL) (\<lambda>c4.
                if c4 = CHR ''}''
                then bindR (WriteArgs (drop 5 p) as) (\<lambda>u. Inr (''{}'' @ u))
                else bindR (WriteArgs p' (a # as)) (\<lambda>u. Inr (c # u))))))"
  by pat_completeness auto
termination by (relation "measure (\<lambda>(p, as). length p + length as)") auto

section \<open>Parsing\<close>

definition DigitValue :: "char \<Rightarrow> int" where
  "DigitValue c =
     (if uchar (CHR ''0'') \<le> uchar c \<and> uchar c \<le> uchar (CHR ''9'') then uchar c - uchar (CHR ''0'')
      else if uchar (CHR ''a'') \<le> uchar c \<and> uchar c \<le> uchar (CHR ''f'') then 10 + (uchar c - uchar (CHR ''a''))
      else if uchar (CHR ''A'') \<le> uchar c \<and> uchar c \<le> uchar (CHR ''F'') then 10 + (uchar c - uchar (CHR ''A''))
      else -1)"

definition Parse_bool :: "StringView \<Rightarrow> fault + bool option" where
  "Parse_bool src =
     (if sv_size src = 0 then Inr None
      else bindR (sv_eq src (lit ''1'')) (\<lambda>one. if one then Inr (Some True)
      else bindR (sv_eq src (lit ''0'')) (\<lambda>zero. if zero then Inr (Some False)
      else bindR (sv_eq src (lit ''true'')) (\<lambda>t. if t then Inr (Some True)
      else bindR (sv_eq src (lit ''false'')) (\<lambda>f. if f then Inr (Some False)
      else Inr None)))))"

fun parse_loop :: "string \<Rightarrow> u64 \<Rightarrow> nat list \<Rightarrow> u64 \<Rightarrow> fault + u64 option" where
  "parse_loop data base [] result = Inr (Some result)"
| "parse_loop data base (i # is) result =
     bindR (char_at data i) (\<lambda>c.
       let d = DigitValue c
       in if d < 0 \<or> word_of_int d \<ge> base then Inr None
          else if result > (-1 - word_of_int d) div base then Inr None
          else parse_loop data base is (result * base + word_of_int d))"

definition ParseInteger :: "StringView \<Rightarrow> u64 \<Rightarrow> fault + u64 option" where
  "ParseInteger src base =
     (if sv_size src = 0 then Inr None else parse_loop (sv_data src) base [0..<sv_size src] 0)"

definition Parse_uint64 :: "StringView \<Rightarrow> fault + u64 option" where
  "Parse_uint64 src =
     (if sv_size src = 0 then Inr None
      else bindR (if sv_size src \<ge> 2
                  then bindR (sv_eq (Substring src 0 2) (lit ''0x'')) (\<lambda>x.
                       if x then Inr True else sv_eq (Substring src 0 2) (lit ''0X''))
                  else Inr False) (\<lambda>hex.
        let start = (if hex then 2 else 0); base = (if hex then 16 else 10)
        in if start \<ge> sv_size src then Inr None else ParseInteger (SubstringFrom src start) base))"

definition Parse_int64 :: "StringView \<Rightarrow> fault + u64 option" where
  "Parse_int64 src =
     (if sv_size src = 0 then Inr None
      else bindR (bindR (sv_eq (Substring src 0 1) (lit ''-'')) (\<lambda>m.
                    if m then Inr True else sv_eq (Substring src 0 1) (lit ''+''))) (\<lambda>sign.
           bindR (if sign then sv_eq (Substring src 0 1) (lit ''-'') else Inr False) (\<lambda>negative.
        let start = (if sign then 1 else 0)
        in if start \<ge> sv_size src then Inr None
           else bindR (ParseInteger (SubstringFrom src start) 10) (\<lambda>r.
             case r of
               None \<Rightarrow> Inr None
             | Some mag \<Rightarrow>
                 (let limit = (if negative then 0x7FFFFFFFFFFFFFFF + 1 else 0x7FFFFFFFFFFFFFFF)
                  in if mag > limit then Inr None
                     else Inr (Some (if negative then 0 - mag else mag)))))))"

section \<open>Digits and numbers\<close>

definition digit :: "nat \<Rightarrow> char" where
  "digit n = digits ! n"

text \<open>The text of a number in a base, and the number a text of digits denotes.\<close>

fun num_text :: "nat \<Rightarrow> nat \<Rightarrow> string" where
  "num_text base n =
     (if base < 2 \<or> n < base then [digit n] else num_text base (n div base) @ [digit (n mod base)])"

declare num_text.simps [simp del]

definition num_value :: "nat \<Rightarrow> string \<Rightarrow> nat" where
  "num_value base s = foldl (\<lambda>r c. r * base + nat (DigitValue c)) 0 s"

lemma less_16: "n < 16 \<Longrightarrow> n \<in> {0, 1, 2, 3, 4, 5, 6, 7, 8, 9, 10, 11, 12, 13, 14, 15 :: nat}"
proof -
  assume "n < 16"
  moreover have "[0..<16] = [0, 1, 2, 3, 4, 5, 6, 7, 8, 9, 10, 11, 12, 13, 14, 15]" by code_simp
  ultimately have "n \<in> set [0, 1, 2, 3, 4, 5, 6, 7, 8, 9, 10, 11, 12, 13, 14, 15]" by (metis atLeastLessThan_iff le0 set_upt)
  then show ?thesis by (simp only: set_simps)
qed

lemma digit_facts:
  assumes "n < 16"
  shows "DigitValue (digit n) = int n" "digit n \<noteq> NUL" "WriteChar (digit n) = [digit n]"
    "char_at digits n = Inr (digit n)" "digit n \<notin> {CHR ''-'', CHR ''+'', CHR ''x'', CHR ''X'', CHR '' '', CHR 0x22, CHR ''=''}"
  using less_16 [OF assms]
  by (auto simp: digit_def digits_def DigitValue_def uchar_def WriteChar_def char_at_def)

lemma num_text_digits: "2 \<le> base \<Longrightarrow> base \<le> 16 \<Longrightarrow> set (num_text base n) \<subseteq> digit ` {..<base}"
proof (induction base n rule: num_text.induct)
  case (1 base n)
  then show ?case by (subst num_text.simps) (auto simp: not_less)
qed

lemma num_text_nonempty [simp]: "num_text base n \<noteq> []"
  by (subst num_text.simps) simp

lemma num_value_snoc: "num_value base (s @ [c]) = num_value base s * base + nat (DigitValue c)"
  by (simp add: num_value_def)

lemma num_value_text: "2 \<le> base \<Longrightarrow> base \<le> 16 \<Longrightarrow> num_value base (num_text base n) = n"
proof (induction base n rule: num_text.induct)
  case (1 base n)
  show ?case
  proof (cases "n < base")
    case True
    then show ?thesis using 1 by (subst num_text.simps) (simp add: num_value_def digit_facts)
  next
    case False
    have "n mod base < 16" using 1(2,3) by (metis le_trans less_le_trans mod_less_divisor not_gr_zero not_numeral_le_zero)
    then show ?thesis using 1 False by (subst num_text.simps) (simp add: num_value_snoc digit_facts)
  qed
qed

lemma num_text_no_nul:
  assumes "2 \<le> base" and "base \<le> 16"
  shows "no_nul (num_text base n)"
proof -
  have "c \<noteq> NUL" if "c \<in> set (num_text base n)" for c
  proof -
    from that num_text_digits [OF assms, of n] obtain k where "c = digit k" "k < base" by auto
    then show ?thesis using digit_facts(2) [of k] assms by simp
  qed
  then show ?thesis by (auto simp: no_nul_def)
qed

lemma num_text_length: "2 \<le> base \<Longrightarrow> n < 2 ^ k \<Longrightarrow> 0 < k \<Longrightarrow> length (num_text base n) \<le> k"
proof (induction base n arbitrary: k rule: num_text.induct)
  case (1 base n)
  show ?case
  proof (cases "n < base")
    case True
    then show ?thesis using 1 by (subst num_text.simps) simp
  next
    case False
    then obtain k' where k: "k = Suc k'" using 1 by (cases k) auto
    have "n div base \<le> n div 2" using 1(2) by (simp add: div_le_mono2)
    then have lt: "n div base < 2 ^ k'" using 1(3) k by auto
    have "0 < k'"
    proof (rule ccontr)
      assume "\<not> 0 < k'"
      then show False using 1(2,3) k False by simp
    qed
    with 1(1) [of k'] 1(2) False lt k show ?thesis by (subst num_text.simps) simp
  qed
qed

section \<open>What is written\<close>

text \<open>The loop of \<^verbatim>\<open>WriteUnsigned\<close> produces the digits of the number from the lowest, within the buffer.\<close>

lemma unsigned_loop_text:
  assumes base: "2 \<le> unat base" "unat base \<le> 16" and "v \<noteq> 0" and "length tmp + length (num_text (unat base) (unat v)) \<le> 64"
  shows "unsigned_loop v base tmp = Inr (tmp @ rev (num_text (unat base) (unat v)))"
  using assms(3,4)
proof (induction "unat v" arbitrary: v tmp rule: less_induct)
  case less
  have pos: "0 < v" "\<not> base < 2" using less.prems(1) base by (auto simp: word_gt_0 word_less_nat_alt unat_gt_0)
  have m: "unat (v mod base) = unat v mod unat base" "unat (v div base) = unat v div unat base"
    by (simp_all add: unat_mod unat_div)
  have "unat v mod unat base < unat base" using base by (intro mod_less_divisor) simp
  then have "unat v mod unat base < 16" using base by linarith
  note dg = digit_facts(4) [OF this]
  show ?case
  proof (cases "unat v < unat base")
    case True
    then have nt: "num_text (unat base) (unat v) = [digit (unat v)]" by (subst num_text.simps) simp
    have z: "v div base = 0" using True by (simp add: word_unat_eq_iff m)
    have "unsigned_loop v base tmp = unsigned_loop 0 base (tmp @ [digit (unat v)])"
      using pos dg less.prems(2) True nt z by (subst unsigned_loop.simps) (simp add: m)
    also have "\<dots> = Inr (tmp @ [digit (unat v)])" by (subst unsigned_loop.simps) simp
    finally show ?thesis by (simp add: nt)
  next
    case False
    have "unat v div unat base \<noteq> 0" using False base by (simp add: div_eq_0_iff)
    then have dz: "v div base \<noteq> 0" by (simp add: word_unat_eq_iff m)
    have nt: "num_text (unat base) (unat v) = num_text (unat base) (unat v div unat base) @ [digit (unat v mod unat base)]"
      using False base by (subst num_text.simps) simp
    have "unsigned_loop v base tmp = unsigned_loop (v div base) base (tmp @ [digit (unat v mod unat base)])"
      using pos dg less.prems(2) nt by (subst unsigned_loop.simps) (simp add: m)
    also have "\<dots> = Inr ((tmp @ [digit (unat v mod unat base)]) @ rev (num_text (unat base) (unat (v div base))))"
      using less.hyps [OF _ dz] unat_div_less [OF pos] less.prems(2) nt m by simp
    finally show ?thesis by (simp add: nt m)
  qed
qed

lemma WriteChar_digits: "set s \<subseteq> digit ` {..<base} \<Longrightarrow> base \<le> 16 \<Longrightarrow> concat (map WriteChar s) = s"
proof (induction s)
  case (Cons c s)
  then obtain k where "c = digit k" "k < 16" by auto
  with Cons show ?case by (simp add: digit_facts)
qed simp

lemma WriteUnsigned_text:
  assumes base: "2 \<le> unat base" "unat base \<le> 16"
  shows "WriteUnsigned v base = Inr (num_text (unat base) (unat v))"
proof (cases "v = 0")
  case True
  then show ?thesis using base digit_facts(3) [of 0]
    by (subst num_text.simps) (simp add: WriteUnsigned_def digit_def digits_def)
next
  case False
  have "length (num_text (unat base) (unat v)) \<le> 64"
    using num_text_length [OF base(1), of "unat v" 64] unsigned_less [of v, where ?'a = nat] by simp
  then show ?thesis
    using False unsigned_loop_text [OF base False, of "[]"] WriteChar_digits [OF num_text_digits [OF base] base(2)]
    by (simp add: WriteUnsigned_def)
qed

lemma WriteUnsigned_10: "WriteUnsigned v 10 = Inr (num_text 10 (unat v))"
  using WriteUnsigned_text [of 10 v] by simp

lemma WriteUnsigned_16: "WriteUnsigned v 16 = Inr (num_text 16 (unat v))"
  using WriteUnsigned_text [of 16 v] by simp

section \<open>What is parsed\<close>

definition all_digits :: "nat \<Rightarrow> string \<Rightarrow> bool" where
  "all_digits base s \<longleftrightarrow> (\<forall>c \<in> set s. 0 \<le> DigitValue c \<and> DigitValue c < int base)"

lemma DigitValue_range: "-1 \<le> DigitValue c \<and> DigitValue c < 16"
  by (auto simp: DigitValue_def uchar_def)

text \<open>The overflow test is exact.\<close>

lemma overflow_test:
  assumes "2 \<le> unat base" and "d < unat base" and "unat base \<le> 16"
  shows "result > (-1 - of_nat d) div base \<longleftrightarrow> unat (result :: u64) * unat base + d \<ge> 2 ^ 64"
    and "unat result * unat base + d < 2 ^ 64 \<Longrightarrow> unat (result * base + of_nat d) = unat result * unat base + d"
proof -
  have d: "unat (of_nat d :: u64) = d" using assms by (intro unat_of_nat_u64) simp
  have m1: "unat (-1 :: u64) = 2 ^ 64 - 1" by (simp add: unsigned_minus_1_eq_mask mask_eq_exp_minus_1)
  have "unat (-1 - of_nat d :: u64) = 2 ^ 64 - 1 - d"
    using unat_sub [of "of_nat d" "-1 :: u64"] d m1 by simp
  then have q: "unat ((-1 - of_nat d) div base) = (2 ^ 64 - 1 - d) div unat base" by (simp add: unat_div)
  have "(2 ^ 64 - 1 - d) div unat base < unat result \<longleftrightarrow> 2 ^ 64 - 1 - d < unat result * unat base"
    using assms(1) by (simp add: div_less_iff_less_mult)
  then show "result > (-1 - of_nat d) div base \<longleftrightarrow> unat result * unat base + d \<ge> 2 ^ 64"
    using assms q by (simp add: word_less_nat_alt) linarith
  assume lt: "unat result * unat base + d < 2 ^ 64"
  then have "unat (result * base) = unat result * unat base"
    by (intro unat_mult_lem [THEN iffD1]) simp
  then show "unat (result * base + of_nat d) = unat result * unat base + d"
    using lt d unat_add_no_wrap [of "result * base" "of_nat d"] by simp
qed

text \<open>The test of a digit: it fails exactly on characters that are no digits of the base.\<close>

lemma digit_test:
  "DigitValue c < 0 \<or> word_of_int (DigitValue c) \<ge> (base :: u64) \<longleftrightarrow> \<not> (0 \<le> DigitValue c \<and> DigitValue c < int (unat base))"
proof (cases "DigitValue c < 0")
  case False
  then obtain d where d: "DigitValue c = int d" "d < 16" using DigitValue_range [of c] nonneg_int_cases [of "DigitValue c"] by fastforce
  then have "unat (of_nat d :: u64) = d" by (intro unat_of_nat_u64) simp
  then have "word_of_int (DigitValue c) \<ge> base \<longleftrightarrow> unat base \<le> d" using d(1) by (simp add: word_le_nat_alt)
  then show ?thesis unfolding d(1) of_nat_less_iff by auto
qed simp

lemma foldl_value_mono:
  "2 \<le> base \<Longrightarrow> r \<le> foldl (\<lambda>r c. r * base + nat (DigitValue c)) r s"
proof (induction s arbitrary: r)
  case (Cons c s)
  have "r \<le> r * base + nat (DigitValue c)" using Cons.prems by (cases base) auto
  then show ?case using Cons.IH [OF Cons.prems, of "r * base + nat (DigitValue c)"] by (simp del: mult_Suc_right)
qed simp

lemma parse_loop_text:
  assumes base: "2 \<le> unat base" "unat base \<le> 16"
  shows "parse_loop (pre @ s @ rest) base [length pre..<length pre + length s] result =
    Inr (let n = foldl (\<lambda>r c. r * unat base + nat (DigitValue c)) (unat result) s
         in if all_digits (unat base) s \<and> n < 2 ^ 64 then Some (of_nat n) else None)"
proof (induction s arbitrary: pre result)
  case Nil
  have "unat result < 2 ^ 64" using unsigned_less [of result, where ?'a = nat] by simp
  then show ?case by (simp add: all_digits_def)
next
  case (Cons c s)
  have idx: "[length pre..<length pre + length (c # s)] = length pre # [length (pre @ [c])..<length (pre @ [c]) + length s]"
    by (subst upt_conv_Cons) simp_all
  have ch: "char_at (pre @ (c # s) @ rest) (length pre) = Inr c" by (simp add: char_at_def nth_append)
  have step: "parse_loop (pre @ (c # s) @ rest) base [length pre..<length pre + length (c # s)] result =
      (if DigitValue c < 0 \<or> word_of_int (DigitValue c) \<ge> base then Inr None
       else if result > (-1 - word_of_int (DigitValue c)) div base then Inr None
       else parse_loop ((pre @ [c]) @ s @ rest) base [length (pre @ [c])..<length (pre @ [c]) + length s]
              (result * base + word_of_int (DigitValue c)))"
    unfolding idx parse_loop.simps ch by (simp add: Let_def)
  show ?case
  proof (cases "0 \<le> DigitValue c \<and> DigitValue c < int (unat base)")
    case False
    have "DigitValue c < 0 \<or> word_of_int (DigitValue c) \<ge> base" using False digit_test by blast
    moreover have "\<not> all_digits (unat base) (c # s)" using False by (auto simp: all_digits_def)
    ultimately show ?thesis unfolding step by (simp add: Let_def)
  next
    case True
    define d where "d = nat (DigitValue c)"
    have d: "DigitValue c = int d" "d < unat base" using True unfolding d_def by linarith+
    have w: "word_of_int (DigitValue c) = (of_nat d :: u64)" using d by simp
    have lt: "\<not> (of_nat d :: u64) \<ge> base" using True digit_test [of c base] w by simp
    note ov = overflow_test [OF base(1) d(2) base(2), of result]
    show ?thesis
    proof (cases "unat result * unat base + d \<ge> 2 ^ 64")
      case True
      then have "\<not> foldl (\<lambda>r c. r * unat base + nat (DigitValue c)) (unat result * unat base + d) s < 2 ^ 64"
        using foldl_value_mono [OF base(1), of "unat result * unat base + d" s] by linarith
      then show ?thesis unfolding step w using True ov(1) lt d by (simp add: Let_def)
    next
      case False
      then have u: "unat (result * base + of_nat d) = unat result * unat base + d" using ov(2) by simp
      have "parse_loop (pre @ (c # s) @ rest) base [length pre..<length pre + length (c # s)] result =
        parse_loop ((pre @ [c]) @ s @ rest) base [length (pre @ [c])..<length (pre @ [c]) + length s] (result * base + of_nat d)"
        unfolding step w using False ov(1) lt d by simp
      also have "\<dots> = Inr (let n = foldl (\<lambda>r c. r * unat base + nat (DigitValue c)) (unat result) (c # s)
         in if all_digits (unat base) (c # s) \<and> n < 2 ^ 64 then Some (of_nat n) else None)"
        using True d by (subst Cons.IH) (simp add: u all_digits_def)
      finally show ?thesis .
    qed
  qed
qed

lemma ParseInteger_text:
  assumes "view_ok v" and base: "2 \<le> unat base" "unat base \<le> 16"
  shows "ParseInteger v base = Inr (if view_text v \<noteq> [] \<and> all_digits (unat base) (view_text v) \<and> num_value (unat base) (view_text v) < 2 ^ 64
      then Some (of_nat (num_value (unat base) (view_text v))) else None)"
proof (cases "sv_size v = 0")
  case True
  then show ?thesis by (simp add: ParseInteger_def view_text_def)
next
  case False
  then have "view_text v \<noteq> []" using assms(1) by (metis length_view_text list.size(3))
  then show ?thesis
    using False parse_loop_text [OF base, of "[]" "view_text v" "drop (sv_size v) (sv_data v)" 0] view_data [OF assms(1)] assms(1)
    by (simp add: ParseInteger_def num_value_def Let_def)
qed

lemma all_digits_num_text:
  assumes "2 \<le> base" and "base \<le> 16"
  shows "all_digits base (num_text base n)"
  unfolding all_digits_def
proof
  fix c assume "c \<in> set (num_text base n)"
  with num_text_digits [OF assms, of n] obtain k where "c = digit k" "k < base" by auto
  then show "0 \<le> DigitValue c \<and> DigitValue c < int base" using digit_facts(1) [of k] assms by simp
qed

lemma num_text_chars:
  assumes "c \<in> set (num_text base n)" and "2 \<le> base" and "base \<le> 16"
  shows "c \<notin> {CHR ''-'', CHR ''+'', CHR ''x'', CHR ''X'', CHR '' '', CHR 0x22, CHR ''=''}"
proof -
  from assms num_text_digits [OF assms(2,3), of n] obtain k where "c = digit k" "k < base" by auto
  then show ?thesis using digit_facts(5) [of k] assms by simp
qed

lemma ParseInteger_num_text:
  assumes "view_ok v" and base: "2 \<le> unat base" "unat base \<le> 16" and "view_text v = num_text (unat base) n" and "n < 2 ^ 64"
  shows "ParseInteger v base = Inr (Some (of_nat n))"
  using ParseInteger_text [OF assms(1) base] all_digits_num_text [OF base] num_value_text [OF base] assms(4,5) by simp

section \<open>Printing and parsing as inverses\<close>

text \<open>
  The contract between a printing and a parsing function: what is printed is a non-empty text without
  zeros, spaces or quotes, and the parser reads it back, whatever follows it in memory.
\<close>

definition plain :: "string \<Rightarrow> bool" where
  "plain t \<longleftrightarrow> t \<noteq> [] \<and> (\<forall>c \<in> set t. c \<noteq> NUL \<and> c \<noteq> CHR '' '' \<and> c \<noteq> CHR 0x22)"

locale print_parse =
  fixes print :: "'a \<Rightarrow> fault + string"
    and parse :: "StringView \<Rightarrow> fault + 'a option"
  assumes printed: "\<exists>t. print x = Inr t \<and> plain t \<and> (\<forall>v. view_ok v \<longrightarrow> view_text v = t \<longrightarrow> parse v = Inr (Some x))"
begin

lemma round_trip: "print x = Inr t \<Longrightarrow> view_ok v \<Longrightarrow> view_text v = t \<Longrightarrow> parse v = Inr (Some x)"
  using printed [of x] by auto

lemma printed_plain: "print x = Inr t \<Longrightarrow> plain t"
  using printed [of x] by auto

lemma print_injective: "print x = print y \<Longrightarrow> x = y"
proof -
  assume eq: "print x = print y"
  obtain t where t: "print x = Inr t" "plain t" "\<forall>v. view_ok v \<longrightarrow> view_text v = t \<longrightarrow> parse v = Inr (Some x)"
    using printed by blast
  have "parse (lit t) = Inr (Some x)" "parse (lit t) = Inr (Some y)"
    using t round_trip [of y t "lit t"] eq by simp_all
  then show "x = y" by simp
qed

end

lemma view_text_hd:
  assumes "view_ok v" and "0 < sv_size v" and "c \<noteq> NUL"
  shows "sv_eq (Substring v 0 1) (lit [c]) = Inr (hd (view_text v) = c)"
proof -
  have "view_text v \<noteq> []" using assms by (metis length_view_text less_nat_zero_code list.size(3))
  then show ?thesis using Substring_char [OF assms(1,3), of 0] assms(2) by (simp add: hd_conv_nth)
qed

lemma sv_size_pos: "view_ok v \<Longrightarrow> view_text v \<noteq> [] \<Longrightarrow> 0 < sv_size v"
  by (metis gr0I length_0_conv length_view_text)

lemma sv_eq_prefix2:
  assumes "view_ok v" and "2 \<le> sv_size v" and "no_nul p" and "length p = 2"
  shows "sv_eq (Substring v 0 2) (lit p) = Inr (take 2 (view_text v) = p)"
  using Substring_text [OF assms(1), of 0 2] assms by (simp add: sv_eq_text)

lemma num_text_not_hex:
  assumes "x \<in> {CHR ''x'', CHR ''X''}"
  shows "take 2 (num_text 10 n) \<noteq> [CHR ''0'', x]"
proof
  assume "take 2 (num_text 10 n) = [CHR ''0'', x]"
  then have "x \<in> set (num_text 10 n)" by (metis in_set_takeD list.set_intros(1,2))
  then show False using num_text_chars [of x 10 n] assms by auto
qed

lemma Parse_uint64_decimal:
  assumes v: "view_ok v" "view_text v = num_text 10 n" and n: "n < 2 ^ 64"
  shows "Parse_uint64 v = Inr (Some (of_nat n))"
proof -
  have pos: "0 < sv_size v" using sv_size_pos v by simp
  have hex: "(if sv_size v \<ge> 2
      then bindR (sv_eq (Substring v 0 2) (lit ''0x'')) (\<lambda>x. if x then Inr True else sv_eq (Substring v 0 2) (lit ''0X''))
      else Inr False) = Inr False"
    using sv_eq_prefix2 [OF v(1)] num_text_not_hex [of _ n] v(2) by simp
  have "ParseInteger (SubstringFrom v 0) 10 = Inr (Some (of_nat n))"
    using SubstringFrom_text [OF v(1), of 0] v(2) n by (intro ParseInteger_num_text) simp_all
  then show ?thesis using pos hex by (simp add: Parse_uint64_def)
qed

lemma Parse_uint64_hex:
  assumes v: "view_ok v" "view_text v = ''0x'' @ num_text 16 n" and n: "n < 2 ^ 64"
  shows "Parse_uint64 v = Inr (Some (of_nat n))"
proof -
  have len: "sv_size v = length (''0x'' @ num_text 16 n)" using v by (metis length_view_text)
  then have size: "2 < sv_size v" by (cases "num_text 16 n") auto
  have "sv_eq (Substring v 0 2) (lit ''0x'') = Inr True" using sv_eq_prefix2 [OF v(1)] size v(2) by simp
  moreover have "ParseInteger (SubstringFrom v 2) 16 = Inr (Some (of_nat n))"
    using SubstringFrom_text [OF v(1), of 2] v(2) n by (intro ParseInteger_num_text) simp_all
  ultimately show ?thesis using size by (simp add: Parse_uint64_def)
qed

lemma plain_num_text:
  assumes "2 \<le> base" and "base \<le> 16"
  shows "plain (num_text base n)"
  using num_text_chars [OF _ assms] num_text_no_nul [OF assms, of n] by (auto simp: plain_def no_nul_def)

interpretation uint64_dec: print_parse "\<lambda>v. WriteValue (ArgU64 v)" Parse_uint64
proof
  fix x :: u64
  have "unat x < 2 ^ 64" using unsigned_less [of x, where ?'a = nat] by simp
  then show "\<exists>t. WriteValue (ArgU64 x) = Inr t \<and> plain t \<and> (\<forall>v. view_ok v \<longrightarrow> view_text v = t \<longrightarrow> Parse_uint64 v = Inr (Some x))"
    using Parse_uint64_decimal [of _ "unat x"] plain_num_text [of 10] by (simp add: WriteUnsigned_10)
qed

interpretation pointer_hex: print_parse "\<lambda>v. WriteValue (ArgPtr v)" Parse_uint64
proof
  fix x :: u64
  have "unat x < 2 ^ 64" using unsigned_less [of x, where ?'a = nat] by simp
  then show "\<exists>t. WriteValue (ArgPtr x) = Inr t \<and> plain t \<and> (\<forall>v. view_ok v \<longrightarrow> view_text v = t \<longrightarrow> Parse_uint64 v = Inr (Some x))"
    using Parse_uint64_hex [of _ "unat x"] plain_num_text [of 16] by (auto simp: WriteUnsigned_16 plain_def)
qed

lemma Parse_int64_negative:
  assumes v: "view_ok v" "view_text v = ''-'' @ num_text 10 n" and n: "n \<le> 2 ^ 63"
  shows "Parse_int64 v = Inr (Some (- of_nat n))"
proof -
  have len: "sv_size v = length (''-'' @ num_text 10 n)" using v by (metis length_view_text)
  then have size: "1 < sv_size v" by (cases "num_text 10 n") auto
  have sgn: "sv_eq (Substring v 0 1) (lit ''-'') = Inr True" using view_text_hd [OF v(1)] size v(2) by simp
  have p: "ParseInteger (SubstringFrom v 1) 10 = Inr (Some (of_nat n))"
    using SubstringFrom_text [OF v(1), of 1] v(2) n by (intro ParseInteger_num_text) simp_all
  have "\<not> (of_nat n :: u64) > 0x8000000000000000" using n by (simp add: word_less_nat_alt)
  then show ?thesis using size sgn p by (simp add: Parse_int64_def)
qed

lemma Parse_int64_positive:
  assumes v: "view_ok v" "view_text v = num_text 10 n" and n: "n < 2 ^ 63"
  shows "Parse_int64 v = Inr (Some (of_nat n))"
proof -
  have pos: "0 < sv_size v" using sv_size_pos v by simp
  have "hd (num_text 10 n) \<in> set (num_text 10 n)" by simp
  then have hd: "hd (num_text 10 n) \<noteq> CHR ''-''" "hd (num_text 10 n) \<noteq> CHR ''+''"
    using num_text_chars [of "hd (num_text 10 n)" 10 n] by auto
  have sgn: "sv_eq (Substring v 0 1) (lit ''-'') = Inr False" "sv_eq (Substring v 0 1) (lit ''+'') = Inr False"
    using view_text_hd [OF v(1) pos] v(2) hd by simp_all
  have p: "ParseInteger (SubstringFrom v 0) 10 = Inr (Some (of_nat n))"
    using SubstringFrom_text [OF v(1), of 0] v(2) n by (intro ParseInteger_num_text) simp_all
  have "\<not> (of_nat n :: u64) > 0x7FFFFFFFFFFFFFFF" using n by (simp add: word_less_nat_alt)
  then show ?thesis using pos sgn p by (simp add: Parse_int64_def)
qed

lemma sint_negative_unat: "sint (x :: u64) < 0 \<longleftrightarrow> 2 ^ 63 \<le> unat x"
proof -
  have lt: "unat x < 2 ^ 64" using unsigned_less [of x, where ?'a = nat] by simp
  have "sint x < 0 \<longleftrightarrow> bit x 63" using bit_last_iff [of x] by simp
  also have "\<dots> \<longleftrightarrow> bit (unat x) 63" by (simp add: bit_unsigned_iff)
  also have "\<dots> \<longleftrightarrow> odd (unat x div 2 ^ 63)" by (rule bit_iff_odd)
  also have "\<dots> \<longleftrightarrow> 2 ^ 63 \<le> unat x"
  proof
    assume "odd (unat x div 2 ^ 63)"
    then show "2 ^ 63 \<le> unat x" by (metis div_less even_zero not_le)
  next
    assume "2 ^ 63 \<le> unat x"
    then have "unat x div 2 ^ 63 = 1" using lt by (simp add: div_nat_eqI)
    then show "odd (unat x div 2 ^ 63)" by simp
  qed
  finally show ?thesis .
qed

lemma unat_uminus: "(x :: u64) \<noteq> 0 \<Longrightarrow> unat (- x) = 2 ^ 64 - unat x"
  using unat_sub_if' [of 0 x] by (simp add: unat_gt_0)

interpretation int64_dec: print_parse "\<lambda>v. WriteValue (ArgI64 v)" Parse_int64
proof
  fix x :: u64
  show "\<exists>t. WriteValue (ArgI64 x) = Inr t \<and> plain t \<and> (\<forall>v. view_ok v \<longrightarrow> view_text v = t \<longrightarrow> Parse_int64 v = Inr (Some x))"
  proof (cases "sint x < 0")
    case True
    then have "2 ^ 63 \<le> unat x" by (simp add: sint_negative_unat)
    moreover from this have "x \<noteq> 0" by auto
    ultimately have "unat (- x) \<le> 2 ^ 63" using unat_uminus [of x] by simp
    then show ?thesis
      using True Parse_int64_negative [of _ "unat (- x)"] plain_num_text [of 10]
      by (auto simp: WriteSigned_def WriteUnsigned_10 plain_def)
  next
    case False
    then have "unat x < 2 ^ 63" by (simp add: sint_negative_unat)
    then show ?thesis
      using False Parse_int64_positive [of _ "unat x"] plain_num_text [of 10]
      by (simp add: WriteSigned_def WriteUnsigned_10)
  qed
qed

lemma Parse_bool_text:
  assumes "view_ok v"
  shows "Parse_bool v = Inr (if view_text v \<in> {''1'', ''true''} then Some True
    else if view_text v \<in> {''0'', ''false''} then Some False else None)"
proof (cases "sv_size v = 0")
  case True
  then show ?thesis by (simp add: Parse_bool_def view_text_def)
next
  case False
  then show ?thesis using assms by (simp add: Parse_bool_def sv_eq_text)
qed

interpretation bool_words: print_parse "\<lambda>b. WriteValue (ArgBool b)" Parse_bool
proof
  fix x
  show "\<exists>t. WriteValue (ArgBool x) = Inr t \<and> plain t \<and> (\<forall>v. view_ok v \<longrightarrow> view_text v = t \<longrightarrow> Parse_bool v = Inr (Some x))"
    by (cases x) (simp_all add: plain_def Parse_bool_text)
qed

text \<open>
  C16. Printing then parsing is the identity for every 64-bit unsigned number, for pointers in
  hexadecimal, for every 64-bit signed number (\<^verbatim>\<open>INT64_MIN\<close> included) and for booleans, whatever
  follows the text in memory. In particular printing them never overruns its buffer.
\<close>

theorem print_parse_round_trip:
  "(\<exists>t. WriteValue (ArgU64 x) = Inr t \<and> Parse_uint64 \<lparr>sv_data = t @ rest, sv_size = length t\<rparr> = Inr (Some x)) \<and>
   (\<exists>t. WriteValue (ArgPtr x) = Inr t \<and> Parse_uint64 \<lparr>sv_data = t @ rest, sv_size = length t\<rparr> = Inr (Some x)) \<and>
   (\<exists>t. WriteValue (ArgI64 x) = Inr t \<and> Parse_int64 \<lparr>sv_data = t @ rest, sv_size = length t\<rparr> = Inr (Some x)) \<and>
   (\<exists>t. WriteValue (ArgBool b) = Inr t \<and> Parse_bool \<lparr>sv_data = t @ rest, sv_size = length t\<rparr> = Inr (Some b))"
proof -
  have v: "view_ok \<lparr>sv_data = t @ rest, sv_size = length t\<rparr>" "view_text \<lparr>sv_data = t @ rest, sv_size = length t\<rparr> = t" for t
    by (simp_all add: view_ok_def view_text_def)
  show ?thesis
    using uint64_dec.printed [of x] pointer_hex.printed [of x] int64_dec.printed [of x] bool_words.printed [of b] v
    by metis
qed

text \<open>
  C17. \<^verbatim>\<open>ParseInteger\<close> accepts exactly the non-empty texts of digits of the base whose value fits 64 bits,
  and answers that value: its overflow test neither lets a wrapped value through nor rejects a number
  that fits.
\<close>

theorem ParseInteger_exact:
  assumes "view_ok v" and "base \<in> {10, 16}"
  shows "ParseInteger v base =
    Inr (if view_text v \<noteq> [] \<and> all_digits (unat base) (view_text v) \<and> num_value (unat base) (view_text v) < 2 ^ 64
         then Some (of_nat (num_value (unat base) (view_text v))) else None)"
  using ParseInteger_text [OF assms(1), of base] assms(2) by auto

theorem ParseInteger_exact_witness:
  "ParseInteger (lit ''18446744073709551615'') 10 = Inr (Some 18446744073709551615) \<and>
   ParseInteger (lit ''18446744073709551616'') 10 = Inr None"
  using ParseInteger_exact [of "lit ''18446744073709551615''" 10] ParseInteger_exact [of "lit ''18446744073709551616''" 10]
  by (simp add: all_digits_def num_value_def DigitValue_def uchar_def)

section \<open>Format strings with holes\<close>

text \<open>A format string in normal form: pieces of text without opening braces, with a hole between any two.\<close>

fun with_holes :: "string list \<Rightarrow> string" where
  "with_holes [] = []"
| "with_holes [w] = w"
| "with_holes (w # ws) = w @ ''{}'' @ with_holes ws"

fun interleave :: "string list \<Rightarrow> string list \<Rightarrow> string" where
  "interleave (w # ws) (t # ts) = w @ t @ interleave ws ts"
| "interleave ws [] = concat ws"
| "interleave [] ts = []"

definition piece :: "string \<Rightarrow> bool" where
  "piece w \<longleftrightarrow> no_nul w \<and> CHR ''{'' \<notin> set w"

lemma format_count_piece: "piece w \<Longrightarrow> format_count (w @ p) = format_count p"
  by (induction w) (auto simp: piece_def)

lemma WriteArgs_piece:
  "piece w \<Longrightarrow> WriteArgs (w @ p) (a # as) = bindR (WriteArgs p (a # as)) (\<lambda>u. Inr (w @ u))"
proof (induction w)
  case Nil
  then show ?case by (cases "WriteArgs p (a # as)") simp_all
next
  case (Cons c w)
  then have "c \<noteq> NUL" "c \<noteq> CHR ''{''" "piece w" by (auto simp: piece_def)
  then show ?case using Cons.IH by (cases "WriteArgs p (a # as)") simp_all
qed

lemma WriteArgs_pieces:
  assumes "list_all piece ws" and "length ws = Suc (length args)" and "list_all2 (\<lambda>a t. WriteValue a = Inr t) args ts"
  shows "format_count (cstr (with_holes ws) rest) = length args \<and>
         WriteArgs (cstr (with_holes ws) rest) args = Inr (interleave ws ts)"
  using assms
proof (induction args arbitrary: ws ts)
  case Nil
  then obtain w where w: "ws = [w]" "piece w" "ts = []" by (auto simp: length_Suc_conv)
  then have "no_nul w" by (simp add: piece_def)
  with w show ?case using format_count_piece [of w "NUL # rest"] by (simp add: cstr_def [of w])
      (simp flip: cstr_def)
next
  case (Cons a args)
  then obtain w w' ws' t ts' where ws: "ws = w # w' # ws'" "piece w" "list_all piece (w' # ws')" "length (w' # ws') = Suc (length args)"
      "ts = t # ts'" "WriteValue a = Inr t" "list_all2 (\<lambda>a t. WriteValue a = Inr t) args ts'"
    by (auto simp: length_Suc_conv list_all2_Cons1)
  have c: "cstr (with_holes ws) rest = w @ ''{}'' @ cstr (with_holes (w' # ws')) rest" by (simp add: ws(1) cstr_def)
  have d: "drop 2 (''{}'' @ p) = p" for p :: string by simp
  from Cons.IH [OF ws(3,4,7)] show ?case
    unfolding c format_count_piece [OF ws(2)] WriteArgs_piece [OF ws(2)]
    using ws(1,5,6) by (simp add: char_at_def)
qed

text \<open>
  C18. Formatting with holes. For a format string made of text without opening braces and \<open>k\<close> holes,
  the compile-time check counts exactly \<open>k\<close> arguments, and with \<open>k\<close> arguments the output is the text with
  every hole replaced by its argument, in order; nothing is read outside the format string.
\<close>

theorem WriteArgs_interleaves:
  assumes "list_all piece ws" and "length ws = Suc (length args)" and "list_all2 (\<lambda>a t. WriteValue a = Inr t) args ts"
  shows "format_count (cstr (with_holes ws) rest) = length args \<and>
         WriteArgs (cstr (with_holes ws) rest) args = Inr (interleave ws ts)"
  using assms by (rule WriteArgs_pieces)

theorem WriteArgs_interleaves_witness:
  "WriteArgs (cstr ''x={}, ok={}'' []) [ArgU8 7, ArgBool True] = Inr ''x=7, ok=true''"
proof -
  have "num_text 10 7 = ''7''" by (subst num_text.simps) (simp add: digit_def digits_def)
  then have "list_all2 (\<lambda>a t. WriteValue a = Inr t) [ArgU8 7, ArgBool True] [''7'', ''true'']"
    by (simp add: WriteUnsigned_10)
  with WriteArgs_interleaves [of "[''x='', '', ok='', []]" "[ArgU8 7, ArgBool True]" "[''7'', ''true'']" "[]"]
  show ?thesis by (simp add: piece_def)
qed

text \<open>
  Escaped braces. The check skips over \<open>{{}}\<close>, so the format string below needs one argument, but the
  writer looks for the closing braces one position further on: it prints the first brace, takes the
  rest of the escape for a hole and has no argument left for the real one.
\<close>

lemma escaped_braces_consume_argument:
  "format_count (cstr ''{{}} {}'' []) = 1"
  "WriteArgs (cstr ''{{}} {}'' []) [ArgBool True] = Inr ''{true} {}''"
  by (simp_all add: char_at_def strlen_def)

text \<open>Control characters pass the test of \<^verbatim>\<open>WriteChar\<close> although it means to replace them.\<close>

lemma WriteChar_control: "WriteChar (CHR 0x1B) = [CHR 0x1B]" "WriteChar (CHR 0x7F) = ''?''"
  by (simp_all add: WriteChar_def uchar_def)

end
