(* ===== verification/Command_Line.thy ===== *)
theory Command_Line
  imports Formatter
begin

text \<open>
  The kernel command line (\<^verbatim>\<open>Utility/CommandLineExtractor.cpp\<close>): splitting it at spaces outside quotes,
  the check for duplicate identifiers at start-up, and the four lookups. The boot loader's response is
  an optional pointer to a zero-terminated string; a null response is \<open>None\<close>.
\<close>

section \<open>Splitting\<close>

definition SPACE :: char where "SPACE = CHR '' ''"
definition QUOTE :: char where "QUOTE = CHR 0x22"

definition default_view :: StringView where
  "default_view = \<lparr>sv_data = [NUL], sv_size = 0\<rparr>"

text \<open>Writing to the output array, when there is one.\<close>

definition put_arg :: "StringView list option \<Rightarrow> nat \<Rightarrow> StringView \<Rightarrow> fault + StringView list option" where
  "put_arg out i v =
     (case out of None \<Rightarrow> Inr None
      | Some l \<Rightarrow> if i < length l then Inr (Some (l[i := v])) else Inl OutOfBounds)"

lemma Substring_eq_inside: "sv_eq (Substring src pos 1) (lit [c]) = Inr True \<Longrightarrow> pos < sv_size src"
  by (auto simp: sv_eq_def Substring_def split: if_splits)

function skip_spaces :: "StringView \<Rightarrow> nat \<Rightarrow> fault + nat" where
  "skip_spaces src pos =
     bindR (sv_eq (Substring src pos 1) (lit [SPACE])) (\<lambda>b. if b then skip_spaces src (pos + 1) else Inr pos)"
  by pat_completeness auto
termination
  by (relation "measure (\<lambda>(src, pos). sv_size src - pos)") (auto dest!: Substring_eq_inside [unfolded One_nat_def])

declare skip_spaces.simps [simp del]

lemma skip_spaces_le: "skip_spaces src pos = Inr p \<Longrightarrow> pos \<le> p"
proof (induction src pos rule: skip_spaces.induct)
  case (1 src pos)
  then show ?case
    using 1(2) by (subst (asm) skip_spaces.simps) (fastforce simp: result_simps split: if_splits)
qed

function split_loop ::
  "StringView \<Rightarrow> StringView list option \<Rightarrow> nat \<Rightarrow> nat \<Rightarrow> nat \<Rightarrow> bool \<Rightarrow> fault + nat \<times> StringView list option" where
  "split_loop src out pos previouspos count quotes =
     (if pos \<le> sv_size src then
        (if pos = sv_size src then
           bindR (put_arg out count (Substring src previouspos (sub64 pos previouspos))) (\<lambda>out'. Inr (count, out'))
         else
           bindR (sv_eq (Substring src pos 1) (lit [SPACE])) (\<lambda>space.
           bindR (if space \<and> \<not> quotes
                  then bindR (put_arg out count (Substring src previouspos (sub64 pos previouspos))) (\<lambda>out'.
                       bindR (skip_spaces src (pos + 1)) (\<lambda>pos'. Inr (out', pos', pos + 1, count + 1)))
                  else Inr (out, pos, previouspos, count)) (\<lambda>(out', pos', previouspos', count').
           bindR (sv_eq (Substring src pos' 1) (lit [QUOTE])) (\<lambda>quote.
             split_loop src out' (pos' + 1) previouspos' count' (if quote then \<not> quotes else quotes)))))
      else Inr (count, out))"
  by pat_completeness auto
termination
  by (relation "measure (\<lambda>(src, out, pos, previouspos, count, quotes). sv_size src + 1 - pos)")
     (auto simp: result_simps dest!: skip_spaces_le split: if_splits)

declare split_loop.simps [simp del]

definition SplitArguments :: "StringView \<Rightarrow> StringView list option \<Rightarrow> fault + nat \<times> StringView list option" where
  "SplitArguments src out = bindR (split_loop src out 0 0 0 False) (\<lambda>(count, out'). Inr (count + 1, out'))"

text \<open>Both passes: count the arguments, then fill an array of that size.\<close>

definition split_all :: "string \<Rightarrow> fault + StringView list" where
  "split_all cmdline =
     bindR (view_of_cstr cmdline) (\<lambda>src.
     bindR (SplitArguments src None) (\<lambda>(argCount, _).
     bindR (SplitArguments src (Some (replicate argCount default_view))) (\<lambda>(_, args).
       Inr (case args of Some l \<Rightarrow> l | None \<Rightarrow> []))))"

section \<open>Initialisation\<close>

record CommandLineExtractor =
  cl_response :: "string option"
  cl_hasCommandLine :: bool

fun has_identifier :: "StringView \<Rightarrow> StringView list \<Rightarrow> fault + bool" where
  "has_identifier ident [] = Inr False"
| "has_identifier ident (a # array) = bindR (sv_eq a ident) (\<lambda>e. if e then Inr True else has_identifier ident array)"

text \<open>One turn of the duplicate check; the state is the array of identifiers seen and those reported.\<close>

definition check_identifier :: "StringView \<Rightarrow> StringView list \<times> StringView list \<Rightarrow> fault + StringView list \<times> StringView list" where
  "check_identifier arg = (\<lambda>(unique, reported).
     bindR (CountOf arg (lit ''='')) (\<lambda>n.
     bindR (if n > 0 then bindR (IndexOf arg (lit ''='')) (\<lambda>i. Inr (Substring arg 0 i)) else Inr arg) (\<lambda>ident.
     bindR (has_identifier ident unique) (\<lambda>dup.
       if dup then Inr (unique, reported @ [ident]) else Inr (unique @ [ident], reported)))))"

text \<open>
  The code tests for a null response but goes on to read the command line through it. The result
  carries the identifiers reported as duplicates.
\<close>

definition CL_Initialize :: "string option \<Rightarrow> fault + CommandLineExtractor \<times> StringView list" where
  "CL_Initialize response =
     (case response of
        None \<Rightarrow> Inl NullDeref
      | Some cmdline \<Rightarrow>
          bindR (strlen cmdline) (\<lambda>_.
          bindR (split_all cmdline) (\<lambda>args.
          bindR (foldR check_identifier args ([], [])) (\<lambda>(unique, reported).
            Inr (\<lparr>cl_response = Some cmdline, cl_hasCommandLine = True\<rparr>, reported)))))"

section \<open>Lookups\<close>

fun bool_loop :: "StringView list \<Rightarrow> StringView \<Rightarrow> fault + bool option" where
  "bool_loop [] identifier = Inr (Some False)"
| "bool_loop (arg # args) identifier =
     bindR (sv_eq arg identifier) (\<lambda>same.
       if same then Inr (Some True)
       else bindR (IndexOf arg (lit ''='')) (\<lambda>i.
         bindR (sv_eq (Substring arg 0 i) identifier) (\<lambda>match.
           if \<not> match then bool_loop args identifier
           else bindR (CountOf arg (lit ''='')) (\<lambda>n.
             if n > 0 then bindR (IndexOf arg (lit ''='')) (\<lambda>i. Parse_bool (SubstringFrom arg ((i + 1) mod 2 ^ 64)))
             else bool_loop args identifier))))"

text \<open>The lookup of a number; \<open>parse\<close> is the instance of \<^verbatim>\<open>Formatter::Parse\<close> for the number type.\<close>

fun number_loop :: "(StringView \<Rightarrow> fault + 'a option) \<Rightarrow> StringView list \<Rightarrow> StringView \<Rightarrow> fault + 'a option" where
  "number_loop parse [] identifier = Inr None"
| "number_loop parse (arg # args) identifier =
     bindR (IndexOf arg (lit ''='')) (\<lambda>i.
       if i = npos then number_loop parse args identifier
       else bindR (sv_eq (Substring arg 0 i) identifier) (\<lambda>match.
         if \<not> match then number_loop parse args identifier
         else bindR (CountOf arg (lit ''='')) (\<lambda>n.
           if n > 0 then bindR (IndexOf arg (lit ''='')) (\<lambda>i. parse (SubstringFrom arg ((i + 1) mod 2 ^ 64)))
           else number_loop parse args identifier)))"

fun view_loop :: "StringView list \<Rightarrow> StringView \<Rightarrow> fault + StringView option" where
  "view_loop [] identifier = Inr None"
| "view_loop (arg # args) identifier =
     bindR (IndexOf arg (lit ''='')) (\<lambda>i.
       if i = npos then view_loop args identifier
       else bindR (sv_eq (Substring arg 0 i) identifier) (\<lambda>match.
         if \<not> match then view_loop args identifier
         else let v = SubstringFrom arg ((i + 1) mod 2 ^ 64)
              in bindR (sv_eq (Substring v 0 1) (lit [QUOTE])) (\<lambda>q.
                   let v' = (if q then Substring v 1 (sub64 (sv_size v) 2) else v)
                   in Inr (if sv_size v' > 0 then Some v' else None))))"

definition with_args :: "CommandLineExtractor \<Rightarrow> (StringView list \<Rightarrow> fault + 'a option) \<Rightarrow> fault + 'a option" where
  "with_args st body =
     (if \<not> cl_hasCommandLine st then Inr None
      else case cl_response st of None \<Rightarrow> Inl NullDeref | Some cmdline \<Rightarrow> bindR (split_all cmdline) body)"

definition GetValue_bool :: "CommandLineExtractor \<Rightarrow> StringView \<Rightarrow> fault + bool option" where
  "GetValue_bool st identifier = with_args st (\<lambda>args. bool_loop args identifier)"

definition GetValue_uint64 :: "CommandLineExtractor \<Rightarrow> StringView \<Rightarrow> fault + u64 option" where
  "GetValue_uint64 st identifier = with_args st (\<lambda>args. number_loop Parse_uint64 args identifier)"

definition GetValue_int64 :: "CommandLineExtractor \<Rightarrow> StringView \<Rightarrow> fault + u64 option" where
  "GetValue_int64 st identifier = with_args st (\<lambda>args. number_loop Parse_int64 args identifier)"

definition GetValue_view :: "CommandLineExtractor \<Rightarrow> StringView \<Rightarrow> fault + StringView option" where
  "GetValue_view st identifier = with_args st (\<lambda>args. view_loop args identifier)"

section \<open>Splitting a well-formed command line\<close>

text \<open>Words separated by single spaces.\<close>

fun join_words :: "string list \<Rightarrow> string" where
  "join_words [] = []"
| "join_words [w] = w"
| "join_words (w # ws) = w @ [SPACE] @ join_words ws"

fun word_views :: "StringView \<Rightarrow> nat \<Rightarrow> string list \<Rightarrow> StringView list" where
  "word_views src off [] = []"
| "word_views src off (w # ws) = Substring src off (length w) # word_views src (off + length w + 1) ws"

lemma plain_char: "plain w \<Longrightarrow> c \<in> set w \<Longrightarrow> c \<noteq> SPACE \<and> c \<noteq> QUOTE \<and> c \<noteq> NUL"
  by (auto simp: plain_def SPACE_def QUOTE_def)

lemma sep_chars [simp]: "SPACE \<noteq> NUL" "QUOTE \<noteq> NUL" "SPACE \<noteq> QUOTE" "QUOTE \<noteq> SPACE"
  by (simp_all add: SPACE_def QUOTE_def)

text \<open>Inside a word the loop only moves on.\<close>

lemma split_loop_inside:
  assumes ok: "view_ok src" and "pos \<le> e" and "e \<le> sv_size src"
    and "\<forall>k. pos \<le> k \<and> k < e \<longrightarrow> view_text src ! k \<noteq> SPACE \<and> view_text src ! k \<noteq> QUOTE"
  shows "split_loop src out pos prev count False = split_loop src out e prev count False"
  using assms(2-)
proof (induction "e - pos" arbitrary: pos)
  case (Suc d)
  then have p: "pos < e" "pos < sv_size src" by auto
  have "split_loop src out pos prev count False = split_loop src out (pos + 1) prev count False"
    using p Suc.prems(3) by (subst split_loop.simps) (simp add: Substring_char_Suc [OF ok])
  then show ?case using Suc.hyps(1) [of "pos + 1"] Suc.hyps(2) Suc.prems p by simp
qed simp

text \<open>At a space that is followed by the first character of a word, one argument is finished.\<close>

lemma split_loop_space:
  assumes ok: "view_ok src" and "pos + 1 < sv_size src" and "view_text src ! pos = SPACE"
    and "view_text src ! (pos + 1) \<noteq> SPACE" and "view_text src ! (pos + 1) \<noteq> QUOTE"
  shows "split_loop src out pos prev count False =
    bindR (put_arg out count (Substring src prev (sub64 pos prev))) (\<lambda>out'. split_loop src out' (pos + 2) (pos + 1) (count + 1) False)"
proof -
  have "skip_spaces src (pos + 1) = Inr (pos + 1)"
    using assms by (subst skip_spaces.simps) (simp add: Substring_char_Suc [OF ok])
  then show ?thesis
    using assms(2-) by (subst split_loop.simps) (simp add: Substring_char_Suc [OF ok] bindR_assoc)
qed

lemma split_loop_words:
  assumes ok: "view_ok src" and size: "sv_size src < 2 ^ 64"
    and vt: "view_text src = pre @ join_words (w # ws)" and plain: "list_all plain (w # ws)"
    and pos: "length pre \<le> pos" "pos \<le> length pre + length w"
  shows "split_loop src None pos (length pre) count False = Inr (count + length ws, None) \<and>
    (\<forall>l. length l = count + Suc (length ws) \<longrightarrow>
       split_loop src (Some l) pos (length pre) count False =
       Inr (count + length ws, Some (take count l @ word_views src (length pre) (w # ws))))"
  using vt plain pos
proof (induction ws arbitrary: pre w pos count)
  case Nil
  let ?e = "length pre + length w"
  have e: "?e = sv_size src" using Nil.prems(1) length_view_text [OF ok] by simp
  have c: "\<forall>k. pos \<le> k \<and> k < ?e \<longrightarrow> view_text src ! k \<noteq> SPACE \<and> view_text src ! k \<noteq> QUOTE"
    using Nil.prems by (auto simp: nth_append plain_char)
  have "split_loop src out pos (length pre) count False = split_loop src out ?e (length pre) count False" for out
    using split_loop_inside [OF ok Nil.prems(4) _ c] e by simp
  moreover have "sub64 ?e (length pre) = length w" using e size by (simp add: sub64_le)
  ultimately show ?case
    using e by (auto simp: split_loop.simps [of _ _ "sv_size src"] put_arg_def upd_conv_take_nth_drop)
next
  case (Cons w' ws)
  let ?e = "length pre + length w"
  have vt: "view_text src = pre @ w @ SPACE # join_words (w' # ws)" using Cons.prems(1) by simp
  have w': "w' \<noteq> []" "plain w'" "plain w" using Cons.prems(2) by (auto simp: plain_def)
  have hd: "join_words (w' # ws) \<noteq> []" "join_words (w' # ws) ! 0 = w' ! 0" using w'(1) by (cases ws; cases w'; simp)+
  have len: "sv_size src = ?e + 1 + length (join_words (w' # ws))" using vt length_view_text [OF ok] by simp
  have c: "\<forall>k. pos \<le> k \<and> k < ?e \<longrightarrow> view_text src ! k \<noteq> SPACE \<and> view_text src ! k \<noteq> QUOTE"
    using vt Cons.prems(3) w'(3) by (auto simp: nth_append plain_char)
  have in_w: "split_loop src out pos (length pre) count False = split_loop src out ?e (length pre) count False" for out
    using split_loop_inside [OF ok Cons.prems(4) _ c] len by simp
  have nx: "view_text src ! (?e + 1) = w' ! 0" using vt hd(2) by (simp add: nth_append)
  have "w' ! 0 \<in> set w'" using w'(1) by simp
  then have nsq: "view_text src ! (?e + 1) \<noteq> SPACE" "view_text src ! (?e + 1) \<noteq> QUOTE"
    using nx plain_char [OF w'(2)] by auto
  have "sub64 ?e (length pre) = length w" using len size by (simp add: sub64_le)
  then have at_space: "split_loop src out ?e (length pre) count False =
      bindR (put_arg out count (Substring src (length pre) (length w))) (\<lambda>out'. split_loop src out' (?e + 2) (?e + 1) (count + 1) False)" for out
    using split_loop_space [OF ok _ _ nsq, of out "length pre" count] len hd(1) vt by (simp add: nth_append)
  have IH: "split_loop src None (?e + 2) (length (pre @ w @ [SPACE])) (count + 1) False = Inr (count + 1 + length ws, None) \<and>
    (\<forall>l. length l = count + 1 + Suc (length ws) \<longrightarrow>
       split_loop src (Some l) (?e + 2) (length (pre @ w @ [SPACE])) (count + 1) False =
       Inr (count + 1 + length ws, Some (take (count + 1) l @ word_views src (length (pre @ w @ [SPACE])) (w' # ws))))"
    by (rule Cons.IH) (use vt Cons.prems(2) w'(1) in \<open>auto simp: Suc_le_eq\<close>)
  show ?case
    using IH in_w at_space by (auto simp: put_arg_def take_Suc_conv_app_nth)
qed

lemma join_words_app: "join_words (w # w' # ws) = (w @ [SPACE]) @ join_words (w' # ws)"
  by simp

text \<open>The views of the words show the words.\<close>

definition shows_words :: "StringView list \<Rightarrow> string list \<Rightarrow> bool" where
  "shows_words args ws \<longleftrightarrow> list_all2 (\<lambda>a w. view_ok a \<and> view_text a = w) args ws"

lemma word_views_show:
  assumes ok: "view_ok src" and "view_text src = pre @ join_words ws"
  shows "shows_words (word_views src (length pre) ws) ws"
  using assms(2)
proof (induction ws arbitrary: pre rule: join_words.induct)
  case (2 w)
  then have "length pre + length w = sv_size src" using length_view_text [OF ok] by simp
  then show ?case using Substring_text [OF ok, of "length pre" "length w"] 2 by (simp add: shows_words_def)
next
  case (3 w w' ws)
  then have vt: "view_text src = (pre @ w @ [SPACE]) @ join_words (w' # ws)" by simp
  have le: "length pre + length w \<le> sv_size src" using length_view_text [OF ok] vt by simp
  have "shows_words (word_views src (length (pre @ w @ [SPACE])) (w' # ws)) (w' # ws)" using 3(1) [OF vt] .
  then show ?case using Substring_text [OF ok le] vt by (simp add: shows_words_def)
qed (simp add: shows_words_def)

lemma plain_no_nul: "plain w \<Longrightarrow> no_nul w"
  by (auto simp: plain_def no_nul_def)

lemma no_nul_join: "list_all plain ws \<Longrightarrow> no_nul (join_words ws)"
  by (induction ws rule: join_words.induct) (simp_all add: plain_no_nul)

lemma split_all_join:
  assumes "ws \<noteq> []" and plain: "list_all plain ws" and size: "length (join_words ws) < 2 ^ 64"
  shows "\<exists>args. split_all (cstr (join_words ws) rest) = Inr args \<and> shows_words args ws"
proof -
  obtain w ws' where ws: "ws = w # ws'" using assms(1) by (cases ws) auto
  define src where "src = \<lparr>sv_data = cstr (join_words ws) rest, sv_size = length (join_words ws)\<rparr>"
  have ok: "view_ok src" "view_text src = [] @ join_words (w # ws')"
    by (simp_all add: src_def view_ok_def view_text_def cstr_def ws)
  have view: "view_of_cstr (cstr (join_words ws) rest) = Inr src"
    using no_nul_join [OF plain] by (simp add: view_of_cstr_def src_def)
  have sz: "sv_size src < 2 ^ 64" using size by (simp add: src_def)
  note sp = split_loop_words [OF ok(1) sz ok(2) plain [unfolded ws], of 0 0, simplified]
  have 1: "SplitArguments src None = Inr (length ws, None)" using sp by (simp add: SplitArguments_def ws)
  have 2: "SplitArguments src (Some (replicate (length ws) default_view)) = Inr (length ws, Some (word_views src 0 ws))"
    using sp by (simp add: SplitArguments_def ws)
  have "split_all (cstr (join_words ws) rest) = Inr (word_views src 0 ws)"
    by (simp add: split_all_def view 1 2)
  moreover have "shows_words (word_views src 0 ws) ws" using word_views_show [OF ok(1), of "[]" ws] ok(2) ws by simp
  ultimately show ?thesis by blast
qed

section \<open>Looking up identifiers\<close>

definition EQ :: char where "EQ = CHR ''=''"

definition ident_of :: "string \<Rightarrow> string" where
  "ident_of w = takeWhile (\<lambda>c. c \<noteq> EQ) w"

lemma least_index: "c \<in> set w \<Longrightarrow> (LEAST j. j < length w \<and> w ! j = c) = length (takeWhile (\<lambda>x. x \<noteq> c) w)"
proof (rule Least_equality)
  assume c: "c \<in> set w"
  have lt: "length (takeWhile (\<lambda>x. x \<noteq> c) w) < length w"
    using c by (metis (mono_tags, lifting) takeWhile_eq_all_conv length_takeWhile_le nat_less_le takeWhile_eq_take take_all_iff)
  then show "length (takeWhile (\<lambda>x. x \<noteq> c) w) < length w \<and> w ! length (takeWhile (\<lambda>x. x \<noteq> c) w) = c"
    using nth_length_takeWhile [OF lt] by simp
  fix j assume j: "j < length w \<and> w ! j = c"
  show "length (takeWhile (\<lambda>x. x \<noteq> c) w) \<le> j"
  proof (rule ccontr)
    assume "\<not> ?thesis"
    then have lj: "j < length (takeWhile (\<lambda>x. x \<noteq> c) w)" by simp
    from set_takeWhileD [OF nth_mem [OF lj]] takeWhile_nth [OF lj] j show False by simp
  qed
qed

text \<open>What the code computes from one argument, in terms of its word.\<close>

lemma arg_index:
  assumes "view_ok a" and "view_text a = w" and "w \<noteq> []" and "length w < 2 ^ 64"
  shows "IndexOf a (lit ''='') = Inr (if EQ \<in> set w then length (ident_of w) else npos)"
proof -
  have "sv_size a = length w" using assms by (metis length_view_text)
  moreover have "0 < sv_size a" using sv_size_pos assms by simp
  ultimately show ?thesis
    using IndexOf_char [OF assms(1), of EQ] assms least_index [of EQ w] by (simp add: EQ_def ident_of_def)
qed

lemma arg_count: "view_ok a \<Longrightarrow> CountOf a (lit ''='') = Inr (count_list (view_text a) EQ)"
  using CountOf_char [of a EQ] by (simp add: EQ_def)

lemma ident_less: "EQ \<in> set w \<Longrightarrow> length (ident_of w) < length w"
  unfolding ident_of_def
  by (metis (mono_tags, lifting) takeWhile_eq_all_conv length_takeWhile_le nat_less_le takeWhile_eq_take take_all_iff)

lemma arg_ident:
  assumes "view_ok a" and "view_text a = w" and "EQ \<in> set w"
  shows "view_ok (Substring a 0 (length (ident_of w)))" "view_text (Substring a 0 (length (ident_of w))) = ident_of w"
proof -
  have "length (ident_of w) < sv_size a" using ident_less [OF assms(3)] assms(1,2) by (metis length_view_text)
  then have "0 + length (ident_of w) \<le> sv_size a" by simp
  moreover have "take (length (ident_of w)) w = ident_of w"
    unfolding ident_of_def by (rule takeWhile_eq_take [symmetric])
  ultimately show "view_ok (Substring a 0 (length (ident_of w)))" "view_text (Substring a 0 (length (ident_of w))) = ident_of w"
    using Substring_text [OF assms(1), of 0 "length (ident_of w)"] assms(2) by simp_all
qed

definition matches :: "string \<Rightarrow> string \<Rightarrow> bool" where
  "matches ident w \<longleftrightarrow> EQ \<in> set w \<and> ident_of w = ident"

lemma number_loop_skip:
  assumes a: "view_ok a" "view_text a = w" "w \<noteq> []" "length w < 2 ^ 64" and i: "view_ok ident" "no_nul (view_text ident)"
    and "\<not> matches (view_text ident) w"
  shows "number_loop parse (a # args) ident = number_loop parse args ident"
proof (cases "EQ \<in> set w")
  case True
  have "length (ident_of w) \<noteq> npos" using ident_less [OF True] a(4) by (simp add: npos_def)
  then show ?thesis
    using True arg_index [OF a] arg_ident [OF a(1,2) True] i assms(7) by (simp add: sv_eq_text matches_def)
qed (use arg_index [OF a] in simp)

lemma number_loop_hit:
  assumes a: "view_ok a" "view_text a = w" "w \<noteq> []" "length w < 2 ^ 64" and i: "view_ok ident" "no_nul (view_text ident)"
    and m: "matches (view_text ident) w"
  shows "number_loop parse (a # args) ident = parse (SubstringFrom a (length (ident_of w) + 1))"
proof -
  have eq: "EQ \<in> set w" "ident_of w = view_text ident" using m by (auto simp: matches_def)
  have lt: "length (ident_of w) \<noteq> npos" "length (ident_of w) + 1 < 2 ^ 64"
    using ident_less [OF eq(1)] a(4) by (auto simp: npos_def)
  have "count_list w EQ \<noteq> 0" using eq(1) by (simp add: count_list_0_iff)
  then show ?thesis
    using arg_index [OF a] arg_ident [OF a(1,2) eq(1)] i eq lt arg_count [OF a(1)] a(2) by (simp add: sv_eq_text)
qed

lemma bool_loop_skip:
  assumes a: "view_ok a" "view_text a = w" "w \<noteq> []" "length w < 2 ^ 64" and i: "view_ok ident" "no_nul (view_text ident)"
    and "\<not> matches (view_text ident) w" and "w \<noteq> view_text ident" and "sv_size ident < npos"
  shows "bool_loop (a # args) ident = bool_loop args ident"
proof (cases "EQ \<in> set w")
  case True
  then show ?thesis
    using arg_index [OF a] arg_ident [OF a(1,2) True] i a assms(7,8) by (simp add: sv_eq_text matches_def)
next
  case False
  have "sv_eq (Substring a 0 npos) ident = Inr False"
    using sv_size_pos [OF a(1)] a(2,3) assms(9) by (simp add: Substring_def sv_eq_def)
  then show ?thesis using False arg_index [OF a] i a assms(8) by (simp add: sv_eq_text)
qed

lemma bool_loop_hit:
  assumes a: "view_ok a" "view_text a = w" "w \<noteq> []" "length w < 2 ^ 64" and i: "view_ok ident" "no_nul (view_text ident)"
    and m: "matches (view_text ident) w"
  shows "bool_loop (a # args) ident = Parse_bool (SubstringFrom a (length (ident_of w) + 1))"
proof -
  have eq: "EQ \<in> set w" "ident_of w = view_text ident" using m by (auto simp: matches_def)
  have lt: "length (ident_of w) + 1 < 2 ^ 64" using ident_less [OF eq(1)] a(4) by auto
  have ne: "w \<noteq> view_text ident" using ident_less [OF eq(1)] eq(2) by auto
  have "count_list w EQ \<noteq> 0" using eq(1) by (simp add: count_list_0_iff)
  then show ?thesis
    using arg_index [OF a] arg_ident [OF a(1,2) eq(1)] i eq lt arg_count [OF a(1)] a ne by (simp add: sv_eq_text)
qed

lemma setting_facts:
  assumes "EQ \<notin> set ident"
  shows "matches ident (ident @ EQ # t)" "ident_of (ident @ EQ # t) = ident"
proof -
  have "takeWhile (\<lambda>c. c \<noteq> EQ) (ident @ EQ # t) = ident @ takeWhile (\<lambda>c. c \<noteq> EQ) (EQ # t)"
    by (rule takeWhile_append2) (use assms in auto)
  then show "ident_of (ident @ EQ # t) = ident" by (simp add: ident_of_def)
  then show "matches ident (ident @ EQ # t)" by (simp add: matches_def)
qed

lemma setting_value:
  assumes "view_ok a" and "view_text a = ident @ EQ # t"
  shows "view_ok (SubstringFrom a (length ident + 1))" "view_text (SubstringFrom a (length ident + 1)) = t"
  using SubstringFrom_text [OF assms(1), of "length ident + 1"] assms(2) by simp_all

lemma shows_words_Cons: "shows_words args (w # ws) \<longleftrightarrow> (\<exists>a as. args = a # as \<and> view_ok a \<and> view_text a = w \<and> shows_words as ws)"
  by (auto simp: shows_words_def list_all2_Cons2)

text \<open>A word that can be looked at: not empty, and short enough for its length to be a \<^verbatim>\<open>size_t\<close>.\<close>

definition usable_word :: "string \<Rightarrow> bool" where
  "usable_word w \<longleftrightarrow> w \<noteq> [] \<and> length w < 2 ^ 64"

context print_parse
begin

lemma number_lookup:
  assumes "print x = Inr t" and "shows_words args (ws1 @ (ident @ EQ # t) # ws2)" and "EQ \<notin> set ident" and "no_nul ident"
    and "list_all usable_word (ws1 @ [ident @ EQ # t])" and "\<forall>w \<in> set ws1. \<not> matches ident w"
  shows "number_loop parse args (lit ident) = Inr (Some x)"
  using assms(2,5,6)
proof (induction ws1 arbitrary: args)
  case Nil
  then obtain a as where a: "args = a # as" "view_ok a" "view_text a = ident @ EQ # t" by (auto simp: shows_words_Cons)
  have u: "ident @ EQ # t \<noteq> []" "length (ident @ EQ # t) < 2 ^ 64" using Nil.prems(2) by (auto simp: usable_word_def)
  have "number_loop parse args (lit ident) = parse (SubstringFrom a (length ident + 1))"
    using number_loop_hit [OF a(2,3) u, of "lit ident" parse as] setting_facts [OF assms(3), of t] assms(4) a(1) by simp
  then show ?case using round_trip [OF assms(1)] setting_value [OF a(2,3)] by simp
next
  case (Cons w ws1)
  then obtain a as where a: "args = a # as" "view_ok a" "view_text a = w" "shows_words as (ws1 @ (ident @ EQ # t) # ws2)"
    by (auto simp: shows_words_Cons)
  have u: "w \<noteq> []" "length w < 2 ^ 64" using Cons.prems(2) by (auto simp: usable_word_def)
  have "number_loop parse args (lit ident) = number_loop parse as (lit ident)"
    using number_loop_skip [OF a(2,3) u, of "lit ident"] assms(4) Cons.prems(3) a(1) by simp
  then show ?case using Cons.IH [OF a(4)] Cons.prems(2,3) by simp
qed

end

lemma bool_lookup:
  assumes "WriteValue (ArgBool b) = Inr t" and "shows_words args (ws1 @ (ident @ EQ # t) # ws2)" and "EQ \<notin> set ident" and "no_nul ident"
    and "list_all usable_word (ws1 @ [ident @ EQ # t])" and "\<forall>w \<in> set ws1. \<not> matches ident w \<and> w \<noteq> ident"
  shows "bool_loop args (lit ident) = Inr (Some b)"
  using assms(2,5,6)
proof (induction ws1 arbitrary: args)
  case Nil
  then obtain a as where a: "args = a # as" "view_ok a" "view_text a = ident @ EQ # t" by (auto simp: shows_words_Cons)
  have u: "ident @ EQ # t \<noteq> []" "length (ident @ EQ # t) < 2 ^ 64" using Nil.prems(2) by (auto simp: usable_word_def)
  have "bool_loop args (lit ident) = Parse_bool (SubstringFrom a (length ident + 1))"
    using bool_loop_hit [OF a(2,3) u, of "lit ident" as] setting_facts [OF assms(3), of t] assms(4) a(1) by simp
  then show ?case using bool_words.round_trip [OF assms(1)] setting_value [OF a(2,3)] by simp
next
  case (Cons w ws1)
  then obtain a as where a: "args = a # as" "view_ok a" "view_text a = w" "shows_words as (ws1 @ (ident @ EQ # t) # ws2)"
    by (auto simp: shows_words_Cons)
  have u: "w \<noteq> []" "length w < 2 ^ 64" using Cons.prems(2) by (auto simp: usable_word_def)
  have "length ident < npos" using Cons.prems(2) by (auto simp: usable_word_def npos_def)
  then have "bool_loop args (lit ident) = bool_loop as (lit ident)"
    using bool_loop_skip [OF a(2,3) u, of "lit ident"] assms(4) Cons.prems(3) a(1) by simp
  then show ?case using Cons.IH [OF a(4)] Cons.prems(2,3) by simp
qed

text \<open>The duplicate check never fails on such a command line.\<close>

definition good_view :: "StringView \<Rightarrow> bool" where
  "good_view v \<longleftrightarrow> view_ok v \<and> no_nul (view_text v)"

lemma has_identifier_returns:
  "good_view i \<Longrightarrow> list_all good_view l \<Longrightarrow> \<exists>b. has_identifier i l = Inr b"
  by (induction l) (auto simp: good_view_def sv_eq_text)

lemma check_identifier_returns:
  assumes "view_ok a" and "view_text a = w" and "plain w" and "length w < 2 ^ 64" and "list_all good_view unique"
  shows "\<exists>u r. check_identifier a (unique, reported) = Inr (u, r) \<and> list_all good_view u"
proof -
  have w: "w \<noteq> []" "no_nul w" using assms(3) plain_no_nul by (auto simp: plain_def)
  obtain ident where ident: "(if count_list w EQ > 0 then bindR (IndexOf a (lit ''='')) (\<lambda>i. Inr (Substring a 0 i)) else Inr a) = Inr ident"
      "good_view ident"
  proof (cases "EQ \<in> set w")
    case True
    have "no_nul (ident_of w)" using w(2) by (auto simp: no_nul_def ident_of_def dest: set_takeWhileD)
    then show ?thesis
      using that [of "Substring a 0 (length (ident_of w))"] True arg_index [OF assms(1,2) w(1) assms(4)] arg_ident [OF assms(1,2) True]
      by (simp add: count_list_0_iff good_view_def)
  next
    case False
    then show ?thesis using that [of a] assms(1,2) w(2) by (simp add: count_list_0_iff good_view_def)
  qed
  obtain dup where "has_identifier ident unique = Inr dup" using has_identifier_returns [OF ident(2) assms(5)] by blast
  then show ?thesis
    using ident assms(5) arg_count [OF assms(1)] assms(2) by (auto simp: check_identifier_def)
qed

lemma check_identifiers_return:
  assumes "shows_words args ws" and "list_all plain ws" and "\<forall>w \<in> set ws. length w < 2 ^ 64" and "list_all good_view unique"
  shows "\<exists>r. foldR check_identifier args (unique, reported) = Inr r"
  using assms
proof (induction ws arbitrary: args unique reported)
  case (Cons w ws)
  then obtain a as where a: "args = a # as" "view_ok a" "view_text a = w" "shows_words as ws" by (auto simp: shows_words_Cons)
  have "plain w" "length w < 2 ^ 64" using Cons.prems(2,3) by simp_all
  from check_identifier_returns [OF a(2,3) this Cons.prems(4), of reported] obtain u r
    where "check_identifier a (unique, reported) = Inr (u, r)" "list_all good_view u" by blast
  then show ?case using Cons.IH [OF a(4)] Cons.prems(2,3) a(1) by simp
qed (auto simp: shows_words_def)

lemma length_word_join: "w \<in> set ws \<Longrightarrow> length w \<le> length (join_words ws)"
  by (induction ws rule: join_words.induct) auto

lemma CL_Initialize_join:
  fixes rest :: string
  assumes "ws \<noteq> []" and "list_all plain ws" and "length (join_words ws) < 2 ^ 64"
  defines "line \<equiv> cstr (join_words ws) rest"
  shows "\<exists>dups args. CL_Initialize (Some line) = Inr (\<lparr>cl_response = Some line, cl_hasCommandLine = True\<rparr>, dups) \<and>
    split_all line = Inr args \<and> shows_words args ws"
proof -
  obtain args where args: "split_all line = Inr args" "shows_words args ws"
    using split_all_join [OF assms(1-3)] line_def by blast
  have "\<forall>w \<in> set ws. length w < 2 ^ 64" using length_word_join [of _ ws] assms(3) by fastforce
  then obtain r where "foldR check_identifier args ([], []) = Inr r"
    using check_identifiers_return [OF args(2) assms(2)] by fastforce
  then show ?thesis
    using args no_nul_join [OF assms(2)] by (cases r) (auto simp: CL_Initialize_def line_def)
qed

lemma setting_found:
  assumes "list_all plain (ws1 @ (ident @ EQ # t) # ws2)" and "length (join_words (ws1 @ (ident @ EQ # t) # ws2)) < 2 ^ 64"
    and "EQ \<notin> set ident" and "\<forall>w \<in> set ws1. \<not> matches ident w \<and> w \<noteq> ident"
  shows "\<exists>cl dups. CL_Initialize (Some (cstr (join_words (ws1 @ (ident @ EQ # t) # ws2)) rest)) = Inr (cl, dups) \<and>
    (\<forall>x. WriteValue (ArgU64 x) = Inr t \<longrightarrow> GetValue_uint64 cl (lit ident) = Inr (Some x)) \<and>
    (\<forall>x. WriteValue (ArgPtr x) = Inr t \<longrightarrow> GetValue_uint64 cl (lit ident) = Inr (Some x)) \<and>
    (\<forall>x. WriteValue (ArgI64 x) = Inr t \<longrightarrow> GetValue_int64 cl (lit ident) = Inr (Some x)) \<and>
    (\<forall>b. WriteValue (ArgBool b) = Inr t \<longrightarrow> GetValue_bool cl (lit ident) = Inr (Some b))"
proof -
  let ?ws = "ws1 @ (ident @ EQ # t) # ws2"
  let ?line = "cstr (join_words ?ws) rest"
  let ?cl = "\<lparr>cl_response = Some ?line, cl_hasCommandLine = True\<rparr>"
  obtain dups args where cl: "CL_Initialize (Some ?line) = Inr (?cl, dups)" "split_all ?line = Inr args" "shows_words args ?ws"
    using CL_Initialize_join [OF _ assms(1,2), of rest] by auto
  have "list_all usable_word ?ws"
    using assms(1) length_word_join [of _ ?ws] assms(2) by (fastforce simp: list_all_iff usable_word_def plain_def)
  then have u: "list_all usable_word (ws1 @ [ident @ EQ # t])" by simp
  have n: "no_nul ident" using assms(1) plain_no_nul [of "ident @ EQ # t"] by simp
  have s: "\<forall>w \<in> set ws1. \<not> matches ident w" using assms(4) by blast
  note look = cl(3) assms(3) n u
  have w': "with_args ?cl body = body args" for body :: "StringView list \<Rightarrow> fault + bool option"
    using cl(2) by (simp add: with_args_def)
  have w'': "with_args ?cl body = body args" for body :: "StringView list \<Rightarrow> fault + u64 option"
    using cl(2) by (simp add: with_args_def)
  show ?thesis
    using cl(1) uint64_dec.number_lookup [OF _ look s] pointer_hex.number_lookup [OF _ look s]
      int64_dec.number_lookup [OF _ look s] bool_lookup [OF _ look assms(4)]
    by (intro exI [of _ ?cl] exI [of _ dups])
       (simp add: GetValue_uint64_def GetValue_int64_def GetValue_bool_def w' w'')
qed

text \<open>What the words of a command line set a number to: nothing, or the value printed after the identifier in its first word.\<close>

definition number_setting :: "string \<Rightarrow> string list \<Rightarrow> u64 option \<Rightarrow> bool" where
  "number_setting ident ws v \<longleftrightarrow>
     (case v of
        None \<Rightarrow> \<forall>w \<in> set ws. \<not> matches ident w
      | Some x \<Rightarrow> \<exists>ws1 t ws2. ws = ws1 @ (ident @ EQ # t) # ws2 \<and> WriteValue (ArgU64 x) = Inr t \<and>
                   (\<forall>w \<in> set ws1. \<not> matches ident w \<and> w \<noteq> ident))"

lemma number_loop_absent:
  assumes "shows_words args ws" and "no_nul ident" and "list_all usable_word ws" and "\<forall>w \<in> set ws. \<not> matches ident w"
  shows "number_loop parse args (lit ident) = Inr None"
  using assms(1,3,4)
proof (induction ws arbitrary: args)
  case (Cons w ws)
  then obtain a as where a: "args = a # as" "view_ok a" "view_text a = w" "shows_words as ws" by (auto simp: shows_words_Cons)
  have u: "w \<noteq> []" "length w < 2 ^ 64" using Cons.prems(2) by (auto simp: usable_word_def)
  have "number_loop parse args (lit ident) = number_loop parse as (lit ident)"
    using number_loop_skip [OF a(2,3) u, of "lit ident"] assms(2) Cons.prems(3) a(1) by simp
  then show ?case using Cons.IH [OF a(4)] Cons.prems(2,3) by simp
qed (simp add: shows_words_def)

lemma number_setting_read:
  assumes "ws \<noteq> []" and "list_all plain ws" and "length (join_words ws) < 2 ^ 64" and "EQ \<notin> set ident" and "no_nul ident"
    and "number_setting ident ws v"
  shows "\<exists>cl dups. CL_Initialize (Some (cstr (join_words ws) rest)) = Inr (cl, dups) \<and> GetValue_uint64 cl (lit ident) = Inr v"
proof (cases v)
  case None
  let ?line = "cstr (join_words ws) rest"
  obtain dups args where cl: "CL_Initialize (Some ?line) = Inr (\<lparr>cl_response = Some ?line, cl_hasCommandLine = True\<rparr>, dups)"
    "split_all ?line = Inr args" "shows_words args ws" using CL_Initialize_join [OF assms(1-3), of rest] by blast
  have "list_all usable_word ws"
    using assms(2,3) length_word_join [of _ ws] by (fastforce simp: list_all_iff usable_word_def plain_def)
  then have "number_loop Parse_uint64 args (lit ident) = Inr None"
    using number_loop_absent [OF cl(3) assms(5)] assms(6) None by (simp add: number_setting_def)
  then show ?thesis using cl(1,2) None by (auto simp: GetValue_uint64_def with_args_def)
next
  case (Some x)
  then obtain ws1 t ws2 where ws: "ws = ws1 @ (ident @ EQ # t) # ws2" "WriteValue (ArgU64 x) = Inr t"
    "\<forall>w \<in> set ws1. \<not> matches ident w \<and> w \<noteq> ident" using assms(6) by (auto simp: number_setting_def)
  then show ?thesis using setting_found [of ws1 ident t ws2 rest] assms(2-4) Some by blast
qed

text \<open>
  C19. Settings on the command line are read back. When the command line consists of words separated
  by single spaces (no quotes) and one of them is \<open>ident=text\<close>, with no earlier word for the same
  identifier, then initialisation returns, and the lookup of \<open>ident\<close> yields the number, pointer, signed
  number or boolean that \<open>text\<close> is the printed form of.
\<close>

theorem command_line_lookup:
  assumes "list_all plain (ws1 @ (ident @ EQ # t) # ws2)" and "length (join_words (ws1 @ (ident @ EQ # t) # ws2)) < 2 ^ 64"
    and "EQ \<notin> set ident" and "\<forall>w \<in> set ws1. \<not> matches ident w \<and> w \<noteq> ident"
  shows "\<exists>cl dups. CL_Initialize (Some (cstr (join_words (ws1 @ (ident @ EQ # t) # ws2)) rest)) = Inr (cl, dups) \<and>
    (\<forall>x. WriteValue (ArgU64 x) = Inr t \<longrightarrow> GetValue_uint64 cl (lit ident) = Inr (Some x)) \<and>
    (\<forall>x. WriteValue (ArgPtr x) = Inr t \<longrightarrow> GetValue_uint64 cl (lit ident) = Inr (Some x)) \<and>
    (\<forall>x. WriteValue (ArgI64 x) = Inr t \<longrightarrow> GetValue_int64 cl (lit ident) = Inr (Some x)) \<and>
    (\<forall>b. WriteValue (ArgBool b) = Inr t \<longrightarrow> GetValue_bool cl (lit ident) = Inr (Some b))"
  using assms by (rule setting_found)

theorem command_line_lookup_witness:
  "\<exists>cl dups. CL_Initialize (Some (cstr ''quiet depth=7 debug'' [])) = Inr (cl, dups) \<and> GetValue_uint64 cl (lit ''depth'') = Inr (Some 7)"
proof -
  have "num_text 10 7 = ''7''" by (subst num_text.simps) (simp add: digit_def digits_def)
  then have "WriteValue (ArgU64 7) = Inr ''7''" by (simp add: WriteUnsigned_10)
  moreover have "join_words ([''quiet''] @ (''depth'' @ EQ # ''7'') # [''debug'']) = ''quiet depth=7 debug''"
    by (simp add: SPACE_def EQ_def)
  ultimately show ?thesis
    using command_line_lookup [of "[''quiet'']" "''depth''" "''7''" "[''debug'']" "[]"]
    by (auto simp: plain_def matches_def ident_of_def EQ_def SPACE_def)
qed

text \<open>
  The start-up path does not handle a missing or empty command line. A null response is
  dereferenced although the code tests for it; an empty command line is taken for one with a single
  empty argument, and a boolean lookup then runs past the end of the string for every object in which
  no further \<open>=\<close> occurs.
\<close>

lemma command_line_missing:
  assumes "EQ \<notin> set rest" and "length rest < 2 ^ 62" and "ident \<noteq> []" and "no_nul ident"
  shows "CL_Initialize None = Inl NullDeref \<and>
    (\<exists>cl dups. CL_Initialize (Some (cstr [] rest)) = Inr (cl, dups) \<and> cl_hasCommandLine cl \<and>
       GetValue_bool cl (lit ident) = Inl OutOfBounds)"
proof -
  let ?line = "cstr [] rest"
  let ?e = "\<lparr>sv_data = ?line, sv_size = 0\<rparr>"
  have v: "view_of_cstr ?line = Inr ?e" by (simp add: view_of_cstr_def)
  have sub: "Substring ?e 0 (sub64 0 0) = ?e" by (simp add: Substring_def)
  have 1: "SplitArguments ?e None = Inr (1, None)" by (simp add: SplitArguments_def split_loop.simps put_arg_def)
  have 2: "SplitArguments ?e (Some [default_view]) = Inr (1, Some [?e])"
    using sub by (simp add: SplitArguments_def split_loop.simps put_arg_def)
  have args: "split_all ?line = Inr [?e]" using v 1 2 by (simp add: split_all_def)
  have "CountOf ?e (lit ''='') = Inr 0" by (simp add: CountOf_def count_loop.simps)
  then have init: "CL_Initialize (Some ?line) = Inr (\<lparr>cl_response = Some ?line, cl_hasCommandLine = True\<rparr>, [])"
    using args by (simp add: CL_Initialize_def strlen_def check_identifier_def)
  have "sv_eq ?e (lit ident) = Inr False" using assms(3) by (simp add: sv_eq_def)
  moreover have "IndexOf ?e (lit ''='') = Inl OutOfBounds"
    using IndexOf_empty_view_overrun [of EQ ?line] assms(1,2) by (simp add: EQ_def)
  ultimately have "bool_loop [?e] (lit ident) = Inl OutOfBounds" by simp
  then show ?thesis
    using init args by (simp add: CL_Initialize_def [of None] GetValue_bool_def with_args_def)
qed

text \<open>Several spaces between words: the skipped spaces become part of the next argument.\<close>

lemma split_keeps_leading_space:
  "split_all (cstr ''a  b'' []) = Inr [Substring \<lparr>sv_data = cstr ''a  b'' [], sv_size = 4\<rparr> 0 1,
     Substring \<lparr>sv_data = cstr ''a  b'' [], sv_size = 4\<rparr> 2 2]"
  by (simp add: split_all_def view_of_cstr_def SplitArguments_def split_loop.simps skip_spaces.simps put_arg_def
      sv_eq_def Substring_def lit_def SPACE_def QUOTE_def uchar_def sub64_def default_view_def)

end
