(* ===== verification/Port_IO.thy ===== *)
theory Port_IO
  imports Prelude
begin

text \<open>
  Port input and output (\<^verbatim>\<open>IO/PortIO.cpp\<close>). The instructions are events of a trace, and the devices behind
  the ports are a parameter: a function that answers a read from the port and from everything that happened before. So a
  status register can change from one read to the next, and a device can react to what was written.
\<close>

unbundle bit_operations_syntax

datatype port_event =
    Out8 u16 u8 | Out16 u16 u16 | Out32 u16 u32
  | In8 u16 | In16 u16 | In32 u16

type_synonym port_trace = "port_event list"
type_synonym port_device = "port_trace \<Rightarrow> u16 \<Rightarrow> u32"

definition outb :: "u16 \<Rightarrow> u8 \<Rightarrow> port_trace \<Rightarrow> port_trace" where
  "outb port v tr = tr @ [Out8 port v]"

definition outw :: "u16 \<Rightarrow> u16 \<Rightarrow> port_trace \<Rightarrow> port_trace" where
  "outw port v tr = tr @ [Out16 port v]"

definition outl :: "u16 \<Rightarrow> u32 \<Rightarrow> port_trace \<Rightarrow> port_trace" where
  "outl port v tr = tr @ [Out32 port v]"

definition inb :: "port_device \<Rightarrow> u16 \<Rightarrow> port_trace \<Rightarrow> u8 \<times> port_trace" where
  "inb dev port tr = (ucast (dev tr port), tr @ [In8 port])"

definition inw :: "port_device \<Rightarrow> u16 \<Rightarrow> port_trace \<Rightarrow> u16 \<times> port_trace" where
  "inw dev port tr = (ucast (dev tr port), tr @ [In16 port])"

definition inl :: "port_device \<Rightarrow> u16 \<Rightarrow> port_trace \<Rightarrow> u32 \<times> port_trace" where
  "inl dev port tr = (dev tr port, tr @ [In32 port])"

definition IOWait :: "port_trace \<Rightarrow> port_trace" where
  "IOWait tr = outb 0x80 0 tr"

section \<open>Waiting for a device\<close>

text \<open>
  A loop without a body that reads a port until a test succeeds, as the drivers write it. \<open>None\<close> is a loop that never
  ends. \<open>polls\<close> says that the test fails \<open>n\<close> times and then succeeds.
\<close>

partial_function (option) wait_until :: "(port_trace \<Rightarrow> bool \<times> port_trace) \<Rightarrow> port_trace \<Rightarrow> port_trace option" where
  "wait_until poll tr = (case poll tr of (ok, tr') \<Rightarrow> if ok then Some tr' else wait_until poll tr')"

fun polls :: "(port_trace \<Rightarrow> bool \<times> port_trace) \<Rightarrow> nat \<Rightarrow> port_trace \<Rightarrow> bool" where
  "polls poll 0 tr \<longleftrightarrow> fst (poll tr)"
| "polls poll (Suc n) tr \<longleftrightarrow> \<not> fst (poll tr) \<and> polls poll n (snd (poll tr))"

lemma wait_until_polls:
  "polls poll n tr \<Longrightarrow> wait_until poll tr = Some (((snd \<circ> poll) ^^ Suc n) tr)"
proof (induction n arbitrary: tr)
  case 0
  then show ?case by (subst wait_until.simps) (simp add: case_prod_beta)
next
  case (Suc n)
  then have "wait_until poll tr = wait_until poll (snd (poll tr))"
    by (subst wait_until.simps) (simp add: case_prod_beta)
  also have "\<dots> = Some (((snd \<circ> poll) ^^ Suc n) (snd (poll tr)))" by (rule Suc.IH) (use Suc.prems in simp)
  also have "((snd \<circ> poll) ^^ Suc n) (snd (poll tr)) = ((snd \<circ> poll) ^^ Suc (Suc n)) tr"
    by (simp only: funpow_Suc_right [of "Suc n"] comp_apply)
  finally show ?case .
qed

text \<open>
  The contract of a status poll: it only reads one port, and a device that becomes ready is seen. Then the wait
  ends, and it has read the port at least once and done nothing else.
\<close>

locale status_poll =
  fixes poll :: "port_trace \<Rightarrow> bool \<times> port_trace"
    and read :: port_event
  assumes poll_reads: "snd (poll tr) = tr @ [read]"
begin

lemma polled: "((snd \<circ> poll) ^^ n) tr = tr @ replicate n read"
  by (induction n) (simp_all add: poll_reads replicate_append_same)

lemma eventually_polls: "fst (poll (tr @ replicate n read)) \<Longrightarrow> \<exists>m \<le> n. polls poll m tr"
proof (induction n arbitrary: tr)
  case (Suc n)
  show ?case
  proof (cases "fst (poll tr)")
    case True
    then have "polls poll 0 tr" by simp
    then show ?thesis by blast
  next
    case False
    have "fst (poll ((tr @ [read]) @ replicate n read))" using Suc.prems by simp
    from Suc.IH [OF this] obtain m where "m \<le> n" "polls poll m (tr @ [read])" by blast
    then have "polls poll (Suc m) tr" using False by (simp add: poll_reads)
    then show ?thesis using \<open>m \<le> n\<close> by (meson Suc_le_mono)
  qed
qed auto

lemma polls_ready: "polls poll n tr \<Longrightarrow> fst (poll (tr @ replicate n read))"
proof (induction n arbitrary: tr)
  case (Suc n)
  then have "polls poll n (tr @ [read])" by (simp add: poll_reads)
  from Suc.IH [OF this] show ?case by simp
qed simp

text \<open>The wait returns as soon as the device is ready, and the last read is the one that saw it.\<close>

lemma wait_returns:
  assumes "fst (poll (tr @ replicate n read))"
  shows "\<exists>m \<le> n. wait_until poll tr = Some (tr @ replicate (Suc m) read) \<and> fst (poll (tr @ replicate m read))"
proof -
  obtain m where m: "m \<le> n" "polls poll m tr" using eventually_polls [OF assms] by blast
  then show ?thesis using wait_until_polls [OF m(2)] polled [of "Suc m" tr] polls_ready [OF m(2)] by metis
qed

end

end
