(* ===== verification/Serial_Port.thy ===== *)
theory Serial_Port
  imports Port_IO
begin

text \<open>
  The serial driver (\<^verbatim>\<open>IO/Serial.cpp\<close>). The state is the port number of the object, the static table of initialised ports
  and the trace of port accesses. The lock around \<^verbatim>\<open>Write\<close> is the subject of the theory \<open>Spinlock\<close>; the log messages of
  \<^verbatim>\<open>Initialize\<close>, which go back to this driver, are left out.
\<close>

unbundle bit_operations_syntax

record serial_sys =
  comPort :: u16
  portsInitStatus :: "bool list"
  ports :: port_trace

definition GetPortIndex :: "u16 \<Rightarrow> int" where
  "GetPortIndex p =
     (if p = 0x3F8 then 0 else if p = 0x2F8 then 1 else if p = 0x3E8 then 2 else if p = 0x2E8 then 3
      else if p = 0x5F8 then 4 else if p = 0x4F8 then 5 else if p = 0x5E8 then 6 else if p = 0x4E8 then 7 else -1)"

text \<open>The static table is indexed with this number; \<open>-1\<close> is outside of it.\<close>

definition init_status :: "serial_sys \<Rightarrow> fault + bool" where
  "init_status s =
     (let i = GetPortIndex (comPort s)
      in if i < 0 \<or> nat i \<ge> length (portsInitStatus s) then Inl OutOfBounds else Inr (portsInitStatus s ! nat i))"

definition TransmitEmpty :: "port_device \<Rightarrow> u16 \<Rightarrow> port_trace \<Rightarrow> u32 \<times> port_trace" where
  "TransmitEmpty dev port tr = (let (v, tr') = inb dev (port + 5) tr in (ucast v AND 0x20, tr'))"

definition Available :: "port_device \<Rightarrow> u16 \<Rightarrow> port_trace \<Rightarrow> u32 \<times> port_trace" where
  "Available dev port tr = (let (v, tr') = inb dev (port + 5) tr in (ucast v AND 0x01, tr'))"

definition PortInitialized :: "serial_sys \<Rightarrow> fault + bool" where
  "PortInitialized s = init_status s"

definition can_send :: "port_device \<Rightarrow> u16 \<Rightarrow> port_trace \<Rightarrow> bool \<times> port_trace" where
  "can_send dev port tr = (let (v, tr') = TransmitEmpty dev port tr in (v \<noteq> 0, tr'))"

text \<open>The loop over the characters; each waits until the transmitter is empty.\<close>

fun write_loop :: "port_device \<Rightarrow> u16 \<Rightarrow> u8 list \<Rightarrow> port_trace \<Rightarrow> port_trace option" where
  "write_loop dev port [] tr = Some tr"
| "write_loop dev port (c # cs) tr =
     (case wait_until (can_send dev port) tr of
        None \<Rightarrow> None
      | Some tr' \<Rightarrow> write_loop dev port cs (outb port c tr'))"

definition Serial_Write :: "port_device \<Rightarrow> u8 list \<Rightarrow> serial_sys \<Rightarrow> (fault + serial_sys) option" where
  "Serial_Write dev data s =
     (case init_status s of
        Inl e \<Rightarrow> Some (Inl e)
      | Inr ready \<Rightarrow>
          if \<not> ready then Some (Inr s)
          else case write_loop dev (comPort s) data (ports s) of
                 None \<Rightarrow> None
               | Some tr \<Rightarrow> Some (Inr (s\<lparr>ports := tr\<rparr>)))"

fun exists_loop :: "port_device \<Rightarrow> u16 \<Rightarrow> nat \<Rightarrow> port_trace \<Rightarrow> bool \<times> port_trace" where
  "exists_loop dev port 0 tr = (False, tr)"
| "exists_loop dev port (Suc retries) tr =
     (case can_send dev port tr of
        (ok, tr') \<Rightarrow> if ok then (True, tr') else exists_loop dev port retries (IOWait tr'))"

definition PortExists :: "port_device \<Rightarrow> u16 \<Rightarrow> port_trace \<Rightarrow> bool \<times> port_trace" where
  "PortExists dev port tr = exists_loop dev port 1000 tr"

definition configure :: "u16 \<Rightarrow> port_trace \<Rightarrow> port_trace" where
  "configure port tr =
     (let tr = outb (port + 1) 0x00 tr;
          tr = outb (port + 3) 0x80 tr;
          tr = outb (port + 0) 0x03 tr;
          tr = outb (port + 1) 0x00 tr;
          tr = outb (port + 3) 0x03 tr;
          tr = outb (port + 2) 0xC7 tr
      in outb (port + 4) 0x0B tr)"

definition Serial_Initialize :: "port_device \<Rightarrow> serial_sys \<Rightarrow> fault + serial_sys" where
  "Serial_Initialize dev s =
     (let port = comPort s;
          (found, tr) = PortExists dev port (configure port (ports s));
          s1 = s\<lparr>ports := tr\<rparr>;
          i = GetPortIndex port
      in if \<not> found then Inr s1
         else if i < 0 \<or> nat i \<ge> length (portsInitStatus s1) then Inl OutOfBounds
         else Inr (s1\<lparr>portsInitStatus := (portsInitStatus s1)[nat i := True]\<rparr>))"

section \<open>What reaches the line\<close>

interpretation line: status_poll "can_send dev port" "In8 (port + 5)" for dev port
  by unfold_locales (simp add: can_send_def TransmitEmpty_def inb_def)

text \<open>The bytes written to the data register, and whether the transmitter was empty just before each of them.\<close>

definition sent :: "u16 \<Rightarrow> port_trace \<Rightarrow> u8 list" where
  "sent port tr = concat (map (\<lambda>e. case e of Out8 p v \<Rightarrow> if p = port then [v] else [] | _ \<Rightarrow> []) tr)"

definition paced :: "port_device \<Rightarrow> u16 \<Rightarrow> port_trace \<Rightarrow> port_trace \<Rightarrow> bool" where
  "paced dev port start new \<longleftrightarrow>
     (\<forall>i v. i < length new \<and> new ! i = Out8 port v \<longrightarrow>
        0 < i \<and> new ! (i - 1) = In8 (port + 5) \<and> bit (dev (start @ take (i - 1) new) (port + 5)) 5)"

text \<open>A device whose transmitter becomes empty when it is polled long enough.\<close>

definition drains :: "port_device \<Rightarrow> u16 \<Rightarrow> bool" where
  "drains dev port \<longleftrightarrow> (\<forall>tr. \<exists>n. fst (can_send dev port (tr @ replicate n (In8 (port + 5)))))"

lemma sent_append: "sent port (a @ b) = sent port a @ sent port b"
  by (simp add: sent_def)

lemma can_send_bit: "fst (can_send dev port tr) \<longleftrightarrow> bit (dev tr (port + 5)) 5"
proof -
  have "(ucast (ucast (dev tr (port + 5)) :: u8) AND push_bit 5 1 :: u32) = 0 \<longleftrightarrow> \<not> bit (dev tr (port + 5)) 5"
    unfolding feature_bit by (simp add: bit_simps)
  then show ?thesis by (simp add: can_send_def TransmitEmpty_def inb_def)
qed

lemma sent_polls: "sent port (replicate n (In8 p)) = []"
  by (induction n) (simp_all add: sent_def)

text \<open>The events of one call: polls, and each byte right after a poll that succeeded.\<close>

fun burst :: "port_device \<Rightarrow> u16 \<Rightarrow> port_trace \<Rightarrow> u8 list \<Rightarrow> port_trace \<Rightarrow> bool" where
  "burst dev port tr [] tr' \<longleftrightarrow> tr' = tr"
| "burst dev port tr (c # cs) tr' \<longleftrightarrow>
     (\<exists>m. bit (dev (tr @ replicate m (In8 (port + 5))) (port + 5)) 5 \<and>
          burst dev port (tr @ replicate (Suc m) (In8 (port + 5)) @ [Out8 port c]) cs tr')"

lemma write_loop_burst:
  assumes "drains dev port"
  shows "\<exists>tr'. write_loop dev port cs tr = Some tr' \<and> burst dev port tr cs tr'"
proof (induction cs arbitrary: tr)
  case (Cons c cs)
  obtain n where "fst (can_send dev port (tr @ replicate n (In8 (port + 5))))" using assms by (auto simp: drains_def)
  from line.wait_returns [OF this] obtain m where
    m: "wait_until (can_send dev port) tr = Some (tr @ replicate (Suc m) (In8 (port + 5)))"
       "fst (can_send dev port (tr @ replicate m (In8 (port + 5))))" by blast
  obtain tr' where tr': "write_loop dev port cs (outb port c (tr @ replicate (Suc m) (In8 (port + 5)))) = Some tr'"
    "burst dev port (outb port c (tr @ replicate (Suc m) (In8 (port + 5)))) cs tr'" using Cons.IH by blast
  have "burst dev port tr (c # cs) tr'"
    using tr'(2) m(2) by (auto simp: outb_def can_send_bit)
  moreover have "write_loop dev port (c # cs) tr = Some tr'" using m(1) tr'(1) by simp
  ultimately show ?case by blast
qed simp

lemma paced_cons:
  assumes ready: "bit (dev (tr @ replicate m (In8 (port + 5))) (port + 5)) 5"
    and rest: "paced dev port (tr @ replicate (Suc m) (In8 (port + 5)) @ [Out8 port c]) new"
  shows "paced dev port tr (replicate (Suc m) (In8 (port + 5)) @ Out8 port c # new)"
  unfolding paced_def
proof (intro allI impI, elim conjE)
  let ?r = "replicate (Suc m) (In8 (port + 5))"
  fix i v assume i: "i < length (?r @ Out8 port c # new)" "(?r @ Out8 port c # new) ! i = Out8 port v"
  consider "i < Suc m" | "i = Suc m" | j where "i = Suc (Suc m) + j" by (metis less_SucE less_imp_Suc_add linorder_neqE_nat add_Suc)
  then show "0 < i \<and> (?r @ Out8 port c # new) ! (i - 1) = In8 (port + 5) \<and>
      bit (dev (tr @ take (i - 1) (?r @ Out8 port c # new)) (port + 5)) 5"
  proof cases
    case 1
    then show ?thesis using i(2) by (simp add: nth_append del: replicate_Suc)
  next
    case 2
    then show ?thesis using ready by (simp add: nth_append take_replicate min_def del: replicate_Suc)
  next
    case (3 j)
    then have "new ! j = Out8 port v" "j < length new" using i by (simp_all add: nth_append del: replicate_Suc)
    then have "0 < j" "new ! (j - 1) = In8 (port + 5)"
      "bit (dev ((tr @ ?r @ [Out8 port c]) @ take (j - 1) new) (port + 5)) 5"
      using rest unfolding paced_def by blast+
    then show ?thesis using 3 by (cases j) (simp_all add: nth_append del: replicate_Suc)
  qed
qed

lemma burst_paced:
  "burst dev port tr cs tr' \<Longrightarrow> \<exists>new. tr' = tr @ new \<and> sent port new = cs \<and> paced dev port tr new"
proof (induction cs arbitrary: tr)
  case (Cons c cs)
  then obtain m where m: "bit (dev (tr @ replicate m (In8 (port + 5))) (port + 5)) 5"
    "burst dev port (tr @ replicate (Suc m) (In8 (port + 5)) @ [Out8 port c]) cs tr'" by auto
  from Cons.IH [OF m(2)] obtain new where
    new: "tr' = (tr @ replicate (Suc m) (In8 (port + 5)) @ [Out8 port c]) @ new" "sent port new = cs"
      "paced dev port (tr @ replicate (Suc m) (In8 (port + 5)) @ [Out8 port c]) new" by blast
  have "sent port (replicate (Suc m) (In8 (port + 5)) @ Out8 port c # new) = c # cs"
    using new(2) sent_polls [of port "Suc m" "port + 5"] by (simp add: sent_append del: replicate_Suc) (simp add: sent_def)
  then show ?case using new(1) paced_cons [OF m(1) new(3)] by (intro exI [of _ "replicate (Suc m) (In8 (port + 5)) @ Out8 port c # new"]) simp
qed (simp add: sent_def paced_def)

section \<open>Writing\<close>

text \<open>
  Writing to a serial port. On a port that was found at set-up, and with a transmitter that drains, \<^verbatim>\<open>Write\<close> returns, and
  exactly the given bytes go to the data register, in order, each right after a read of the status that
  saw the transmitter empty. On one of the eight ports that was not found nothing is written; on any other port number the table of ports is accessed
  out of bounds.
\<close>

lemma Serial_Write_sends:
  assumes "drains dev (comPort s)" and "length (portsInitStatus s) = 8"
  shows "case init_status s of
      Inl e \<Rightarrow> e = OutOfBounds \<and> comPort s \<notin> {0x3F8, 0x2F8, 0x3E8, 0x2E8, 0x5F8, 0x4F8, 0x5E8, 0x4E8} \<and>
        Serial_Write dev data s = Some (Inl OutOfBounds)
    | Inr False \<Rightarrow> Serial_Write dev data s = Some (Inr s)
    | Inr True \<Rightarrow> \<exists>new. Serial_Write dev data s = Some (Inr (s\<lparr>ports := ports s @ new\<rparr>)) \<and>
        sent (comPort s) new = data \<and> paced dev (comPort s) (ports s) new"
proof (cases "init_status s")
  case (Inl e)
  then have "GetPortIndex (comPort s) < 0 \<or> 8 \<le> nat (GetPortIndex (comPort s))"
    using assms(2) by (auto simp: init_status_def Let_def split: if_splits)
  then have "comPort s \<notin> {0x3F8, 0x2F8, 0x3E8, 0x2E8, 0x5F8, 0x4F8, 0x5E8, 0x4E8}" "e = OutOfBounds"
    using Inl by (auto simp: GetPortIndex_def init_status_def Let_def split: if_splits)
  then show ?thesis using Inl by (simp add: Serial_Write_def)
next
  case (Inr ready)
  obtain tr' where tr': "write_loop dev (comPort s) data (ports s) = Some tr'" "burst dev (comPort s) (ports s) data tr'"
    using write_loop_burst [OF assms(1)] by blast
  from burst_paced [OF tr'(2)] obtain new where
    "tr' = ports s @ new" "sent (comPort s) new = data" "paced dev (comPort s) (ports s) new" by blast
  then show ?thesis using Inr tr'(1) by (cases ready) (auto simp: Serial_Write_def)
qed

text \<open>A line that is busy at every other poll.\<close>

definition example_line :: port_device where
  "example_line tr port = (if even (length tr) then 0 else 0x20)"

lemma example_line_drains: "drains example_line port"
proof -
  have "\<exists>n. fst (can_send example_line port (tr @ replicate n (In8 (port + 5))))" for tr
  proof -
    have "bit (example_line (tr @ replicate n (In8 (port + 5))) (port + 5)) 5" if "odd (length tr + n)" for n
      using that bit_or_one_bit [of 5 "0 :: u32" 5] by (simp add: example_line_def)
    moreover have "\<exists>n. odd (length tr + n)" by (cases "even (length tr)") (auto intro: exI [of _ 1] exI [of _ 0])
    ultimately show ?thesis unfolding can_send_bit by blast
  qed
  then show ?thesis by (simp add: drains_def)
qed

end
