(* ===== verification/Kernel_Log.thy ===== *)
theory Kernel_Log
  imports Command_Line Serial_Port
begin

text \<open>
  The kernel's messages (\<^verbatim>\<open>Logging.h\<close>, the output part of \<^verbatim>\<open>Kernel.cpp\<close>, \<^verbatim>\<open>IO/FramebufferConsole.cpp\<close>, \<^verbatim>\<open>Utility/ANSI.h\<close> and
  \<^verbatim>\<open>Utility/Optional.h\<close>): which messages are printed, what a line looks like, and that it goes to the serial port and to
  the console. The terminal emulator behind the console is third-party code: its constructor is a parameter, and the
  model keeps the text that was passed to it.
\<close>

section \<open>Optional values\<close>

record 'a Optional =
  hasValue :: bool
  opt_value :: 'a

definition HasValue :: "'a Optional \<Rightarrow> bool" where
  "HasValue x = hasValue x"

definition Value :: "'a Optional \<Rightarrow> fault + 'a" where
  "Value x = (if \<not> hasValue x then Inl (Panic ''Attempted to access value of an empty Optional!'') else Inr (opt_value x))"

definition ValueOr :: "'a \<Rightarrow> 'a Optional \<Rightarrow> 'a \<times> 'a Optional" where
  "ValueOr initializer x =
     (if hasValue x then (opt_value x, x) else (initializer, \<lparr>hasValue = True, opt_value = initializer\<rparr>))"

definition Reset :: "'a \<Rightarrow> 'a Optional \<Rightarrow> 'a Optional" where
  "Reset d0 x = \<lparr>hasValue = False, opt_value = d0\<rparr>"

text \<open>The value it stands for; the constructors from nothing and from a value.\<close>

definition opt_abs :: "'a Optional \<Rightarrow> 'a option" where
  "opt_abs x = (if hasValue x then Some (opt_value x) else None)"

fun Optional_of :: "'a \<Rightarrow> 'a option \<Rightarrow> 'a Optional" where
  "Optional_of garbage None = \<lparr>hasValue = False, opt_value = garbage\<rparr>"
| "Optional_of garbage (Some v) = \<lparr>hasValue = True, opt_value = v\<rparr>"

lemma Optional_refines:
  "opt_abs (Optional_of g v) = v" "HasValue x \<longleftrightarrow> opt_abs x \<noteq> None" "Value x = Inr v \<longleftrightarrow> opt_abs x = Some v"
  "opt_abs (Reset d x) = None" "opt_abs (snd (ValueOr i x)) = Some (fst (ValueOr i x))"
  "fst (ValueOr i x) = (case opt_abs x of None \<Rightarrow> i | Some v \<Rightarrow> v)"
  by (cases v; auto simp: opt_abs_def HasValue_def Value_def ValueOr_def Reset_def)+

section \<open>The console\<close>

definition ESC :: string where "ESC = [CHR 0x1B]"
definition White :: string where "White = ESC @ ''[37m''"
definition Cyan :: string where "Cyan = ESC @ ''[36m''"
definition Green :: string where "Green = ESC @ ''[32m''"
definition Yellow :: string where "Yellow = ESC @ ''[33m''"
definition Red :: string where "Red = ESC @ ''[31m''"
definition BackgroundOURBLE :: string where "BackgroundOURBLE = ESC @ ''[48;2;12;11;26m''"
definition ClearScreen :: string where "ClearScreen = ESC @ ''[2J'' @ ESC @ ''[H''"

text \<open>The members of the boot loader's structure that are passed on to the terminal emulator.\<close>

record limine_framebuffer =
  fb_address :: u64
  fb_width :: u64
  fb_height :: u64
  fb_pitch :: u64
  red_mask_size :: u8
  red_mask_shift :: u8
  green_mask_size :: u8
  green_mask_shift :: u8
  blue_mask_size :: u8
  blue_mask_shift :: u8

record FramebufferConsole =
  framebuffer :: "limine_framebuffer option"
  ftContext :: u64
  fb_initialized :: bool
  fb_text :: string

definition FB_Write :: "string \<Rightarrow> FramebufferConsole \<Rightarrow> FramebufferConsole" where
  "FB_Write buff s = (if fb_initialized s then s\<lparr>fb_text := fb_text s @ buff\<rparr> else s)"

definition FB_WriteString :: "string \<Rightarrow> FramebufferConsole \<Rightarrow> fault + FramebufferConsole" where
  "FB_WriteString buff s =
     (if fb_initialized s then bindR (strlen buff) (\<lambda>n. Inr (FB_Write (take (nat n) buff) s)) else Inr s)"

definition FB_Initialize :: "(limine_framebuffer \<Rightarrow> u64) \<Rightarrow> limine_framebuffer list option \<Rightarrow> FramebufferConsole \<Rightarrow> fault + FramebufferConsole" where
  "FB_Initialize flanterm_fb_init response s =
     (case response of None \<Rightarrow> Inl (Panic ''Framebuffer not available'')
      | Some fbs \<Rightarrow>
        if length fbs \<le> 0 then Inl (Panic ''Framebuffer not available'')
        else let ctx = flanterm_fb_init (fbs ! 0) in
             if ctx = 0 then Inl (Panic ''Failed to initialize Flanterm framebuffer context'')
             else bindR (FB_WriteString (cstr BackgroundOURBLE []) (s\<lparr>framebuffer := Some (fbs ! 0), ftContext := ctx, fb_initialized := True\<rparr>)) (\<lambda>s.
                  bindR (FB_WriteString (cstr White []) s) (\<lambda>s. FB_WriteString (cstr ClearScreen []) s)))"

section \<open>Messages\<close>

datatype LogLevel = DEBUG | INFO | WARNING | ERROR | FATAL

fun level_code :: "LogLevel \<Rightarrow> u32" where
  "level_code DEBUG = 0" | "level_code INFO = 1" | "level_code WARNING = 2" | "level_code ERROR = 3" | "level_code FATAL = 4"

text \<open>The order of the levels, as their codes compare.\<close>

instantiation LogLevel :: linorder
begin

definition less_eq_LogLevel :: "LogLevel \<Rightarrow> LogLevel \<Rightarrow> bool" where
  "less_eq_LogLevel l m \<longleftrightarrow> sint (level_code l) \<le> sint (level_code m)"

definition less_LogLevel :: "LogLevel \<Rightarrow> LogLevel \<Rightarrow> bool" where
  "less_LogLevel l m \<longleftrightarrow> sint (level_code l) < sint (level_code m)"

instance
proof
  fix l m n :: LogLevel
  show "l < m \<longleftrightarrow> l \<le> m \<and> \<not> m \<le> l" by (auto simp: less_eq_LogLevel_def less_LogLevel_def)
  show "l \<le> l" by (simp add: less_eq_LogLevel_def)
  show "l \<le> m \<Longrightarrow> m \<le> n \<Longrightarrow> l \<le> n" by (simp add: less_eq_LogLevel_def)
  show "l \<le> m \<Longrightarrow> m \<le> l \<Longrightarrow> l = m" by (cases l; cases m) (simp_all add: less_eq_LogLevel_def)
  show "l \<le> m \<or> m \<le> l" by (auto simp: less_eq_LogLevel_def)
qed

end

text \<open>
  The part of the kernel's state that messages use. \<open>minimumLogLevel\<close> is an enumeration over \<^verbatim>\<open>int\<close>, set from a 64-bit
  number, so it can be any 32-bit value; comparisons are signed.
\<close>

record kernel =
  debugPort :: serial_sys
  framebufferConsole :: FramebufferConsole
  minimumLogLevel :: u32
  kernel_interrupts :: bool

definition LogMessage :: "LogLevel \<Rightarrow> kernel \<Rightarrow> bool" where
  "LogMessage level k =
     (if sint (level_code level) \<ge> sint (level_code ERROR) then True
      else if sint (level_code level) \<ge> sint (minimumLogLevel k) then True
      else False)"

text \<open>Errors and worse are always printed; a level that is printed brings all higher ones with it.\<close>

lemma LogMessage_iff: "LogMessage level k \<longleftrightarrow> ERROR \<le> level \<or> sint (minimumLogLevel k) \<le> sint (level_code level)"
  by (auto simp: LogMessage_def less_eq_LogLevel_def)

lemma LogMessage_mono: "l \<le> m \<Longrightarrow> LogMessage l k \<Longrightarrow> LogMessage m k"
  unfolding LogMessage_iff by (auto simp: less_eq_LogLevel_def)

definition SetLogLevel :: "CommandLineExtractor \<Rightarrow> kernel \<Rightarrow> fault + kernel" where
  "SetLogLevel cl k =
     bindR (GetValue_uint64 cl (lit ''LOG_LEVEL'')) (\<lambda>v.
       let logLevel = Optional_of 0 v
       in if HasValue logLevel then bindR (Value logLevel) (\<lambda>n. Inr (k\<lparr>minimumLogLevel := ucast n\<rparr>)) else Inr k)"

definition to_bytes :: "string \<Rightarrow> u8 list" where
  "to_bytes = map of_char"

definition Kernel_Log :: "port_device \<Rightarrow> string \<Rightarrow> kernel \<Rightarrow> (fault + kernel) option" where
  "Kernel_Log dev message k =
     bindO (Serial_Write dev (to_bytes message) (debugPort k)) (\<lambda>d.
       Some (Inr (k\<lparr>debugPort := d, framebufferConsole := FB_Write message (framebufferConsole k)\<rparr>)))"

definition level_color :: "LogLevel \<Rightarrow> string" where
  "level_color level =
     (if level = DEBUG then Cyan else if level = INFO then Green else if level = WARNING then Yellow
      else if level = ERROR then Red else if level = FATAL then Red else White)"

definition level_name :: "LogLevel \<Rightarrow> string" where
  "level_name level =
     (if level = DEBUG then ''DEBUG'' else if level = INFO then ''INFO'' else if level = WARNING then ''WARNING''
      else if level = ERROR then ''ERROR'' else if level = FATAL then ''FATAL'' else ''UNKNOWN'')"

fun log_pieces :: "port_device \<Rightarrow> string list \<Rightarrow> kernel \<Rightarrow> (fault + kernel) option" where
  "log_pieces dev [] k = Some (Inr k)"
| "log_pieces dev (m # ms) k = bindO (Kernel_Log dev m k) (log_pieces dev ms)"

text \<open>The formatted message is passed on in pieces; the model passes their concatenation.\<close>

definition LogFmt :: "port_device \<Rightarrow> LogLevel \<Rightarrow> string \<Rightarrow> string \<Rightarrow> fmt_arg list \<Rightarrow> kernel \<Rightarrow> (fault + kernel) option" where
  "LogFmt dev level loc message args k =
     (if \<not> LogMessage level k then Some (Inr k)
      else bindO (log_pieces dev [''['', level_color level, level_name level, White, ''] '', loc, '' - ''] k) (\<lambda>k.
           bindO (Some (WriteArgs message args)) (\<lambda>body. Kernel_Log dev body k)))"

definition LOG_MESSAGE :: "port_device \<Rightarrow> LogLevel \<Rightarrow> string \<Rightarrow> string \<Rightarrow> fmt_arg list \<Rightarrow> kernel \<Rightarrow> (fault + kernel) option" where
  "LOG_MESSAGE dev level loc msg args k =
     (if LogMessage level k
      then bindO (LogFmt dev level loc msg args k) (Kernel_Log dev [CHR 0x0A, CHR 0x0D])
      else Some (Inr k))"

text \<open>A panic: the state in which the CPU halts.\<close>

definition Kernel_Panic :: "port_device \<Rightarrow> string \<Rightarrow> kernel \<Rightarrow> (fault + kernel) option" where
  "Kernel_Panic dev message k0 =
     (let k = k0\<lparr>kernel_interrupts := False\<rparr>
      in bindO (Serial_Write dev (to_bytes ''Kernel panic: '') (debugPort k)) (\<lambda>d.
         bindO (Some (strlen message)) (\<lambda>n.
         bindO (Serial_Write dev (to_bytes (take (nat n) message)) d) (\<lambda>d.
         bindO (Some (FB_WriteString (cstr ''Kernel panic: '' []) (framebufferConsole k))) (\<lambda>c.
         bindO (Some (FB_WriteString message c)) (\<lambda>c.
           Some (Inr (k\<lparr>debugPort := d, framebufferConsole := c\<rparr>))))))))"

section \<open>Output in pieces\<close>

text \<open>Writing a text in pieces is writing it at once, for both outputs.\<close>

lemma write_loop_append:
  "write_loop dev port (xs @ ys) tr = (case write_loop dev port xs tr of None \<Rightarrow> None | Some tr' \<Rightarrow> write_loop dev port ys tr')"
  by (induction xs arbitrary: tr) (auto split: option.splits)

lemma init_status_ports [simp]: "init_status (s\<lparr>ports := tr\<rparr>) = init_status s"
  by (simp add: init_status_def Let_def)

lemma Serial_Write_append: "Serial_Write dev (xs @ ys) s = bindO (Serial_Write dev xs s) (Serial_Write dev ys)"
  by (auto simp: Serial_Write_def write_loop_append split: sum.splits option.splits)

lemma FB_Write_append: "FB_Write (a @ b) c = FB_Write b (FB_Write a c)"
  by (simp add: FB_Write_def)

lemma take_cstr [simp]: "take (length t) (cstr t rest) = t"
  by (simp add: cstr_def)

lemma FB_WriteString_text: "no_nul t \<Longrightarrow> FB_WriteString (cstr t rest) c = Inr (FB_Write t c)"
  by (simp add: FB_WriteString_def FB_Write_def)

lemma FB_Initialize_clears:
  assumes "flanterm_fb_init fb \<noteq> 0"
  shows "FB_Initialize flanterm_fb_init (Some (fb # fbs)) c =
    Inr (FB_Write (BackgroundOURBLE @ White @ ClearScreen) (c\<lparr>framebuffer := Some fb, ftContext := flanterm_fb_init fb, fb_initialized := True\<rparr>))"
proof -
  have "no_nul BackgroundOURBLE" "no_nul White" "no_nul ClearScreen"
    by (simp_all add: BackgroundOURBLE_def White_def ClearScreen_def ESC_def no_nul_def)
  then show ?thesis using assms by (simp add: FB_Initialize_def Let_def FB_WriteString_text FB_Write_append)
qed

lemma bindO_assoc: "bindO (bindO m f) g = bindO m (\<lambda>x. bindO (f x) g)"
  by (auto simp: bindO_def split: option.splits sum.splits)

lemma Kernel_Log_append: "Kernel_Log dev (a @ b) k = bindO (Kernel_Log dev a k) (Kernel_Log dev b)"
  by (simp add: Kernel_Log_def to_bytes_def Serial_Write_append bindO_assoc FB_Write_append)

lemma Kernel_Log_level: "Kernel_Log dev a k = Some (Inr k') \<Longrightarrow> minimumLogLevel k' = minimumLogLevel k"
  by (auto simp: Kernel_Log_def bindO_def split: option.splits sum.splits)

lemma log_pieces_concat: "ms \<noteq> [] \<Longrightarrow> log_pieces dev ms k = Kernel_Log dev (concat ms) k"
proof (induction ms arbitrary: k)
  case (Cons m ms)
  show ?case
  proof (cases "ms = []")
    case True
    then show ?thesis by (cases "Kernel_Log dev m k") (auto simp: bindO_def split: sum.splits)
  next
    case False
    then have "log_pieces dev ms = Kernel_Log dev (concat ms)" using Cons.IH by blast
    then show ?thesis by (simp add: Kernel_Log_append)
  qed
qed simp

text \<open>A whole line.\<close>

definition log_line :: "LogLevel \<Rightarrow> string \<Rightarrow> string \<Rightarrow> string" where
  "log_line level loc body =
     ''['' @ level_color level @ level_name level @ White @ ''] '' @ loc @ '' - '' @ body @ [CHR 0x0A, CHR 0x0D]"

lemma LOG_MESSAGE_line:
  assumes "WriteArgs msg args = Inr body" and "LogMessage level k"
  shows "LOG_MESSAGE dev level loc msg args k = Kernel_Log dev (log_line level loc body) k"
proof -
  have line: "log_line level loc body =
      (concat [''['', level_color level, level_name level, White, ''] '', loc, '' - ''] @ body) @ [CHR 0x0A, CHR 0x0D]" by (simp add: log_line_def)
  show ?thesis
    unfolding line Kernel_Log_append LOG_MESSAGE_def LogFmt_def using assms by (subst log_pieces_concat) simp_all
qed

lemma LOG_MESSAGE_text:
  assumes "WriteArgs msg args = Inr body"
  shows "LOG_MESSAGE dev level loc msg args k = (if LogMessage level k then Kernel_Log dev (log_line level loc body) k else Some (Inr k))"
  using LOG_MESSAGE_line [OF assms, of level k dev loc] by (simp add: LOG_MESSAGE_def [of dev level loc msg args k])

text \<open>What one call of \<^verbatim>\<open>Log\<close> does to the two outputs.\<close>

lemma Kernel_Log_both:
  assumes "drains dev (comPort (debugPort k))" and "init_status (debugPort k) = Inr ready"
  shows "\<exists>new. Kernel_Log dev message k = Some (Inr (k\<lparr>debugPort := (debugPort k)\<lparr>ports := ports (debugPort k) @ new\<rparr>,
      framebufferConsole := FB_Write message (framebufferConsole k)\<rparr>)) \<and>
     sent (comPort (debugPort k)) new = (if ready then to_bytes message else []) \<and> paced dev (comPort (debugPort k)) (ports (debugPort k)) new"
proof (cases ready)
  case True
  obtain tr' where tr': "write_loop dev (comPort (debugPort k)) (to_bytes message) (ports (debugPort k)) = Some tr'"
    "burst dev (comPort (debugPort k)) (ports (debugPort k)) (to_bytes message) tr'" using write_loop_burst [OF assms(1)] by blast
  from burst_paced [OF tr'(2)] show ?thesis using True tr'(1) assms(2) by (auto simp: Kernel_Log_def Serial_Write_def)
next
  case False
  then show ?thesis using assms(2) by (intro exI [of _ "[]"]) (simp add: Kernel_Log_def Serial_Write_def sent_def paced_def)
qed

text \<open>A panic writes its message to both outputs and leaves interrupts off.\<close>

lemma Kernel_Panic_log:
  assumes "no_nul message"
  shows "Kernel_Panic dev (cstr message rest) k = Kernel_Log dev (''Kernel panic: '' @ message) (k\<lparr>kernel_interrupts := False\<rparr>)"
proof -
  have "FB_WriteString (cstr ''Kernel panic: '' []) c = Inr (FB_Write ''Kernel panic: '' c)" for c
    by (rule FB_WriteString_text) (simp add: no_nul_def)
  moreover define p where "p = ''Kernel panic: ''"
  ultimately have "FB_WriteString (cstr p []) c = Inr (FB_Write p c)" for c by simp
  then show ?thesis
    unfolding Kernel_Panic_def Kernel_Log_def p_def [symmetric]
    using assms by (simp add: to_bytes_def Serial_Write_append bindO_assoc FB_Write_append FB_WriteString_text Let_def)
qed

lemma Kernel_Log_interrupts:
  "Kernel_Log dev m (k\<lparr>kernel_interrupts := b\<rparr>) = bindO (Kernel_Log dev m k) (\<lambda>k'. Some (Inr (k'\<lparr>kernel_interrupts := b\<rparr>)))"
  by (cases k) (simp add: Kernel_Log_def bindO_assoc)

lemma Kernel_Panic_halts:
  assumes "drains dev (comPort (debugPort k))" and "init_status (debugPort k) = Inr ready" and "no_nul message"
  shows "\<exists>new. Kernel_Panic dev (cstr message rest) k = Some (Inr (k\<lparr>kernel_interrupts := False, debugPort := (debugPort k)\<lparr>ports := new\<rparr>,
     framebufferConsole := FB_Write (''Kernel panic: '' @ message) (framebufferConsole k)\<rparr>))"
  unfolding Kernel_Panic_log [OF assms(3)]
  using Kernel_Log_both [of dev "k\<lparr>kernel_interrupts := False\<rparr>" ready "''Kernel panic: '' @ message"] assms(1,2) by auto

section \<open>Property\<close>

text \<open>
  C40. A log message is printed exactly when its level is an error or at least the minimum level. Then one whole line, with the level in its
  colour, the place in the source, the formatted text and the line end, goes to the serial port, if it was found, and to
  the console, if it is up, and nothing else in the state changes; otherwise nothing is printed. The minimum level is what the command line
  sets, cut to 32 bits, and stays as it is when the command line does not set it.
\<close>

theorem LOG_MESSAGE_prints:
  fixes level :: LogLevel
  assumes "drains dev (comPort (debugPort k))" and "init_status (debugPort k) = Inr ready" and "WriteArgs msg args = Inr body"
    and "GetValue_uint64 cl (lit ''LOG_LEVEL'') = Inr v"
  defines "shown \<equiv> \<lambda>m. level \<in> {ERROR, FATAL} \<or> sint m \<le> sint (level_code level)" and "m0 \<equiv> minimumLogLevel k"
  shows "\<exists>k1. SetLogLevel cl k = Inr k1 \<and> k1 = k\<lparr>minimumLogLevel := (case v of None \<Rightarrow> m0 | Some n \<Rightarrow> ucast n)\<rparr> \<and>
     (if shown (minimumLogLevel k1)
      then \<exists>new. LOG_MESSAGE dev level loc msg args k1 = Some (Inr (k1\<lparr>debugPort := (debugPort k)\<lparr>ports := ports (debugPort k) @ new\<rparr>,
               framebufferConsole := FB_Write (log_line level loc body) (framebufferConsole k)\<rparr>)) \<and>
             sent (comPort (debugPort k)) new = (if ready then to_bytes (log_line level loc body) else []) \<and>
             paced dev (comPort (debugPort k)) (ports (debugPort k)) new
      else LOG_MESSAGE dev level loc msg args k1 = Some (Inr k1))"
proof -
  define k1 where "k1 = k\<lparr>minimumLogLevel := (case v of None \<Rightarrow> m0 | Some n \<Rightarrow> ucast n)\<rparr>"
  have set: "SetLogLevel cl k = Inr k1"
    using assms(4) by (cases v) (simp_all add: SetLogLevel_def k1_def m0_def HasValue_def Value_def)
  have lm: "LogMessage level k1 \<longleftrightarrow> shown (minimumLogLevel k1)" by (cases level) (auto simp: LogMessage_iff less_eq_LogLevel_def shown_def)
  have fields: "debugPort k1 = debugPort k" "framebufferConsole k1 = framebufferConsole k" by (simp_all add: k1_def)
  show ?thesis
  proof (cases "shown (minimumLogLevel k1)")
    case True
    from Kernel_Log_both [of dev k1 ready "log_line level loc body", unfolded fields, OF assms(1,2)] True set lm show ?thesis
      using LOG_MESSAGE_line [OF assms(3), of level k1 dev loc] by (intro exI [of _ k1]) (simp add: k1_def [symmetric])
  next
    case False
    then show ?thesis using set lm by (intro exI [of _ k1]) (simp add: LOG_MESSAGE_def k1_def [symmetric])
  qed
qed

text \<open>The command line asks for warnings: a warning is printed on the port.\<close>

lemma example_two: "WriteValue (ArgU64 2) = Inr ''2''"
proof -
  have "num_text 10 2 = ''2''" by (subst num_text.simps) (simp add: digit_def digits_def)
  then show ?thesis by (simp add: WriteUnsigned_10)
qed

lemma example_level: "\<exists>cl. GetValue_uint64 cl (lit ''LOG_LEVEL'') = Inr (Some 2)"
  using example_two setting_found [of "[]" "''LOG_LEVEL''" "''2''" "[]" "[]"] by (auto simp: plain_def EQ_def SPACE_def QUOTE_def)

definition example_kernel :: kernel where
  "example_kernel = \<lparr>debugPort = \<lparr>comPort = 0x3F8, portsInitStatus = True # replicate 7 False, ports = []\<rparr>,
     framebufferConsole = \<lparr>framebuffer = None, ftContext = 0, fb_initialized = False, fb_text = []\<rparr>,
     minimumLogLevel = 0, kernel_interrupts = True\<rparr>"

theorem LOG_MESSAGE_prints_witness:
  "\<exists>cl k1 k2. SetLogLevel cl example_kernel = Inr k1 \<and>
     LOG_MESSAGE example_line INFO ''[a.cpp:1]'' (cstr ''hi'' []) [] k1 = Some (Inr k1) \<and>
     LOG_MESSAGE example_line WARNING ''[a.cpp:1]'' (cstr ''hi'' []) [] k1 = Some (Inr k2) \<and>
     sent 0x3F8 (ports (debugPort k2)) = to_bytes (log_line WARNING ''[a.cpp:1]'' ''hi'')"
proof -
  obtain cl where cl: "GetValue_uint64 cl (lit ''LOG_LEVEL'') = Inr (Some 2)" using example_level by blast
  have w: "WriteArgs (cstr ''hi'' []) [] = Inr ''hi''" by (simp add: strlen_def)
  have i: "init_status (debugPort example_kernel) = Inr True" by (simp add: example_kernel_def init_status_def GetPortIndex_def)
  note p = LOG_MESSAGE_prints [OF example_line_drains i w cl, where loc = "''[a.cpp:1]''"]
  let ?k1 = "example_kernel\<lparr>minimumLogLevel := 2\<rparr>"
  have "SetLogLevel cl example_kernel = Inr ?k1" "LOG_MESSAGE example_line INFO ''[a.cpp:1]'' (cstr ''hi'' []) [] ?k1 = Some (Inr ?k1)"
    using p [of INFO] by auto
  moreover have "\<exists>k2. LOG_MESSAGE example_line WARNING ''[a.cpp:1]'' (cstr ''hi'' []) [] ?k1 = Some (Inr k2) \<and>
     sent 0x3F8 (ports (debugPort k2)) = to_bytes (log_line WARNING ''[a.cpp:1]'' ''hi'')"
    using p [of WARNING] by (auto simp: example_kernel_def)
  ultimately show ?thesis by blast
qed

end
