(* ===== verification/Processor.thy ===== *)
theory Processor
  imports C_Strings
begin

text \<open>
  The processor set-up (\<^verbatim>\<open>CPU/CPU.cpp\<close>): model specific registers, the control registers for
  floating-point and vector code, the no-execute bit, and the brand string.

  What the hardware answers is a parameter: \<open>cpuid\<close> maps a leaf to the registers EAX, EBX, ECX and EDX,
  and a \<open>simd_probe\<close> holds what the floating-point unit reports during the self test. \<^verbatim>\<open>__get_cpuid\<close> of the
  compiler's \<^verbatim>\<open>cpuid.h\<close> asks for the highest supported leaf first.
\<close>

unbundle bit_operations_syntax

type_synonym cpuid_fun = "u32 \<Rightarrow> u32 \<times> u32 \<times> u32 \<times> u32"

record core =
  msrs :: "u32 \<Rightarrow> u64"
  cr0 :: u64
  cr4 :: u64
  xcr0 :: u64
  fpuControlWord :: u16
  mxcsr :: u32

section \<open>Model specific registers\<close>

text \<open>The instructions move the two halves through EAX and EDX.\<close>

definition rdmsr :: "u32 \<Rightarrow> core \<Rightarrow> u32 \<times> u32" where
  "rdmsr MSR s = (ucast (msrs s MSR), ucast (drop_bit 32 (msrs s MSR)))"

definition wrmsr :: "u32 \<Rightarrow> u32 \<Rightarrow> u32 \<Rightarrow> core \<Rightarrow> core" where
  "wrmsr MSR low high s = s\<lparr>msrs := (msrs s)(MSR := push_bit 32 (ucast high) OR ucast low)\<rparr>"

definition ReadMSR :: "u32 \<Rightarrow> core \<Rightarrow> u64" where
  "ReadMSR MSR s = (let (low, high) = rdmsr MSR s in push_bit 32 (ucast high) OR ucast low)"

definition WriteMSR :: "u32 \<Rightarrow> u64 \<Rightarrow> core \<Rightarrow> core" where
  "WriteMSR MSR data s = (let high = ucast (drop_bit 32 data); low = ucast data in wrmsr MSR low high s)"

section \<open>Features\<close>

definition get_cpuid :: "cpuid_fun \<Rightarrow> u32 \<Rightarrow> (u32 \<times> u32 \<times> u32 \<times> u32) option" where
  "get_cpuid cpuid leaf =
     (let (maxLeaf, _, _, _) = cpuid (leaf AND 0x80000000)
      in if maxLeaf = 0 \<or> maxLeaf < leaf then None else Some (cpuid leaf))"

definition CoreHasMSR :: "cpuid_fun \<Rightarrow> bool" where
  "CoreHasMSR cpuid = (case get_cpuid cpuid 0x00000001 of
     None \<Rightarrow> False | Some (eax, ebx, ecx, edx) \<Rightarrow> edx AND push_bit 5 1 \<noteq> 0)"

definition MSR_EXTENDED_FEATURE_ENABLE :: u32 where "MSR_EXTENDED_FEATURE_ENABLE = 0xC0000080"

definition InitializeNX :: "cpuid_fun \<Rightarrow> core \<Rightarrow> fault + core" where
  "InitializeNX cpuid s =
     (if \<not> CoreHasMSR cpuid
      then Inl (Panic ''No-eXecute initialization failed, one or more cores do not support Model Specific Registers!'')
      else case get_cpuid cpuid 0x80000000 of
        None \<Rightarrow> Inl (Panic ''No-eXecute initialization failed, extended leaves unsupported!'')
      | Some (eax, _, _, _) \<Rightarrow>
          if eax < 0x80000001 then Inl (Panic ''No-eXecute initialization failed, extended leaves unsupported!'')
          else case get_cpuid cpuid 0x80000001 of
            None \<Rightarrow> Inl (Panic ''No-eXecute initialization failed!'')
          | Some (_, _, _, edx) \<Rightarrow>
              if edx AND push_bit 20 1 = 0
              then Inl (Panic ''No-eXecute initialization failed, one or more cores do not support No-eXecute!'')
              else let MSRResult = ReadMSR MSR_EXTENDED_FEATURE_ENABLE s OR push_bit 11 1
                   in Inr (WriteMSR MSR_EXTENDED_FEATURE_ENABLE MSRResult s))"

text \<open>
  The answers of the floating-point unit: status and control word after \<^verbatim>\<open>fninit\<close>, and whether the two
  sums come out right. The sum with AVX only changes a log message.
\<close>

record simd_probe =
  statusWord :: u16
  controlWord :: u16
  fpuTest_passes :: bool
  sseTest_passes :: bool

definition InitializeSIMD :: "cpuid_fun \<Rightarrow> simd_probe \<Rightarrow> core \<Rightarrow> fault + core" where
  "InitializeSIMD cpuid p s =
     (let (cpuidEAX, cpuidEBX, cpuidECX, cpuidEDX) = cpuid 1;
          hasFPU = (cpuidEDX AND push_bit 0 1 \<noteq> 0);
          hasSSE = (cpuidEDX AND push_bit 25 1 \<noteq> 0);
          hasAVX = (cpuidECX AND push_bit 28 1 \<noteq> 0)
      in if \<not> hasFPU \<or> \<not> hasSSE then Inl (Panic ''One or more CPU cores does not support critical SIMD extensions!'')
         else if statusWord p \<noteq> 0 then Inl (Panic ''SIMD initialization failed: FPU status word mismatch!'')
         else if controlWord p AND 0x103F \<noteq> 0x003F then Inl (Panic ''SIMD initialization failed: FPU control word mismatch!'')
         else let s1 = s\<lparr>cr0 := ((cr0 s AND NOT (push_bit 2 1)) OR push_bit 1 1) AND NOT (push_bit 3 1)\<rparr>;
                  c4 = cr4 s1 OR push_bit 9 1;
                  s2 = s1\<lparr>cr4 := (if hasAVX then c4 OR push_bit 18 1 else c4)\<rparr>;
                  eax = ucast (xcr0 s2) OR (7 :: u32);
                  edx = ucast (drop_bit 32 (xcr0 s2)) :: u32;
                  s3 = (if hasAVX then s2\<lparr>xcr0 := push_bit 32 (ucast edx) OR ucast eax\<rparr> else s2);
                  s4 = s3\<lparr>fpuControlWord := 0x37F, mxcsr := 0x1F80\<rparr>
              in if \<not> fpuTest_passes p then Inl (Panic ''SIMD initialization failed: FPU test failed!'')
                 else if \<not> sseTest_passes p then Inl (Panic ''SIMD initialization failed: SSE test failed!'')
                 else Inr s4)"

definition InitializeCore :: "cpuid_fun \<Rightarrow> simd_probe \<Rightarrow> core \<Rightarrow> fault + core" where
  "InitializeCore cpuid p s = bindR (InitializeSIMD cpuid p s) (InitializeNX cpuid)"

section \<open>The brand string\<close>

text \<open>A 32-bit word stored in memory, low byte first.\<close>

definition chunk :: "u32 \<Rightarrow> string" where
  "chunk w = map (\<lambda>k. char_of (unat (drop_bit (8 * k) w AND 0xFF))) [0, 1, 2, 3]"

definition brand_bytes :: "cpuid_fun \<Rightarrow> string" where
  "brand_bytes cpuid = concat (map (\<lambda>leaf. let (a, b, c, d) = cpuid leaf in chunk a @ chunk b @ chunk c @ chunk d)
     [0x80000002, 0x80000003, 0x80000004])"

fun trim_trailing :: "nat \<Rightarrow> string \<Rightarrow> string" where
  "trim_trailing 0 buffer = buffer"
| "trim_trailing (Suc charIndex) buffer =
     (if buffer ! charIndex = NUL \<or> IsCharWhitespace (buffer ! charIndex)
      then trim_trailing charIndex (buffer[charIndex := NUL])
      else buffer)"

fun skip_leading :: "string \<Rightarrow> nat \<Rightarrow> fault + nat" where
  "skip_leading [] startIndex = Inl OutOfBounds"
| "skip_leading (c # p) startIndex =
     (if c \<noteq> NUL \<and> IsCharWhitespace c then skip_leading p (startIndex + 1) else Inr startIndex)"

text \<open>
  The loop that moves the string to the front. It advances \<open>shiftIndex\<close> only; the buffer has 49 bytes, and
  a write after its end is the fault \<open>OutOfBounds\<close>.
\<close>

function shift_loop :: "nat \<Rightarrow> nat \<Rightarrow> string \<Rightarrow> fault + string" where
  "shift_loop startIndex shiftIndex buffer =
     (if shiftIndex \<ge> length buffer \<or> startIndex + 1 \<ge> length buffer then Inl OutOfBounds
      else if buffer ! (startIndex + 1) \<noteq> NUL
      then shift_loop startIndex (shiftIndex + 1) (buffer[shiftIndex := buffer ! (startIndex + 1)])
      else Inr (buffer[shiftIndex := NUL]))"
  by pat_completeness auto
termination
  by (relation "measure (\<lambda>(_, shiftIndex, buffer). length buffer - shiftIndex)") auto

declare shift_loop.simps [simp del]

definition ReadBrandString :: "cpuid_fun \<Rightarrow> fault + string" where
  "ReadBrandString cpuid =
     (let buffer = trim_trailing 48 (brand_bytes cpuid @ [NUL])
      in bindR (skip_leading buffer 0) (\<lambda>startIndex.
         if startIndex > 0 then shift_loop startIndex 0 buffer else Inr buffer))"

text \<open>\<^verbatim>\<open>CPU::Initialize\<close>: the name and its length, which is kept in eight bits.\<close>

definition CPU_Initialize :: "cpuid_fun \<Rightarrow> fault + string \<times> u8" where
  "CPU_Initialize cpuid =
     bindR (ReadBrandString cpuid) (\<lambda>cpuName.
     bindR (strlen cpuName) (\<lambda>n. Inr (cpuName, of_int n)))"

text \<open>The number of cores is the boot loader's; a null response is dereferenced.\<close>

definition GetCoreCount :: "u64 option \<Rightarrow> fault + u64" where
  "GetCoreCount response = (case response of None \<Rightarrow> Inl NullDeref | Some cpu_count \<Rightarrow> Inr cpu_count)"

definition GetCPUName :: "string \<times> u8 \<Rightarrow> string" where
  "GetCPUName = (\<lambda>(cpuName, cpuNameLength). take (unat cpuNameLength) cpuName)"

section \<open>Lemmas\<close>

lemma bit_halves: "push_bit 32 (ucast (ucast (drop_bit 32 w) :: u32)) OR ucast (ucast w :: u32) = (w :: u64)"
  by (rule bit_word_eqI) (auto simp: bit_simps)

lemma ReadMSR_value [simp]: "ReadMSR MSR s = msrs s MSR"
  by (simp add: ReadMSR_def rdmsr_def bit_halves)

lemma WriteMSR_value [simp]: "WriteMSR MSR data s = s\<lparr>msrs := (msrs s)(MSR := data)\<rparr>"
  by (simp add: WriteMSR_def wrmsr_def bit_halves)

lemma length_chunk [simp]: "length (chunk w) = 4"
  by (simp add: chunk_def)

lemma length_brand_bytes [simp]: "length (brand_bytes cpuid) = 48"
  by (simp add: brand_bytes_def split: prod.splits)

text \<open>The string that is left when the zeros and blanks at its end are cut off.\<close>

definition trimmed :: "string \<Rightarrow> string" where
  "trimmed s = rev (dropWhile (\<lambda>c. c = NUL \<or> IsCharWhitespace c) (rev s))"

definition padded :: "string \<Rightarrow> string" where
  "padded s = s @ replicate (49 - length s) NUL"

lemma trimmed_snoc:
  "trimmed (s @ [c]) = (if c = NUL \<or> IsCharWhitespace c then trimmed s else s @ [c])"
  by (simp add: trimmed_def)

lemma trimmed_length: "length (trimmed s) \<le> length s"
  by (simp add: trimmed_def) (metis length_dropWhile_le length_rev)

lemma trim_trailing_trimmed:
  "trim_trailing (length s) (s @ r) = trimmed s @ replicate (length s - length (trimmed s)) NUL @ r"
proof (induction s arbitrary: r rule: rev_induct)
  case (snoc c s)
  have n: "(s @ c # r) ! length s = c" "(s @ c # r)[length s := NUL] = s @ NUL # r" by simp_all
  show ?case
  proof (cases "c = NUL \<or> IsCharWhitespace c")
    case True
    then have t: "trimmed (s @ [c]) = trimmed s" by (simp only: trimmed_snoc if_True)
    have "trim_trailing (length (s @ [c])) ((s @ [c]) @ r) = trim_trailing (length s) (s @ NUL # r)" using True n by simp
    also have "\<dots> = trimmed s @ replicate (length s - length (trimmed s)) NUL @ NUL # r" by (rule snoc)
    also have "\<dots> = trimmed s @ replicate (Suc (length s - length (trimmed s))) NUL @ r"
      by (simp add: replicate_app_Cons_same)
    also have "\<dots> = trimmed (s @ [c]) @ replicate (length (s @ [c]) - length (trimmed (s @ [c]))) NUL @ r"
      using trimmed_length [of s] by (simp add: t Suc_diff_le)
    finally show ?thesis .
  next
    case False
    then have t: "trimmed (s @ [c]) = s @ [c]" by (simp only: trimmed_snoc if_False)
    show ?thesis using False n by (simp add: t)
  qed
qed (simp add: trimmed_def)

lemma trim_trailing_brand: "trim_trailing 48 (brand_bytes cpuid @ [NUL]) = padded (trimmed (brand_bytes cpuid))"
proof -
  let ?s = "brand_bytes cpuid"
  have "length (trimmed ?s) \<le> 48" using trimmed_length [of ?s] by simp
  then have "replicate (48 - length (trimmed ?s)) NUL @ [NUL] = replicate (49 - length (trimmed ?s)) NUL"
    by (simp add: replicate_append_same Suc_diff_le flip: replicate_Suc)
  then show ?thesis using trim_trailing_trimmed [of ?s "[NUL]"] by (simp add: padded_def)
qed

text \<open>The number of blanks in front; a string that is left after trimming does not consist of blanks.\<close>

definition leading :: "string \<Rightarrow> nat" where
  "leading s = length (takeWhile IsCharWhitespace s)"

lemma IsCharWhitespace_NUL [simp]: "\<not> IsCharWhitespace NUL"
  by (simp add: IsCharWhitespace_def)

lemma skip_leading_count:
  "leading s < length s \<Longrightarrow> skip_leading s i = Inr (i + leading s)"
  by (induction s arbitrary: i) (auto simp: leading_def)

lemma leading_le: "k < length s \<Longrightarrow> \<not> IsCharWhitespace (s ! k) \<Longrightarrow> leading s \<le> k"
  by (induction s arbitrary: k) (auto simp: leading_def nth_Cons split: nat.splits)

lemma last_trimmed: "trimmed s \<noteq> [] \<Longrightarrow> \<not> IsCharWhitespace (last (trimmed s))"
  using hd_dropWhile [of "\<lambda>c. c = NUL \<or> IsCharWhitespace c" "rev s"] by (simp add: trimmed_def last_rev)

lemma leading_padded:
  assumes "length s \<le> 48" and "s \<noteq> [] \<Longrightarrow> \<not> IsCharWhitespace (last s)"
  shows "leading (padded s) < 48"
proof (cases "s = []")
  case True
  then have "leading (padded s) \<le> 0" by (intro leading_le) (simp_all add: padded_def)
  then show ?thesis by simp
next
  case False
  then have "padded s ! (length s - 1) = last s" by (simp add: padded_def nth_append last_conv_nth)
  with False assms have "leading (padded s) \<le> length s - 1" by (intro leading_le) (simp_all add: padded_def)
  then show ?thesis using assms(1) False by (cases s) auto
qed

text \<open>The moving loop runs off the buffer whenever it starts on a character that is not zero.\<close>

lemma shift_loop_overrun:
  assumes "startIndex + 1 < length buffer" and "buffer ! (startIndex + 1) \<noteq> NUL"
  shows "shift_loop startIndex shiftIndex buffer = Inl OutOfBounds"
  using assms
proof (induction startIndex shiftIndex buffer rule: shift_loop.induct)
  case (1 startIndex shiftIndex buffer)
  show ?case
  proof (cases "shiftIndex < length buffer")
    case True
    have "buffer[shiftIndex := buffer ! (startIndex + 1)] ! (startIndex + 1) \<noteq> NUL"
      using 1(2,3) by (cases "shiftIndex = startIndex + 1") simp_all
    then show ?thesis using 1 True by (subst shift_loop.simps) simp
  qed (simp add: shift_loop.simps)
qed

lemma shift_loop_stop:
  "startIndex + 1 < length buffer \<Longrightarrow> buffer ! (startIndex + 1) = NUL \<Longrightarrow>
   shift_loop startIndex 0 buffer = Inr (buffer[0 := NUL])"
  by (subst shift_loop.simps) auto

section \<open>Properties\<close>

lemma ReadBrandString_cases:
  "let buffer = padded (trimmed (brand_bytes cpuid)); k = leading buffer
   in ReadBrandString cpuid =
        (if k = 0 then Inr buffer else if buffer ! (k + 1) = NUL then Inr (buffer[0 := NUL]) else Inl OutOfBounds)"
proof -
  let ?b = "padded (trimmed (brand_bytes cpuid))"
  have "length (trimmed (brand_bytes cpuid)) \<le> 48" using trimmed_length [of "brand_bytes cpuid"] by simp
  moreover from this have len: "length ?b = 49" by (simp add: padded_def)
  ultimately have k: "leading ?b < 48" using leading_padded last_trimmed by blast
  then show ?thesis
    using len skip_leading_count [of ?b 0] shift_loop_overrun [of "leading ?b" ?b 0] shift_loop_stop [of "leading ?b" ?b]
    by (simp add: ReadBrandString_def trim_trailing_brand Let_def)
qed

text \<open>
  C24. The brand string, for every answer of the processor. The zeros and blanks at the end are always cut
  off. When the string has no blanks in front, that is the result. When it has, the code means to move the
  string to the front; but the loop never advances its source, so it writes past the 49 bytes of the
  buffer, unless the string behind the blanks is a single character, and then the name is lost.
\<close>

theorem ReadBrandString_exact:
  "let buffer = padded (trimmed (brand_bytes cpuid)); k = leading buffer
   in ReadBrandString cpuid =
        (if k = 0 then Inr buffer else if buffer ! (k + 1) = NUL then Inr (buffer[0 := NUL]) else Inl OutOfBounds)"
  by (rule ReadBrandString_cases)

lemma get_cpuid_extended:
  "get_cpuid cpuid 0x80000001 = Some r \<Longrightarrow> \<exists>x. get_cpuid cpuid 0x80000000 = Some x \<and> \<not> fst x < 0x80000001"
proof (cases "cpuid 0x80000000")
  case (fields a b c d)
  assume "get_cpuid cpuid 0x80000001 = Some r"
  then have "a \<noteq> 0" "\<not> a < 0x80000001" using fields by (simp_all add: get_cpuid_def split: if_splits)
  moreover from this have "\<not> a < 0x80000000" by (simp add: word_less_nat_alt)
  ultimately show ?thesis using fields by (simp add: get_cpuid_def)
qed

lemma InitializeNX_returns:
  "(\<exists>s'. InitializeNX cpuid s = Inr s') \<longleftrightarrow>
     (\<exists>a b c d. get_cpuid cpuid 1 = Some (a, b, c, d) \<and> bit d 5) \<and>
     (\<exists>a b c d. get_cpuid cpuid 0x80000001 = Some (a, b, c, d) \<and> bit d 20)"
  using get_cpuid_extended [of cpuid] unfolding InitializeNX_def CoreHasMSR_def feature_bit
  by (auto split: option.splits if_splits)

lemma InitializeNX_state:
  "InitializeNX cpuid s = Inr s' \<Longrightarrow>
     s' = s\<lparr>msrs := (msrs s)(MSR_EXTENDED_FEATURE_ENABLE := msrs s MSR_EXTENDED_FEATURE_ENABLE OR push_bit 11 1)\<rparr>"
  unfolding InitializeNX_def by (auto split: option.splits if_splits prod.splits)

lemma InitializeSIMD_returns:
  "cpuid 1 = (a, b, c, d) \<Longrightarrow>
   (\<exists>s'. InitializeSIMD cpuid p s = Inr s') \<longleftrightarrow>
     bit d 0 \<and> bit d 25 \<and> statusWord p = 0 \<and> controlWord p AND 0x103F = 0x003F \<and> fpuTest_passes p \<and> sseTest_passes p"
  unfolding InitializeSIMD_def feature_bit Let_def by auto

lemma InitializeSIMD_state:
  assumes "cpuid 1 = (a, b, c, d)" and "InitializeSIMD cpuid p s = Inr s'"
  shows "s' = s\<lparr>cr0 := ((cr0 s AND NOT (push_bit 2 1)) OR push_bit 1 1) AND NOT (push_bit 3 1),
    cr4 := (if bit c 28 then cr4 s OR push_bit 9 1 OR push_bit 18 1 else cr4 s OR push_bit 9 1),
    xcr0 := (if bit c 28 then xcr0 s OR 7 else xcr0 s), fpuControlWord := 0x37F, mxcsr := 0x1F80\<rparr>"
proof -
  have x: "push_bit 32 (ucast (ucast (drop_bit 32 w) :: u32)) OR ucast (ucast w OR (7 :: u32)) = w OR (7 :: u64)" for w :: u64
  proof -
    have "ucast (ucast w OR (7 :: u32)) = (ucast (ucast w :: u32) :: u64) OR 7"
      by (simp add: unsigned_or_eq)
    then show ?thesis using bit_halves [of w] by (simp add: or.assoc flip: or.assoc)
  qed
  show ?thesis using assms(2) unfolding InitializeSIMD_def feature_bit Let_def assms(1) prod.case
    by (simp add: x or.assoc split: if_splits)
qed

lemma cr0_bits:
  "i < 64 \<Longrightarrow> bit (((w AND NOT (push_bit j 1)) OR push_bit i 1) AND NOT (push_bit k (1 :: u64))) n \<longleftrightarrow>
     (n = i \<or> bit w n \<and> n \<noteq> j) \<and> n \<noteq> k"
  by (auto simp: bit_or_one_bit bit_and_not_one_bit)

text \<open>What the set-up of a core needs of the processor.\<close>

definition core_features :: "cpuid_fun \<Rightarrow> simd_probe \<Rightarrow> bool" where
  "core_features cpuid p \<longleftrightarrow>
     (\<exists>a b c d. cpuid 1 = (a, b, c, d) \<and> bit d 0 \<and> bit d 25) \<and> statusWord p = 0 \<and> controlWord p AND 0x103F = 0x003F \<and>
     fpuTest_passes p \<and> sseTest_passes p \<and>
     (\<exists>a b c d. get_cpuid cpuid 1 = Some (a, b, c, d) \<and> bit d 5) \<and>
     (\<exists>a b c d. get_cpuid cpuid 0x80000001 = Some (a, b, c, d) \<and> bit d 20)"

lemma InitializeCore_returns: "(\<exists>s'. InitializeCore cpuid p s = Inr s') \<longleftrightarrow> core_features cpuid p"
proof -
  obtain a b c d where id: "cpuid 1 = (a, b, c, d)" by (cases "cpuid 1")
  note simd = InitializeSIMD_returns [of cpuid, OF id, of p s]
  have "(\<exists>s'. InitializeCore cpuid p s = Inr s') \<longleftrightarrow> (\<exists>s1. InitializeSIMD cpuid p s = Inr s1 \<and> (\<exists>s'. InitializeNX cpuid s1 = Inr s'))"
    by (auto simp: InitializeCore_def result_simps)
  then show ?thesis unfolding InitializeNX_returns using simd id by (auto simp: core_features_def)
qed

lemma InitializeCore_msrs:
  assumes "InitializeCore cpuid p s = Inr s'" and "r \<noteq> MSR_EXTENDED_FEATURE_ENABLE"
  shows "msrs s' r = msrs s r"
proof -
  obtain a b c d where id: "cpuid 1 = (a, b, c, d)" by (cases "cpuid 1")
  obtain s1 where s1: "InitializeSIMD cpuid p s = Inr s1" "InitializeNX cpuid s1 = Inr s'"
    using assms(1) by (auto simp: InitializeCore_def result_simps)
  show ?thesis using assms(2) by (simp add: InitializeSIMD_state [of cpuid, OF id s1(1)] InitializeNX_state [OF s1(2)])
qed

lemma InitializeCore_nx:
  assumes "InitializeCore cpuid p s = Inr s'"
  shows "bit (msrs s' MSR_EXTENDED_FEATURE_ENABLE) 11"
proof -
  obtain s1 where "InitializeNX cpuid s1 = Inr s'" using assms by (auto simp: InitializeCore_def result_simps)
  from InitializeNX_state [OF this] show ?thesis using bit_set_flag [of 11 "msrs s1 MSR_EXTENDED_FEATURE_ENABLE" 11] by simp
qed


end
