(* ===== verification/Local_APIC.thy ===== *)
theory Local_APIC
  imports Paging Processor
begin

text \<open>
  The local interrupt controller of a CPU (\<^verbatim>\<open>Interrupts/LAPIC.cpp\<close>). The controller is memory-mapped; the
  state keeps what was last written to each register, and the sequence of all writes.

  The device is a parameter \<open>dev\<close>: \<open>dev n reg v\<close> is what the \<open>n\<close>-th read returns for the register \<open>reg\<close> into
  which \<open>v\<close> was written last. So a register can change between two reads, as the delivery
  status of an inter-processor interrupt does.
\<close>

unbundle bit_operations_syntax

type_synonym lapic_device = "nat \<Rightarrow> u32 \<Rightarrow> u32 \<Rightarrow> u32"

record LAPIC =
  mmioBase :: u64
  lapic_regs :: "u32 \<Rightarrow> u32"
  lapic_reads :: nat
  lapic_writes :: "(u32 \<times> u32) list"

section \<open>Registers\<close>

definition SPIRV :: u32 where "SPIRV = 0xF0"
definition ERROR_STATUS :: u32 where "ERROR_STATUS = 0x280"
definition EOI :: u32 where "EOI = 0xB0"
definition TPR :: u32 where "TPR = 0x80"
definition INITIAL_COUNT :: u32 where "INITIAL_COUNT = 0x380"
definition DIVIDE_CONFIG :: u32 where "DIVIDE_CONFIG = 0x3E0"
definition CURRENT_COUNT :: u32 where "CURRENT_COUNT = 0x390"
definition ICR_LOW :: u32 where "ICR_LOW = 0x300"
definition ICR_HIGH :: u32 where "ICR_HIGH = 0x310"
definition LVT_TIMER_OFFSET :: u32 where "LVT_TIMER_OFFSET = 0x320"
definition LVT_LINT0_OFFSET :: u32 where "LVT_LINT0_OFFSET = 0x350"
definition LVT_LINT1_OFFSET :: u32 where "LVT_LINT1_OFFSET = 0x360"
definition LVT_ERROR_OFFSET :: u32 where "LVT_ERROR_OFFSET = 0x370"
definition IA32_APIC_MSR :: u32 where "IA32_APIC_MSR = 0x1B"

lemmas lapic_registers = SPIRV_def ERROR_STATUS_def EOI_def TPR_def INITIAL_COUNT_def DIVIDE_CONFIG_def
  CURRENT_COUNT_def ICR_LOW_def ICR_HIGH_def LVT_TIMER_OFFSET_def LVT_LINT0_OFFSET_def LVT_LINT1_OFFSET_def
  LVT_ERROR_OFFSET_def

definition LAPIC_WriteRegister :: "u32 \<Rightarrow> u32 \<Rightarrow> LAPIC \<Rightarrow> fault + LAPIC" where
  "LAPIC_WriteRegister reg v s =
     (if mmioBase s = 0 then Inl NullDeref
      else Inr (s\<lparr>lapic_regs := (lapic_regs s)(reg := v), lapic_writes := lapic_writes s @ [(reg, v)]\<rparr>))"

definition LAPIC_ReadRegister :: "lapic_device \<Rightarrow> u32 \<Rightarrow> LAPIC \<Rightarrow> fault + u32 \<times> LAPIC" where
  "LAPIC_ReadRegister dev reg s =
     (if mmioBase s = 0 then Inl NullDeref
      else Inr (dev (lapic_reads s) reg (lapic_regs s reg), s\<lparr>lapic_reads := lapic_reads s + 1\<rparr>))"

definition MaskLVTEntry :: "lapic_device \<Rightarrow> u32 \<Rightarrow> LAPIC \<Rightarrow> fault + LAPIC" where
  "MaskLVTEntry dev lvtRegister s =
     bindR (LAPIC_ReadRegister dev lvtRegister s) (\<lambda>(v, s1). LAPIC_WriteRegister lvtRegister (v OR push_bit 16 1) s1)"

definition UnmaskLVTEntry :: "lapic_device \<Rightarrow> u32 \<Rightarrow> LAPIC \<Rightarrow> fault + LAPIC" where
  "UnmaskLVTEntry dev lvtRegister s =
     bindR (LAPIC_ReadRegister dev lvtRegister s) (\<lambda>(v, s1). LAPIC_WriteRegister lvtRegister (v AND NOT (push_bit 16 1)) s1)"

section \<open>Operations\<close>

definition SendEOI :: "LAPIC \<Rightarrow> fault + LAPIC" where
  "SendEOI s = (if mmioBase s = 0 then Inr s else LAPIC_WriteRegister EOI 0 s)"

datatype TimerDivide = By1 | By2 | By4 | By8 | By16 | By32 | By64 | By128

fun divide_code :: "TimerDivide \<Rightarrow> u32" where
  "divide_code By1 = 11" | "divide_code By2 = 0" | "divide_code By4 = 1" | "divide_code By8 = 2"
| "divide_code By16 = 3" | "divide_code By32 = 8" | "divide_code By64 = 9" | "divide_code By128 = 10"

definition SetLvtTimer :: "u8 \<Rightarrow> TimerDivide \<Rightarrow> bool \<Rightarrow> u32 \<Rightarrow> LAPIC \<Rightarrow> fault + LAPIC" where
  "SetLvtTimer vec divisor periodic count s =
     bindR (LAPIC_WriteRegister DIVIDE_CONFIG (divide_code divisor) s) (\<lambda>s1.
     bindR (LAPIC_WriteRegister LVT_TIMER_OFFSET (ucast vec OR (if periodic then push_bit 17 1 else 0)) s1) (\<lambda>s2.
       LAPIC_WriteRegister INITIAL_COUNT count s2))"

definition GetLvtCount :: "lapic_device \<Rightarrow> LAPIC \<Rightarrow> fault + u32 \<times> LAPIC" where
  "GetLvtCount dev s = LAPIC_ReadRegister dev CURRENT_COUNT s"

datatype DeliveryMode = Fixed | LowestPriority | SMI | NMI | INIT | ExtINT
datatype TriggerMode = Edge | Level
datatype DestinationShorthand = NoShorthand | Self | AllIncludingSelf | AllExcludingSelf

fun delivery_code :: "DeliveryMode \<Rightarrow> u8" where
  "delivery_code Fixed = 0" | "delivery_code LowestPriority = 1" | "delivery_code SMI = 2"
| "delivery_code NMI = 4" | "delivery_code INIT = 5" | "delivery_code ExtINT = 7"

fun trigger_code :: "TriggerMode \<Rightarrow> u8" where
  "trigger_code Edge = 0" | "trigger_code Level = 1"

fun shorthand_code :: "DestinationShorthand \<Rightarrow> u8" where
  "shorthand_code NoShorthand = 0" | "shorthand_code Self = 1"
| "shorthand_code AllIncludingSelf = 2" | "shorthand_code AllExcludingSelf = 3"

text \<open>The loop that waits for the delivery status to clear; \<open>None\<close> is a wait that never ends.\<close>

partial_function (option) wait_idle :: "lapic_device \<Rightarrow> LAPIC \<Rightarrow> (fault + LAPIC) option" where
  "wait_idle dev s =
     (case LAPIC_ReadRegister dev ICR_LOW s of
        Inl e \<Rightarrow> Some (Inl e)
      | Inr (v, s1) \<Rightarrow> if v AND push_bit 12 1 \<noteq> 0 then wait_idle dev s1 else Some (Inr s1))"

definition icr_low :: "u8 \<Rightarrow> DeliveryMode \<Rightarrow> TriggerMode \<Rightarrow> DestinationShorthand \<Rightarrow> u32" where
  "icr_low vec deliveryMode triggerMode destinationShorthand =
     ucast vec OR push_bit 8 (ucast (delivery_code deliveryMode)) OR push_bit 14 1
     OR push_bit 15 (ucast (trigger_code triggerMode)) OR push_bit 18 (ucast (shorthand_code destinationShorthand))"

definition SendIPI ::
  "lapic_device \<Rightarrow> u8 \<Rightarrow> u32 \<Rightarrow> DeliveryMode \<Rightarrow> TriggerMode \<Rightarrow> DestinationShorthand \<Rightarrow> LAPIC \<Rightarrow> (fault + LAPIC) option" where
  "SendIPI dev vec destination deliveryMode triggerMode destinationShorthand s =
     bindO (wait_idle dev s) (\<lambda>s1.
     bindO (Some (if destinationShorthand = NoShorthand then LAPIC_WriteRegister ICR_HIGH (push_bit 24 destination) s1 else Inr s1)) (\<lambda>s2.
     bindO (Some (LAPIC_WriteRegister ICR_LOW (icr_low vec deliveryMode triggerMode destinationShorthand) s2))
       (wait_idle dev)))"

definition SendIPIAllExcludingSelf :: "lapic_device \<Rightarrow> u8 \<Rightarrow> LAPIC \<Rightarrow> (fault + LAPIC) option" where
  "SendIPIAllExcludingSelf dev vec = SendIPI dev vec 0 Fixed Edge AllExcludingSelf"

definition SendIPISelf :: "lapic_device \<Rightarrow> u8 \<Rightarrow> LAPIC \<Rightarrow> (fault + LAPIC) option" where
  "SendIPISelf dev vec = SendIPI dev vec 0 Fixed Edge Self"

definition ReceiveIPI :: "lapic_device \<Rightarrow> LAPIC \<Rightarrow> fault + u32 \<times> LAPIC" where
  "ReceiveIPI dev s = bindR (LAPIC_ReadRegister dev ICR_LOW s) (\<lambda>(v, s1). Inr (drop_bit 24 v, s1))"

section \<open>Initialisation\<close>

text \<open>
  What \<^verbatim>\<open>Initialize\<close> works on: the core's registers, paging, the shared virtual address of the controller's
  registers (the static member \<^verbatim>\<open>SharedLapicVirtualBase\<close>), the object itself and the interrupt flag, which the last instruction sets.
\<close>

record lapic_env =
  env_core :: core
  env_paging :: paging_sys
  SharedLapicVirtualBase :: u64
  env_lapic :: LAPIC
  env_interrupts :: bool

definition map_registers :: "u64 \<Rightarrow> lapic_env \<Rightarrow> (fault + lapic_env) option" where
  "map_registers physBase e =
     (if SharedLapicVirtualBase e \<noteq> 0 then Some (Inr e)
      else bindO (FindAvailableVirtualAddressRangeKernel 1 (env_paging e)) (\<lambda>(start, stop).
           bindO (Some (MapPage (sys_pageState (env_paging e)) start physBase (Present OR ReadWrite) (env_paging e))) (\<lambda>p.
             Some (Inr (e\<lparr>env_paging := p, SharedLapicVirtualBase := start\<rparr>)))))"

definition MINIMUM_IRQ_NUM :: u8 where "MINIMUM_IRQ_NUM = 0x00"

definition setup_registers :: "lapic_device \<Rightarrow> LAPIC \<Rightarrow> fault + LAPIC" where
  "setup_registers dev s =
     bindR (LAPIC_WriteRegister TPR 0 s) (\<lambda>s.
     bindR (LAPIC_WriteRegister SPIRV (0xFF OR push_bit 8 1) s) (\<lambda>s.
     bindR (MaskLVTEntry dev LVT_TIMER_OFFSET s) (\<lambda>s.
     bindR (MaskLVTEntry dev LVT_LINT0_OFFSET s) (\<lambda>s.
     bindR (MaskLVTEntry dev LVT_LINT1_OFFSET s) (\<lambda>s.
     bindR (MaskLVTEntry dev LVT_ERROR_OFFSET s) (\<lambda>s.
     bindR (LAPIC_WriteRegister ERROR_STATUS 0 s) (\<lambda>s.
     bindR (LAPIC_WriteRegister ERROR_STATUS 0 s) (\<lambda>s.
     bindR (LAPIC_WriteRegister EOI 0 s) (\<lambda>s.
       LAPIC_WriteRegister TPR (ucast MINIMUM_IRQ_NUM) s)))))))))"

definition LAPIC_Initialize :: "lapic_device \<Rightarrow> lapic_env \<Rightarrow> (fault + lapic_env) option" where
  "LAPIC_Initialize dev e0 =
     (let apicBaseMsr = ReadMSR IA32_APIC_MSR (env_core e0);
          physBase = apicBaseMsr AND 0xFFFFF000
      in bindO (map_registers physBase e0) (\<lambda>e1.
         let e2 = e1\<lparr>env_lapic := (env_lapic e1)\<lparr>mmioBase := SharedLapicVirtualBase e1\<rparr>\<rparr>;
             e3 = (if apicBaseMsr AND push_bit 11 1 = 0
                   then e2\<lparr>env_core := WriteMSR IA32_APIC_MSR (apicBaseMsr OR push_bit 11 1) (env_core e2)\<rparr> else e2)
         in bindO (Some (setup_registers dev (env_lapic e3))) (\<lambda>l. Some (Inr (e3\<lparr>env_lapic := l, env_interrupts := True\<rparr>)))))"

section \<open>Lemmas\<close>

text \<open>The wait ends when the device reports the end of the delivery; it only reads.\<close>

lemma wait_idle_returns:
  assumes "mmioBase s \<noteq> 0" and "\<not> bit (dev (lapic_reads s + n) ICR_LOW (lapic_regs s ICR_LOW)) 12"
  shows "\<exists>m. wait_idle dev s = Some (Inr (s\<lparr>lapic_reads := m\<rparr>)) \<and> m > lapic_reads s \<and>
     \<not> bit (dev (m - 1) ICR_LOW (lapic_regs s ICR_LOW)) 12"
  using assms
proof (induction n arbitrary: s)
  case 0
  then show ?case
    by (subst wait_idle.simps) (auto simp: LAPIC_ReadRegister_def feature_bit simp del: push_bit_of_1)
next
  case (Suc n)
  show ?case
  proof (cases "bit (dev (lapic_reads s) ICR_LOW (lapic_regs s ICR_LOW)) 12")
    case False
    then show ?thesis using Suc.prems
      by (subst wait_idle.simps) (auto simp: LAPIC_ReadRegister_def feature_bit simp del: push_bit_of_1)
  next
    case True
    let ?t = "s\<lparr>lapic_reads := lapic_reads s + 1\<rparr>"
    have "wait_idle dev s = wait_idle dev ?t" using True Suc.prems(1)
      by (subst wait_idle.simps) (simp add: LAPIC_ReadRegister_def feature_bit del: push_bit_of_1)
    moreover have "mmioBase ?t \<noteq> 0" "\<not> bit (dev (lapic_reads ?t + n) ICR_LOW (lapic_regs ?t ICR_LOW)) 12"
      using Suc.prems by simp_all
    ultimately show ?thesis using Suc.IH [of ?t] by fastforce
  qed
qed

text \<open>The codes fit their fields of the command register.\<close>

lemma bit_small: "n \<ge> k \<Longrightarrow> unat (w :: 'a::len word) < 2 ^ k \<Longrightarrow> \<not> bit w n"
proof -
  assume "n \<ge> k" "unat w < 2 ^ k"
  then have "unat w < 2 ^ n" by (meson less_le_trans one_le_numeral power_increasing)
  then have "\<not> bit (unat w) n" by (simp add: bit_iff_odd)
  then show ?thesis by (simp add: bit_unsigned_iff)
qed

lemma code_bits:
  "bit (delivery_code d) n \<Longrightarrow> n < 3" "bit (trigger_code t) n \<Longrightarrow> n < 1" "bit (shorthand_code h) n \<Longrightarrow> n < 2"
proof -
  have "unat (delivery_code d) < 2 ^ 3" by (cases d) simp_all
  moreover have "unat (trigger_code t) < 2 ^ 1" by (cases t) simp_all
  moreover have "unat (shorthand_code h) < 2 ^ 2" by (cases h) simp_all
  ultimately show "bit (delivery_code d) n \<Longrightarrow> n < 3" "bit (trigger_code t) n \<Longrightarrow> n < 1" "bit (shorthand_code h) n \<Longrightarrow> n < 2"
    using bit_small by (metis not_le)+
qed

text \<open>The fields of the interrupt command register, as the processor reads them.\<close>

definition icr_fields :: "u32 \<Rightarrow> u8 \<times> u8 \<times> bool \<times> bool \<times> bool \<times> u8" where
  "icr_fields w = (ucast w, ucast (take_bit 3 (drop_bit 8 w)), bit w 12, bit w 14, bit w 15, ucast (take_bit 2 (drop_bit 18 w)))"

lemma icr_low_bits:
  "bit (icr_low vec d t h) n \<longleftrightarrow>
     n < 32 \<and> (bit vec n \<or> 8 \<le> n \<and> bit (delivery_code d) (n - 8) \<or> n = 14 \<or>
                15 \<le> n \<and> bit (trigger_code t) (n - 15) \<or> 18 \<le> n \<and> bit (shorthand_code h) (n - 18))"
  unfolding icr_low_def bit_or_iff bit_push_bit_iff bit_unsigned_iff bit_1_iff possible_bit_word by auto

lemma icr_fields_low:
  "icr_fields (icr_low vec d t h) = (vec, delivery_code d, False, True, t = Level, shorthand_code h)"
proof -
  have v: "\<not> bit vec n" if "n \<ge> 8" for n using that bit_imp_le_length [of vec n] by auto
  have "ucast (icr_low vec d t h) = vec"
    by (rule bit_word_eqI) (auto simp: icr_low_bits bit_simps)
  moreover have "ucast (take_bit 3 (drop_bit 8 (icr_low vec d t h))) = delivery_code d"
    by (rule bit_word_eqI) (auto simp: icr_low_bits bit_simps v dest: code_bits)
  moreover have "ucast (take_bit 2 (drop_bit 18 (icr_low vec d t h))) = shorthand_code h"
    by (rule bit_word_eqI) (auto simp: icr_low_bits bit_simps v dest: code_bits)
  moreover have "bit (icr_low vec d t h) 14" "\<not> bit (icr_low vec d t h) 12"
    by (auto simp: icr_low_bits v dest: code_bits)
  moreover have "bit (icr_low vec d t h) 15 = (t = Level)"
    by (cases t) (auto simp: icr_low_bits v dest: code_bits)
  ultimately show ?thesis by (simp add: icr_fields_def)
qed

section \<open>Properties\<close>


text \<open>A controller that needs two reads for each delivery.\<close>

definition slow_device :: lapic_device where
  "slow_device n reg v = (if reg = ICR_LOW \<and> even n then v OR push_bit 12 1 else v AND NOT (push_bit 12 1))"

definition example_lapic :: LAPIC where
  "example_lapic = \<lparr>mmioBase = 0xFFFFFFFF80000000, lapic_regs = (\<lambda>_. 0), lapic_reads = 0, lapic_writes = []\<rparr>"


lemma MaskLVTEntry_ok:
  "mmioBase s \<noteq> 0 \<Longrightarrow> MaskLVTEntry dev r s = Inr (s\<lparr>lapic_reads := lapic_reads s + 1,
     lapic_regs := (lapic_regs s)(r := dev (lapic_reads s) r (lapic_regs s r) OR 0x10000),
     lapic_writes := lapic_writes s @ [(r, dev (lapic_reads s) r (lapic_regs s r) OR 0x10000)]\<rparr>)"
  by (simp add: MaskLVTEntry_def LAPIC_ReadRegister_def LAPIC_WriteRegister_def)

lemma bit_masked: "bit ((v :: u32) OR 0x10000) 16"
  using bit_or_one_bit [of 16 v 16] by simp

lemma LAPIC_WriteRegister_ok:
  "mmioBase s \<noteq> 0 \<Longrightarrow> LAPIC_WriteRegister r v s = Inr (s\<lparr>lapic_regs := (lapic_regs s)(r := v), lapic_writes := lapic_writes s @ [(r, v)]\<rparr>)"
  by (simp add: LAPIC_WriteRegister_def)

definition lapic_quiet :: "LAPIC \<Rightarrow> bool" where
  "lapic_quiet l \<longleftrightarrow> (\<forall>r \<in> {LVT_TIMER_OFFSET, LVT_LINT0_OFFSET, LVT_LINT1_OFFSET, LVT_ERROR_OFFSET}. bit (lapic_regs l r) 16) \<and>
     lapic_regs l SPIRV = 0x1FF \<and> lapic_regs l TPR = 0"


lemma setup_registers_ok:
  assumes "mmioBase s \<noteq> 0"
  shows "\<exists>l. setup_registers dev s = Inr l \<and> lapic_quiet l \<and> mmioBase l = mmioBase s"
  using assms by (simp add: setup_registers_def MINIMUM_IRQ_NUM_def LAPIC_WriteRegister_ok MaskLVTEntry_ok lapic_quiet_def lapic_registers bit_masked)

lemma LAPIC_Initialize_mapped:
  assumes "map_registers (msrs (env_core e) IA32_APIC_MSR AND 0xFFFFF000) e = Some (Inr e1)" and "SharedLapicVirtualBase e1 \<noteq> 0"
    and "env_core e1 = env_core e"
  shows "\<exists>e'. LAPIC_Initialize dev e = Some (Inr e') \<and> lapic_quiet (env_lapic e') \<and> mmioBase (env_lapic e') = SharedLapicVirtualBase e1 \<and>
     SharedLapicVirtualBase e' = SharedLapicVirtualBase e1 \<and> env_paging e' = env_paging e1 \<and> env_interrupts e' \<and>
     msrs (env_core e') = (msrs (env_core e))(IA32_APIC_MSR := msrs (env_core e) IA32_APIC_MSR OR push_bit 11 1)"
proof -
  let ?v = "msrs (env_core e) IA32_APIC_MSR"
  obtain l where l: "setup_registers dev ((env_lapic e1)\<lparr>mmioBase := SharedLapicVirtualBase e1\<rparr>) = Inr l" "lapic_quiet l"
    "mmioBase l = SharedLapicVirtualBase e1"
    using setup_registers_ok [of "(env_lapic e1)\<lparr>mmioBase := SharedLapicVirtualBase e1\<rparr>" dev] assms(2) by auto
  note set = set_flag_idem [of ?v 11]
  show ?thesis
    using assms l set by (auto simp: LAPIC_Initialize_def Let_def feature_bit simp del: push_bit_of_1)
qed


definition example_env :: lapic_env where
  "example_env =
     \<lparr>env_core = \<lparr>msrs = (\<lambda>_. 0xFEE00000), cr0 = 0, cr4 = 0, xcr0 = 0, fpuControlWord = 0, mxcsr = 0\<rparr>,
      env_paging = \<lparr>sys_pmm = example_pmm, sys_mem = (\<lambda>_ _. 0), sys_kernelState = 0x100000, sys_cr3 = 0x100000, sys_pageState = 0x100000\<rparr>,
      SharedLapicVirtualBase = 0xFFFFFFFF80000000, env_lapic = example_lapic\<lparr>mmioBase := 0\<rparr>, env_interrupts = False\<rparr>"


end
