(* ===== verification/Interrupt_Table.thy ===== *)
theory Interrupt_Table
  imports Local_APIC Bitmap
begin

text \<open>
  The interrupt descriptor table (\<^verbatim>\<open>Interrupts/IDT.cpp\<close>): encoding of the gates, the set-up, the
  handlers, the dispatch of an interrupt with the switch to the kernel's page table and back, and the
  allocator of interrupt vectors.

  A handler is the address of a function the kernel registered; what it does is a parameter (\<open>call\<close>) of
  the dispatch. The stub table of \<^verbatim>\<open>IDT.S\<close> is a parameter, the list of the addresses of the stubs, and so is
  the address of the table itself. Log messages are left out; what an exception reports is the subject of the
  theory Exception_Report.
\<close>

unbundle bit_operations_syntax

section \<open>Gates\<close>

record IDTEntry =
  OffsetLow :: u16
  Selector :: u16
  IST :: u8
  TypeAttribute :: u8
  OffsetMiddle :: u16
  OffsetHigh :: u32
  Zero :: u32

definition SetIDTEntry :: "nat \<Rightarrow> u64 \<Rightarrow> u8 \<Rightarrow> IDTEntry list \<Rightarrow> fault + IDTEntry list" where
  "SetIDTEntry vec isr flags es =
     (if vec \<ge> length es then Inl OutOfBounds
      else Inr (es[vec := \<lparr>OffsetLow = ucast (isr AND 0xFFFF), Selector = 0x08, IST = 0, TypeAttribute = flags,
             OffsetMiddle = ucast (drop_bit 16 isr AND 0xFFFF), OffsetHigh = ucast (drop_bit 32 isr AND 0xFFFFFFFF), Zero = 0\<rparr>]))"

section \<open>State and set-up\<close>

text \<open>Function pointers are addresses; a null pointer is \<open>None\<close>.\<close>

record IDT =
  idtPointer_Limit :: u16
  idtPointer_Base :: u64
  idtEntries :: "IDTEntry list"
  exceptionHandlers :: "u64 option list"
  irqHandlers :: "u64 option list"
  registersForInterrupts :: "u64 list"
  allocatedVectors :: "u8 list"
  isTesting :: bool
  idt_loaded :: bool
  idt_interrupts :: bool

definition set_ist :: "nat \<Rightarrow> IDTEntry list \<Rightarrow> IDTEntry list" where
  "set_ist v es = es[v := (es ! v)\<lparr>IST := 1\<rparr>]"

text \<open>The outcome of an exception: in testing mode it only logs; otherwise it logs the registers and panics.\<close>

definition HandleException :: "nat \<Rightarrow> IDT \<Rightarrow> fault + IDT" where
  "HandleException exceptionVector s =
     (if isTesting s then Inr s else Inl (Panic ''Exception occurred''))"

definition IDT_Initialize :: "u64 \<Rightarrow> u64 list \<Rightarrow> IDT \<Rightarrow> fault + IDT" where
  "IDT_Initialize base ISRStubTable s =
     bindR (foldR (\<lambda>vec es. if vec \<ge> length ISRStubTable then Inl OutOfBounds
                            else SetIDTEntry vec (ISRStubTable ! vec) 0x8E es) [0..<256] (idtEntries s)) (\<lambda>es.
     let s1 = s\<lparr>idtPointer_Base := base, idtPointer_Limit := 16 * 256 - 1,
                idtEntries := set_ist 14 (set_ist 13 (set_ist 8 es)),
                exceptionHandlers := map (\<lambda>_. None) (exceptionHandlers s),
                irqHandlers := map (\<lambda>_. None) (irqHandlers s),
                idt_loaded := True, idt_interrupts := True, isTesting := True\<rparr>
     in bindR (HandleException 0 s1) (\<lambda>s2.
        bindR (HandleException 3 s2) (\<lambda>s3.
          Inr (s3\<lparr>isTesting := False,
                 allocatedVectors := (allocatedVectors s3)[0 := 0xFF, 1 := 0xFF, 2 := 0xFF, 3 := 0xFF, 31 := 0xE0]\<rparr>))))"

section \<open>Handlers and dispatch\<close>

definition RegisterExceptionHandler :: "u8 \<Rightarrow> u64 option \<Rightarrow> IDT \<Rightarrow> IDT" where
  "RegisterExceptionHandler exceptionVector handler s =
     (if exceptionVector \<ge> 32 then s
      else s\<lparr>exceptionHandlers := (exceptionHandlers s)[unat exceptionVector := handler]\<rparr>)"

definition RegisterIRQHandler :: "u8 \<Rightarrow> u64 option \<Rightarrow> IDT \<Rightarrow> IDT" where
  "RegisterIRQHandler irq handler s = s\<lparr>irqHandlers := (irqHandlers s)[unat irq := handler]\<rparr>"

definition GetRegistersForInterrupt :: "u8 \<Rightarrow> IDT \<Rightarrow> u64" where
  "GetRegistersForInterrupt interruptVector s = registersForInterrupts s ! unat interruptVector"

text \<open>The part of the kernel the dispatch works on.\<close>

record irq_sys =
  irq_idt :: IDT
  irq_paging :: paging_sys
  irq_lapic :: LAPIC

definition IRQHandler :: "(u64 \<Rightarrow> irq_sys \<Rightarrow> fault + irq_sys) \<Rightarrow> u8 \<Rightarrow> u64 \<Rightarrow> irq_sys \<Rightarrow> fault + irq_sys" where
  "IRQHandler call irq registers s =
     (let backupState = sys_pageState (irq_paging s);
          s1 = s\<lparr>irq_paging := SwitchToKernelPageTable (irq_paging s)\<rparr>;
          s2 = s1\<lparr>irq_idt := (irq_idt s1)\<lparr>registersForInterrupts := (registersForInterrupts (irq_idt s1))[unat irq := registers]\<rparr>\<rparr>
      in bindR (case irqHandlers (irq_idt s2) ! unat irq of None \<Rightarrow> Inr s2 | Some handler \<Rightarrow> call handler s2) (\<lambda>s3.
         let s4 = (if backupState \<noteq> sys_pageState (irq_paging s3)
                   then s3\<lparr>irq_paging := SwitchToPageTable backupState (irq_paging s3)\<rparr> else s3)
         in if irq = 0xFF then Inr s4
            else bindR (SendEOI (irq_lapic s4)) (\<lambda>l. Inr (s4\<lparr>irq_lapic := l\<rparr>))))"

section \<open>Vector allocation\<close>

text \<open>
  \<^verbatim>\<open>__builtin_ffs(~b) - 1\<close>: the lowest zero bit of the byte. The complement is computed in \<^verbatim>\<open>int\<close>, whose bits
  above the byte are ones, so a full byte would give 8; the code only asks for bytes that are not full.
\<close>

fun lowest_zero :: "nat \<Rightarrow> u8 \<Rightarrow> nat" where
  "lowest_zero 0 b = 8"
| "lowest_zero (Suc n) b = (if \<not> bit b (7 - n) then 7 - n else lowest_zero n b)"

fun alloc_loop :: "nat list \<Rightarrow> u8 list \<Rightarrow> fault + u8 \<times> u8 list" where
  "alloc_loop [] vs = Inr (0, vs)"
| "alloc_loop (i # is) vs =
     (if i \<ge> length vs then Inl OutOfBounds
      else if vs ! i \<noteq> 0xFF
      then let b = lowest_zero 8 (vs ! i)
           in Inr (push_bit 3 (of_nat i) OR of_nat b, vs[i := vs ! i OR push_bit b 1])
      else alloc_loop is vs)"

definition AllocateVector :: "IDT \<Rightarrow> fault + u8 \<times> IDT" where
  "AllocateVector s =
     bindR (alloc_loop [0..<32] (allocatedVectors s)) (\<lambda>(v, vs). Inr (v, s\<lparr>allocatedVectors := vs\<rparr>))"

definition FreeVector :: "u8 \<Rightarrow> IDT \<Rightarrow> fault + IDT" where
  "FreeVector v s =
     (let i = unat (drop_bit 3 v); b = unat (v AND 7)
      in if i \<ge> length (allocatedVectors s) then Inl OutOfBounds
         else Inr (s\<lparr>allocatedVectors := (allocatedVectors s)[i := (allocatedVectors s) ! i AND NOT (push_bit b 1)]\<rparr>))"

section \<open>The allocator as a set of vectors\<close>

lemma lowest_zero_spec:
  assumes "n \<le> 8" and "\<forall>j < 8 - n. bit b j" and "j < 8" "\<not> bit b j"
  shows "lowest_zero n b < 8 \<and> \<not> bit b (lowest_zero n b) \<and> (\<forall>j < lowest_zero n b. bit b j)"
  using assms
proof (induction n)
  case (Suc n)
  show ?case
  proof (cases "bit b (7 - n)")
    case True
    have "\<forall>j < 8 - n. bit b j"
    proof (intro allI impI)
      fix j assume "j < 8 - n"
      then have "j < 8 - Suc n \<or> j = 7 - n" using Suc.prems(1) by auto
      then show "bit b j" using Suc.prems(2) True by auto
    qed
    then show ?thesis using Suc True by simp
  next
    case False
    then show ?thesis using Suc.prems by auto
  qed
qed auto

lemma not_full_byte: "(b :: u8) \<noteq> 0xFF \<longleftrightarrow> (\<exists>j < 8. \<not> bit b j)"
proof -
  have "(0xFF :: u8) = mask 8" by (simp add: mask_eq_exp_minus_1)
  then have full: "bit (0xFF :: u8) j \<longleftrightarrow> j < 8" for j by (simp only: bit_mask_iff) simp
  have "b = 0xFF" if b: "\<forall>j < 8. bit b j"
  proof (rule bit_word_eqI)
    fix n assume "n < LENGTH(8)"
    then show "bit b n = bit (0xFF :: u8) n" using b full [of n] by auto
  qed
  then show ?thesis using full by blast
qed

lemma vector_number: "i < 32 \<Longrightarrow> b < 8 \<Longrightarrow> (push_bit 3 (of_nat i) OR of_nat b :: u8) = of_nat (8 * i + b)"
proof -
  assume "i < 32" "b < 8"
  have "(push_bit 3 (of_nat i) :: u8) AND of_nat b = 0"
  proof (rule bit_word_eqI)
    fix n assume "n < LENGTH(8)"
    have "\<not> bit b n" if "n \<ge> 3"
    proof -
      have "b < 2 ^ 3" using \<open>b < 8\<close> by simp
      also have "\<dots> \<le> 2 ^ n" using that by (rule power_increasing) simp
      finally show ?thesis by (simp add: bit_iff_odd)
    qed
    then show "bit ((push_bit 3 (of_nat i) :: u8) AND of_nat b) n = bit (0 :: u8) n"
      by (auto simp: bit_simps)
  qed
  then have "(push_bit 3 (of_nat i) OR of_nat b :: u8) = push_bit 3 (of_nat i) + of_nat b"
    by (simp add: disjunctive_add_eq_or)
  then show ?thesis by (simp add: push_bit_eq_mult)
qed

lemma alloc_loop_spec:
  assumes "length vs = 32" and "k \<le> 32" and "\<forall>p < 8 * k. bm_get vs p"
  shows "(\<forall>p < 256. bm_get vs p) \<and> alloc_loop [k..<32] vs = Inr (0, vs) \<or>
    (\<exists>p < 256. \<not> bm_get vs p \<and> (\<forall>q < p. bm_get vs q) \<and> alloc_loop [k..<32] vs = Inr (of_nat p, bm_set vs p))"
  using assms
proof (induction "32 - k" arbitrary: k)
  case 0
  then show ?case by simp
next
  case (Suc n)
  then have k: "k < 32" and upt: "[k..<32] = k # [Suc k..<32]" by (simp_all add: upt_conv_Cons)
  show ?case
  proof (cases "vs ! k = 0xFF")
    case True
    have "\<forall>p < 8 * Suc k. bm_get vs p"
    proof (intro allI impI)
      fix p assume p: "p < 8 * Suc k"
      show "bm_get vs p"
      proof (cases "p < 8 * k")
        case False
        then have "p div 8 = k" using p by (auto intro: div_nat_eqI)
        then show ?thesis using True not_full_byte [of "vs ! k"] by (simp add: bm_get_bit)
      qed (use Suc.prems in simp)
    qed
    then show ?thesis using Suc.hyps(1) [of "Suc k"] Suc.hyps(2) Suc.prems k True by (simp add: upt)
  next
    case False
    let ?b = "lowest_zero 8 (vs ! k)"
    from False obtain j where "j < 8" "\<not> bit (vs ! k) j" using not_full_byte by blast
    from lowest_zero_spec [of 8 "vs ! k", OF _ _ this]
    have b: "?b < 8" "\<not> bit (vs ! k) ?b" "\<forall>j < ?b. bit (vs ! k) j" by auto
    let ?p = "8 * k + ?b"
    have d: "?p div 8 = k" "?p mod 8 = ?b" using b(1) by auto
    have low: "bm_get vs q" if "q < ?p" for q
    proof (cases "q < 8 * k")
      case False
      then obtain r where r: "q = 8 * k + r" by (metis le_Suc_ex not_less)
      then have "r < ?b" using that by simp
      then show ?thesis using b(1,3) r by (simp add: bm_get_bit)
    qed (use Suc.prems in simp)
    have "alloc_loop [k..<32] vs = Inr (of_nat ?p, bm_set vs ?p)"
      using False k Suc.prems(1) b(1) d by (simp add: upt Let_def vector_number bm_set_def)
    moreover have "\<not> bm_get vs ?p" using b(2) d by (simp add: bm_get_bit)
    moreover have "?p < 256" using k b(1) by simp
    ultimately show ?thesis using low by blast
  qed
qed

text \<open>The vectors in use.\<close>

definition vectors :: "IDT \<Rightarrow> nat set" where
  "vectors s = {p. p < 256 \<and> bm_get (allocatedVectors s) p}"

lemma AllocateVector_cases:
  assumes "length (allocatedVectors s) = 32"
  shows "vectors s = {..<256} \<and> AllocateVector s = Inr (0, s) \<or>
    (\<exists>p < 256. p \<notin> vectors s \<and> {..<p} \<subseteq> vectors s \<and>
       AllocateVector s = Inr (of_nat p, s\<lparr>allocatedVectors := bm_set (allocatedVectors s) p\<rparr>))"
proof -
  from alloc_loop_spec [OF assms, of 0]
  consider "\<forall>p < 256. bm_get (allocatedVectors s) p" "alloc_loop [0..<32] (allocatedVectors s) = Inr (0, allocatedVectors s)"
    | p where "p < 256" "\<not> bm_get (allocatedVectors s) p" "\<forall>q < p. bm_get (allocatedVectors s) q"
        "alloc_loop [0..<32] (allocatedVectors s) = Inr (of_nat p, bm_set (allocatedVectors s) p)"
    by auto
  then show ?thesis
  proof cases
    case 1
    then show ?thesis by (auto simp: AllocateVector_def vectors_def)
  next
    case (2 p)
    then show ?thesis by (intro disjI2 exI [of _ p]) (auto simp: AllocateVector_def vectors_def)
  qed
qed

lemma FreeVector_clear:
  assumes "length (allocatedVectors s) = 32"
  shows "FreeVector v s = Inr (s\<lparr>allocatedVectors := bm_clear (allocatedVectors s) (unat v)\<rparr>)"
proof -
  have "v AND 7 = take_bit 3 v" by (simp add: take_bit_eq_mask mask_eq_exp_minus_1)
  then have "unat (drop_bit 3 v) = unat v div 8" "unat (v AND 7) = unat v mod 8"
    by (simp_all add: unat_drop_bit_eq drop_bit_eq_div unsigned_take_bit_eq take_bit_eq_mod unat_div unat_mod)
  moreover have "unat v div 8 < 32" using unsigned_less [of v, where 'a = nat] by simp
  ultimately show ?thesis using assms by (simp add: FreeVector_def Let_def bm_clear_def)
qed

lemma vectors_set: "length (allocatedVectors s) = 32 \<Longrightarrow> p < 256 \<Longrightarrow>
    vectors (s\<lparr>allocatedVectors := bm_set (allocatedVectors s) p\<rparr>) = insert p (vectors s)"
  by (auto simp: vectors_def bm_get_set)

lemma vectors_clear: "length (allocatedVectors s) = 32 \<Longrightarrow> p < 256 \<Longrightarrow>
    vectors (s\<lparr>allocatedVectors := bm_clear (allocatedVectors s) p\<rparr>) = vectors s - {p}"
  by (auto simp: vectors_def bm_get_clear)

section \<open>Gates\<close>

text \<open>The address a gate leads to, as the processor assembles it from the three parts.\<close>

definition gate_offset :: "IDTEntry \<Rightarrow> u64" where
  "gate_offset e = push_bit 32 (ucast (OffsetHigh e)) OR push_bit 16 (ucast (OffsetMiddle e)) OR ucast (OffsetLow e)"

definition gate :: "u64 \<Rightarrow> u8 \<Rightarrow> IDTEntry" where
  "gate isr flags = \<lparr>OffsetLow = ucast (isr AND 0xFFFF), Selector = 0x08, IST = 0, TypeAttribute = flags,
     OffsetMiddle = ucast (drop_bit 16 isr AND 0xFFFF), OffsetHigh = ucast (drop_bit 32 isr AND 0xFFFFFFFF), Zero = 0\<rparr>"

lemma masks: "(0xFFFF :: u64) = mask 16" "(0xFFFFFFFF :: u64) = mask 32"
  by (simp_all add: mask_eq_exp_minus_1)

lemma gate_offset_gate: "gate_offset (gate isr flags) = isr"
proof (rule bit_word_eqI)
  fix n assume "n < LENGTH(64)"
  then show "bit (gate_offset (gate isr flags)) n = bit isr n"
    unfolding gate_offset_def gate_def masks by (cases "n < 32") (auto simp: bit_simps)
qed

lemma SetIDTEntry_gate: "v < length es \<Longrightarrow> SetIDTEntry v isr flags es = Inr (es[v := gate isr flags])"
  by (simp add: SetIDTEntry_def gate_def)

lemma set_gates:
  assumes "length stubs = length es"
  shows "foldR (\<lambda>vec es. if vec \<ge> length stubs then Inl OutOfBounds else SetIDTEntry vec (stubs ! vec) flags es)
           [0..<length stubs] es = Inr (map (\<lambda>isr. gate isr flags) stubs)"
proof -
  let ?f = "\<lambda>vec es. if vec \<ge> length stubs then Inl OutOfBounds else SetIDTEntry vec (stubs ! vec) flags es"
  have "foldR ?f [0..<n] es = Inr (map (\<lambda>isr. gate isr flags) (take n stubs) @ drop n es)" if "n \<le> length stubs" for n
    using that
  proof (induction n)
    case (Suc n)
    then have "n < length stubs" by simp
    moreover have "?f n (map (\<lambda>isr. gate isr flags) (take n stubs) @ drop n es) =
        Inr (map (\<lambda>isr. gate isr flags) (take (Suc n) stubs) @ drop (Suc n) es)"
      using \<open>n < length stubs\<close> assms
      by (simp add: SetIDTEntry_gate list_update_append take_Suc_conv_app_nth Cons_nth_drop_Suc [symmetric, of n es])
    ultimately show ?case using Suc by (simp add: foldR_append)
  qed simp
  from this [of "length stubs"] assms show ?thesis by simp
qed

lemma reserved_vectors:
  "p < 256 \<Longrightarrow> bm_get ((replicate 32 0)[0 := 0xFF, 1 := 0xFF, 2 := 0xFF, 3 := 0xFF, 31 := 0xE0]) p \<longleftrightarrow> p < 32 \<or> 253 \<le> p"
proof -
  assume p: "p < 256"
  let ?vs = "(replicate 32 0)[0 := 0xFF, 1 := 0xFF, 2 := 0xFF, 3 := 0xFF, 31 := 0xE0] :: u8 list"
  have "\<forall>q \<in> set [0..<256]. bm_get ?vs q = (q < 32 \<or> 253 \<le> q)" by code_simp
  then show ?thesis using p by simp
qed

definition reserved :: "u8 list" where
  "reserved = (replicate 32 0)[0 := 0xFF, 1 := 0xFF, 2 := 0xFF, 3 := 0xFF, 31 := 0xE0]"

lemma IDT_Initialize_state:
  assumes "length stubs = 256" and "length (idtEntries s) = 256" and "allocatedVectors s = replicate 32 0"
  shows "IDT_Initialize base stubs s = Inr (s\<lparr>idtPointer_Base := base, idtPointer_Limit := 16 * 256 - 1,
     idtEntries := set_ist 14 (set_ist 13 (set_ist 8 (map (\<lambda>isr. gate isr 0x8E) stubs))),
     exceptionHandlers := map (\<lambda>_. None) (exceptionHandlers s), irqHandlers := map (\<lambda>_. None) (irqHandlers s),
     idt_loaded := True, idt_interrupts := True, isTesting := False, allocatedVectors := reserved\<rparr>)"
proof -
  have "foldR (\<lambda>vec es. if vec \<ge> length stubs then Inl OutOfBounds else SetIDTEntry vec (stubs ! vec) 0x8E es)
      [0..<256] (idtEntries s) = Inr (map (\<lambda>isr. gate isr 0x8E) stubs)"
    using set_gates [of stubs "idtEntries s" "0x8E"] assms by simp
  then show ?thesis unfolding IDT_Initialize_def using assms(3) by (simp add: HandleException_def reserved_def)
qed

lemma ist_gates:
  assumes "length stubs = 256" and "v < 256"
  shows "set_ist 14 (set_ist 13 (set_ist 8 (map (\<lambda>isr. gate isr flags) stubs))) ! v =
     (gate (stubs ! v) flags)\<lparr>IST := if v \<in> {8, 13, 14} then 1 else 0\<rparr>"
  using assms by (auto simp: set_ist_def nth_list_update gate_def)

lemma gate_ist_fields:
  "gate_offset ((gate isr f)\<lparr>IST := i\<rparr>) = isr" "Selector (gate isr f) = 8" "TypeAttribute (gate isr f) = f"
  using gate_offset_gate [of isr f] by (simp_all add: gate_offset_def gate_def)

lemma vectors_reserved: "allocatedVectors s = reserved \<Longrightarrow> vectors s = {0..31} \<union> {253, 254, 255}"
  using reserved_vectors by (auto simp: vectors_def reserved_def)

section \<open>Properties\<close>


text \<open>The state before the set-up, as the objects are constructed.\<close>

definition fresh_idt :: IDT where
  "fresh_idt = \<lparr>idtPointer_Limit = 0, idtPointer_Base = 0,
     idtEntries = replicate 256 \<lparr>OffsetLow = 0, Selector = 0, IST = 0, TypeAttribute = 0, OffsetMiddle = 0, OffsetHigh = 0, Zero = 0\<rparr>,
     exceptionHandlers = replicate 32 None, irqHandlers = replicate 256 None, registersForInterrupts = replicate 256 0,
     allocatedVectors = replicate 32 0, isTesting = False, idt_loaded = False, idt_interrupts = False\<rparr>"


text \<open>
  C29. Vector allocation. \<^verbatim>\<open>AllocateVector\<close> returns the lowest unused vector and adds exactly it to the vectors in
  use; it never hands out a vector twice, so it never hands out a reserved one; it returns 0, and changes
  nothing, exactly when all 256 vectors are in use. Freeing the vector gives the state before back.
\<close>

theorem AllocateVector_least:
  assumes "length (allocatedVectors s) = 32"
  shows "\<exists>v s'. AllocateVector s = Inr (v, s') \<and>
     (if vectors s = {..<256} then v = 0 \<and> s' = s
      else unat v \<notin> vectors s \<and> {..<unat v} \<subseteq> vectors s \<and> vectors s' = insert (unat v) (vectors s) \<and>
           FreeVector v s' = Inr s)"
  using AllocateVector_cases [OF assms]
proof (elim disjE exE conjE)
  fix p assume p: "p < 256" "p \<notin> vectors s" "{..<p} \<subseteq> vectors s"
    "AllocateVector s = Inr (of_nat p, s\<lparr>allocatedVectors := bm_set (allocatedVectors s) p\<rparr>)"
  let ?s = "s\<lparr>allocatedVectors := bm_set (allocatedVectors s) p\<rparr>"
  have u: "unat (of_nat p :: u8) = p" using p(1) by (simp add: unat_of_nat)
  have "bm_clear (bm_set (allocatedVectors s) p) p = allocatedVectors s"
    by (rule bm_eqI) (use p assms in \<open>auto simp: bm_get_set bm_get_clear vectors_def bm_bits_def\<close>)
  then have "FreeVector (of_nat p) ?s = Inr s" using FreeVector_clear [of ?s "of_nat p"] assms u by simp
  moreover have "vectors s \<noteq> {..<256}" using p(1,2) by auto
  ultimately show ?thesis using p u vectors_set [OF assms p(1)] by (intro exI [of _ "of_nat p"] exI [of _ ?s]) simp
qed simp

theorem AllocateVector_least_witness:
  "\<exists>v s'. AllocateVector (fresh_idt\<lparr>allocatedVectors := reserved\<rparr>) = Inr (v, s') \<and> unat v \<notin> {0..31} \<union> {253, 254, 255} \<and>
     vectors s' = insert (unat v) ({0..31} \<union> {253, 254, 255})"
proof -
  let ?s = "fresh_idt\<lparr>allocatedVectors := reserved\<rparr>"
  have v: "vectors ?s = {0..31} \<union> {253, 254, 255}" by (rule vectors_reserved) simp
  have "(40 :: nat) \<in> {..<256}" "(40 :: nat) \<notin> {0..31} \<union> {253, 254, 255}" by simp_all
  then have "vectors ?s \<noteq> {..<256}" using v by blast
  then show ?thesis using AllocateVector_least [of ?s] v by (auto simp: reserved_def)
qed

text \<open>\<^verbatim>\<open>FreeVector\<close> does not look at what it frees: an exception vector can be freed, and is handed out next.\<close>

lemma FreeVector_any:
  "length (allocatedVectors s) = 32 \<Longrightarrow> \<exists>s'. FreeVector v s = Inr s' \<and> vectors s' = vectors s - {unat v}"
  using vectors_clear [of s "unat v"] unsigned_less [of v, where 'a = nat] by (simp add: FreeVector_clear)

text \<open>Handlers that change the page table only through the paging component, so that the register and the record of it agree.\<close>

definition handlers_pair_cr3 :: "(u64 \<Rightarrow> irq_sys \<Rightarrow> fault + irq_sys) \<Rightarrow> bool" where
  "handlers_pair_cr3 call \<longleftrightarrow> (\<forall>h x y. sys_cr3 (irq_paging x) = sys_pageState (irq_paging x) \<longrightarrow> call h x = Inr y \<longrightarrow>
     sys_cr3 (irq_paging y) = sys_pageState (irq_paging y))"

text \<open>
  C30. The dispatch of an interrupt. The handler, if one is registered, runs exactly once, under the kernel's page table and with
  the interrupted registers recorded. A handler may switch page tables, but only through the paging
  component, which keeps the page table register and the record of it together; and it may fault. If it returns, the
  interrupted page table is active again, memory is as the handler left it, and one end-of-interrupt
  message has been sent, except for the spurious vector 255 and before the controller is set up.
\<close>

theorem IRQHandler_restores:
  assumes handler: "handlers_pair_cr3 call"
    and start: "sys_cr3 (irq_paging s) = sys_pageState (irq_paging s)" "length (registersForInterrupts (irq_idt s)) = 256"
  shows "\<exists>s1. sys_cr3 (irq_paging s1) = sys_kernelState (irq_paging s) \<and> GetRegistersForInterrupt irq (irq_idt s1) = registers \<and>
     sys_mem (irq_paging s1) = sys_mem (irq_paging s) \<and> irqHandlers (irq_idt s1) = irqHandlers (irq_idt s) \<and>
     irq_lapic s1 = irq_lapic s \<and>
     (case (case irqHandlers (irq_idt s) ! unat irq of None \<Rightarrow> Inr s1 | Some h \<Rightarrow> call h s1) of
        Inl e \<Rightarrow> IRQHandler call irq registers s = Inl e
      | Inr s2 \<Rightarrow> \<exists>s'. IRQHandler call irq registers s = Inr s' \<and>
          sys_cr3 (irq_paging s') = sys_cr3 (irq_paging s) \<and> sys_pageState (irq_paging s') = sys_pageState (irq_paging s) \<and>
          sys_mem (irq_paging s') = sys_mem (irq_paging s2) \<and> irq_idt s' = irq_idt s2 \<and>
          lapic_writes (irq_lapic s') = lapic_writes (irq_lapic s2) @
            (if irq = 0xFF \<or> mmioBase (irq_lapic s2) = 0 then [] else [(EOI, 0)]))"
proof -
  let ?s1 = "s\<lparr>irq_paging := SwitchToKernelPageTable (irq_paging s),
    irq_idt := (irq_idt s)\<lparr>registersForInterrupts := (registersForInterrupts (irq_idt s))[unat irq := registers]\<rparr>\<rparr>"
  let ?call = "case irqHandlers (irq_idt s) ! unat irq of None \<Rightarrow> Inr ?s1 | Some h \<Rightarrow> call h ?s1"
  have regs: "GetRegistersForInterrupt irq (irq_idt ?s1) = registers"
    using start(2) unsigned_less [of irq, where 'a = nat] by (simp add: GetRegistersForInterrupt_def)
  have k: "sys_cr3 (irq_paging ?s1) = sys_kernelState (irq_paging s)" "sys_pageState (irq_paging ?s1) = sys_kernelState (irq_paging s)"
    by (simp_all add: SwitchToKernelPageTable_def SwitchToPageTable_def)
  have run: "IRQHandler call irq registers s = bindR ?call (\<lambda>s3.
      let s4 = (if sys_pageState (irq_paging s) \<noteq> sys_pageState (irq_paging s3)
                then s3\<lparr>irq_paging := SwitchToPageTable (sys_pageState (irq_paging s)) (irq_paging s3)\<rparr> else s3)
      in if irq = 0xFF then Inr s4 else bindR (SendEOI (irq_lapic s4)) (\<lambda>l. Inr (s4\<lparr>irq_lapic := l\<rparr>)))"
    by (simp add: IRQHandler_def Let_def cong: option.case_cong)
  have "sys_cr3 (irq_paging y) = sys_pageState (irq_paging y)" if "?call = Inr y" for y
    using that k handler [unfolded handlers_pair_cr3_def, rule_format, of ?s1]
    by (cases "irqHandlers (irq_idt s) ! unat irq") auto
  then have "case ?call of Inl e \<Rightarrow> IRQHandler call irq registers s = Inl e
      | Inr s2 \<Rightarrow> \<exists>s'. IRQHandler call irq registers s = Inr s' \<and>
          sys_cr3 (irq_paging s') = sys_cr3 (irq_paging s) \<and> sys_pageState (irq_paging s') = sys_pageState (irq_paging s) \<and>
          sys_mem (irq_paging s') = sys_mem (irq_paging s2) \<and> irq_idt s' = irq_idt s2 \<and>
          lapic_writes (irq_lapic s') = lapic_writes (irq_lapic s2) @
            (if irq = 0xFF \<or> mmioBase (irq_lapic s2) = 0 then [] else [(EOI, 0)])"
    unfolding run using start(1)
    by (cases ?call) (auto simp: SendEOI_def LAPIC_WriteRegister_def SwitchToPageTable_def Let_def)
  then show ?thesis using k(1) regs
    by (intro exI [of _ ?s1]) (simp add: SwitchToKernelPageTable_def SwitchToPageTable_def)
qed

text \<open>A kernel in which vector 64 has a handler that switches to the page table whose address is the handler's.\<close>

definition example_irq :: irq_sys where
  "example_irq = \<lparr>irq_idt = fresh_idt\<lparr>irqHandlers := (replicate 256 None)[64 := Some 0x3000]\<rparr>,
     irq_paging = \<lparr>sys_pmm = example_pmm, sys_mem = (\<lambda>_ _. 0), sys_kernelState = 0x100000, sys_cr3 = 0x2000, sys_pageState = 0x2000\<rparr>,
     irq_lapic = example_lapic\<rparr>"

definition switching_handler :: "u64 \<Rightarrow> irq_sys \<Rightarrow> fault + irq_sys" where
  "switching_handler h s = Inr (s\<lparr>irq_paging := SwitchToPageTable h (irq_paging s)\<rparr>)"

theorem IRQHandler_restores_witness:
  "\<exists>s'. IRQHandler switching_handler 64 5 example_irq = Inr s' \<and> sys_cr3 (irq_paging s') = 0x2000 \<and>
     lapic_writes (irq_lapic s') = [(EOI, 0)]"
proof -
  have 1: "handlers_pair_cr3 switching_handler"
    by (auto simp: handlers_pair_cr3_def switching_handler_def SwitchToPageTable_def)
  have 2: "sys_cr3 (irq_paging example_irq) = sys_pageState (irq_paging example_irq)"
    and 3: "length (registersForInterrupts (irq_idt example_irq)) = 256"
    by (simp_all only: example_irq_def fresh_idt_def length_replicate irq_sys.simps IDT.simps paging_sys.simps)
  have h: "irqHandlers (irq_idt example_irq) ! unat (64 :: u8) = Some 0x3000"
    by (simp add: example_irq_def)
  have c: "sys_cr3 (irq_paging example_irq) = 0x2000" by (simp add: example_irq_def)
  from IRQHandler_restores [where call = switching_handler and s = example_irq and irq = 64 and registers = 5, OF 1 2 3]
  show ?thesis unfolding h option.case c
    by (elim exE) (auto simp: switching_handler_def example_irq_def example_lapic_def)
qed

end
