(* ===== verification/Descriptors.thy ===== *)
theory Descriptors
  imports Processor
begin

text \<open>
  The segment descriptor tables and task state segments of the CPUs (\<^verbatim>\<open>Interrupts/GDT.cpp\<close>,
  \<^verbatim>\<open>Interrupts/TSS.cpp\<close>). The static arrays hold one table of eight descriptors, one table pointer and one task
  state segment per CPU. Their addresses are parameters of the set-up; the registers the
  assembly routines \<^verbatim>\<open>LoadGDT\<close> and \<^verbatim>\<open>LoadTSS\<close> load are fields of the state.
\<close>

unbundle bit_operations_syntax

definition MaxCPUs :: nat where "MaxCPUs = 1024"

record TSSStruct =
  RSP0 :: u64
  RSP1 :: u64
  RSP2 :: u64
  IST1 :: u64
  ISTs :: "u64 list"
  IOMapBase :: u16

text \<open>\<open>ISTs\<close> are the members \<^verbatim>\<open>IST2\<close> to \<^verbatim>\<open>IST7\<close>; with the reserved members the packed structure has 104 bytes.\<close>

definition sizeof_TSSStruct :: u32 where
  "sizeof_TSSStruct = 4 + 3 * 8 + 8 + 7 * 8 + 8 + 2 + 2"

record GDTPointer =
  Limit :: u16
  Base :: u64

record gdt_sys =
  entries :: "u64 list list"
  gdtp :: "GDTPointer list"
  tss :: "TSSStruct list"
  gdtr :: "GDTPointer option"
  task_register :: "u16 option"
  gdt_core :: core

section \<open>Task state segments\<close>

definition TSS_Initialize :: "u32 \<Rightarrow> u64 \<Rightarrow> u64 \<Rightarrow> gdt_sys \<Rightarrow> fault + gdt_sys" where
  "TSS_Initialize cpuId rsp0 ist1 s =
     (if unat cpuId \<ge> length (tss s) then Inl OutOfBounds
      else Inr (s\<lparr>tss := (tss s)[unat cpuId := \<lparr>RSP0 = rsp0, RSP1 = 0, RSP2 = 0, IST1 = ist1, ISTs = replicate 6 0,
             IOMapBase = ucast sizeof_TSSStruct\<rparr>]\<rparr>))"

definition GetTSSStruct :: "u64 \<Rightarrow> u32 \<Rightarrow> u64" where
  "GetTSSStruct tssBase cpuId = tssBase + ucast cpuId * ucast sizeof_TSSStruct"

section \<open>Descriptors\<close>

record GDTEntry =
  LimitLow :: u16
  BaseLow :: u16
  BaseMiddle :: u8
  Access :: u8
  Granularity :: u8
  BaseHigh :: u8

text \<open>The copy of the packed structure into the table, lowest member first.\<close>

definition entry_bytes :: "GDTEntry \<Rightarrow> u64" where
  "entry_bytes e = ucast (LimitLow e) OR push_bit 16 (ucast (BaseLow e)) OR push_bit 32 (ucast (BaseMiddle e))
     OR push_bit 40 (ucast (Access e)) OR push_bit 48 (ucast (Granularity e)) OR push_bit 56 (ucast (BaseHigh e))"

definition make_entry :: "u32 \<Rightarrow> u32 \<Rightarrow> u8 \<Rightarrow> u8 \<Rightarrow> GDTEntry" where
  "make_entry base limit access granularity =
     \<lparr>LimitLow = ucast (limit AND 0xFFFF), BaseLow = ucast (base AND 0xFFFF), BaseMiddle = ucast (drop_bit 16 base AND 0xFF),
      Access = access, Granularity = ucast (drop_bit 16 limit AND 0x0F) OR (granularity AND 0xF0),
      BaseHigh = ucast (drop_bit 24 base AND 0xFF)\<rparr>"

definition write_descriptor :: "u32 \<Rightarrow> nat \<Rightarrow> u64 \<Rightarrow> gdt_sys \<Rightarrow> fault + gdt_sys" where
  "write_descriptor cpuId index d s =
     (if unat cpuId \<ge> length (entries s) \<or> index \<ge> length (entries s ! unat cpuId) then Inl OutOfBounds
      else Inr (s\<lparr>entries := (entries s)[unat cpuId := (entries s ! unat cpuId)[index := d]]\<rparr>))"

definition SetEntry :: "u32 \<Rightarrow> nat \<Rightarrow> u32 \<Rightarrow> u32 \<Rightarrow> u8 \<Rightarrow> u8 \<Rightarrow> gdt_sys \<Rightarrow> fault + gdt_sys" where
  "SetEntry cpuId index base limit access granularity =
     write_descriptor cpuId index (entry_bytes (make_entry base limit access granularity))"

definition tss_low :: "u64 \<Rightarrow> u32 \<Rightarrow> u64" where
  "tss_low base limit = (ucast limit AND 0xFFFF) OR push_bit 16 (base AND 0xFFFFFF) OR push_bit 40 0x89
     OR push_bit 48 (ucast (drop_bit 16 limit) AND 0xF) OR push_bit 56 (drop_bit 24 base AND 0xFF)"

definition SetTSSDescriptor :: "u32 \<Rightarrow> nat \<Rightarrow> u64 \<Rightarrow> u32 \<Rightarrow> gdt_sys \<Rightarrow> fault + gdt_sys" where
  "SetTSSDescriptor cpuId index base limit s =
     (let low = tss_low base limit; high = drop_bit 32 base AND 0xFFFFFFFF
      in bindR (write_descriptor cpuId index low s) (write_descriptor cpuId (index + 1) high))"

section \<open>Set-up\<close>

definition gsOffset :: u32 where "gsOffset = 0xC0000101"

definition GetCpuId :: "core \<Rightarrow> u32" where
  "GetCpuId c = fst (rdmsr gsOffset c)"

text \<open>The two assembly routines: load the table register from memory, and the task register.\<close>

definition LoadGDT :: "u32 \<Rightarrow> gdt_sys \<Rightarrow> gdt_sys" where
  "LoadGDT cpuId s = s\<lparr>gdtr := Some (gdtp s ! unat cpuId)\<rparr>"

definition LoadTSS :: "u16 \<Rightarrow> gdt_sys \<Rightarrow> gdt_sys" where
  "LoadTSS selector s = s\<lparr>task_register := Some selector\<rparr>"

definition GDT_Initialize :: "u64 \<Rightarrow> u64 \<Rightarrow> u32 \<Rightarrow> u64 \<Rightarrow> u64 \<Rightarrow> gdt_sys \<Rightarrow> fault + gdt_sys" where
  "GDT_Initialize entriesBase tssBase cpuId rsp0 ts1 s =
     bindR (TSS_Initialize cpuId rsp0 ts1 s) (\<lambda>s.
     bindR (SetEntry cpuId 0 0 0 0 0 s) (\<lambda>s.
     bindR (SetEntry cpuId 1 0 0xFFFFF 0x9A 0xA0 s) (\<lambda>s.
     bindR (SetEntry cpuId 2 0 0xFFFFF 0x92 0xA0 s) (\<lambda>s.
     bindR (SetTSSDescriptor cpuId 3 (GetTSSStruct tssBase cpuId) (sizeof_TSSStruct - 1) s) (\<lambda>s.
     bindR (SetEntry cpuId 5 0 0xFFFFF 0xF2 0xC0 s) (\<lambda>s.
     bindR (SetEntry cpuId 6 0 0xFFFFF 0xF2 0xA0 s) (\<lambda>s.
     bindR (SetEntry cpuId 7 0 0xFFFFF 0xFA 0xA0 s) (\<lambda>s.
       if unat cpuId \<ge> length (gdtp s) then Inl OutOfBounds
       else let s1 = s\<lparr>gdtp := (gdtp s)[unat cpuId := \<lparr>Limit = 8 * 8 - 1, Base = entriesBase + ucast cpuId * 64\<rparr>]\<rparr>;
                s2 = LoadTSS 0x18 (LoadGDT cpuId s1)
            in Inr (s2\<lparr>gdt_core := wrmsr gsOffset cpuId (ucast (drop_bit 32 (ucast cpuId :: u64))) (gdt_core s2)\<rparr>)))))))))"

text \<open>The address of the pointer structure of a CPU; the packed structure has 10 bytes.\<close>

definition GetGDTPointer :: "u64 \<Rightarrow> u32 \<Rightarrow> u64" where
  "GetGDTPointer gdtpBase cpuId = gdtpBase + ucast cpuId * 10"

section \<open>What the processor reads from a descriptor\<close>

definition desc_base :: "u64 \<Rightarrow> u32" where
  "desc_base d = ucast (take_bit 24 (drop_bit 16 d)) OR push_bit 24 (ucast (take_bit 8 (drop_bit 56 d)))"

definition desc_limit :: "u64 \<Rightarrow> u32" where
  "desc_limit d = ucast (take_bit 16 d) OR push_bit 16 (ucast (take_bit 4 (drop_bit 48 d)))"

definition desc_access :: "u64 \<Rightarrow> u8" where
  "desc_access d = ucast (drop_bit 40 d)"

definition desc_flags :: "u64 \<Rightarrow> u8" where
  "desc_flags d = ucast (take_bit 4 (drop_bit 52 d))"

text \<open>A system descriptor takes two slots; the second holds the upper half of the base.\<close>

definition desc_base64 :: "u64 \<Rightarrow> u64 \<Rightarrow> u64" where
  "desc_base64 low high = ucast (desc_base low) OR push_bit 32 high"

lemma nibble_masks: "(0xFFFF :: u32) = mask 16" "(0xFF :: u32) = mask 8" "(0x0F :: u32) = mask 4"
  "(0xF0 :: u8) = push_bit 4 (mask 4)" "(0xFFFF :: u64) = mask 16" "(0xFFFFFF :: u64) = mask 24" "(0xF :: u64) = mask 4"
  "(0xFF :: u64) = mask 8" "(0xFFFFFFFF :: u64) = mask 32" "(0x89 :: u64) = ucast (0x89 :: u8)"
  by (simp_all add: mask_eq_exp_minus_1 push_bit_eq_mult)

lemma entry_bits:
  "bit (entry_bytes e) n \<longleftrightarrow>
     n < 64 \<and> (bit (LimitLow e) n \<or> 16 \<le> n \<and> bit (BaseLow e) (n - 16) \<or> 32 \<le> n \<and> bit (BaseMiddle e) (n - 32) \<or>
       40 \<le> n \<and> bit (Access e) (n - 40) \<or> 48 \<le> n \<and> bit (Granularity e) (n - 48) \<or> 56 \<le> n \<and> bit (BaseHigh e) (n - 56))"
  unfolding entry_bytes_def bit_or_iff bit_push_bit_iff bit_unsigned_iff possible_bit_word by auto

text \<open>Bit by bit, the table entry of a base, a limit, an access byte and flags.\<close>

definition descriptor_bit :: "u32 \<Rightarrow> u32 \<Rightarrow> u8 \<Rightarrow> u8 \<Rightarrow> nat \<Rightarrow> bool" where
  "descriptor_bit base limit access granularity n =
     (if n < 16 then bit limit n else if n < 40 then bit base (n - 16) else if n < 48 then bit access (n - 40)
      else if n < 52 then bit limit (n - 32) else if n < 56 then bit granularity (n - 48) else n < 64 \<and> bit base (n - 32))"

lemma not_bit_byte: "n \<ge> 8 \<Longrightarrow> \<not> bit (w :: u8) n"
  by (auto dest: bit_imp_le_length)

lemma bit_byteD: "bit (w :: u8) n \<Longrightarrow> n < 8"
  using bit_imp_le_length [of w n] by simp

lemma not_bit_u16: "n \<ge> 16 \<Longrightarrow> \<not> bit (w :: u16) n"
  by (auto dest: bit_imp_le_length)

lemma make_entry_bits:
  "bit (LimitLow (make_entry base limit access gran)) n \<longleftrightarrow> n < 16 \<and> bit limit n"
  "bit (BaseLow (make_entry base limit access gran)) n \<longleftrightarrow> n < 16 \<and> bit base n"
  "bit (BaseMiddle (make_entry base limit access gran)) n \<longleftrightarrow> n < 8 \<and> bit base (n + 16)"
  "bit (Access (make_entry base limit access gran)) n \<longleftrightarrow> bit access n"
  "bit (Granularity (make_entry base limit access gran)) n \<longleftrightarrow> (if n < 4 then bit limit (n + 16) else bit gran n)"
  "bit (BaseHigh (make_entry base limit access gran)) n \<longleftrightarrow> n < 8 \<and> bit base (n + 24)"
  unfolding make_entry_def GDTEntry.simps nibble_masks
  by (auto simp: bit_simps ac_simps not_bit_byte dest: bit_byteD)

lemma descriptor_bits:
  "bit (entry_bytes (make_entry base limit access gran)) n \<longleftrightarrow> descriptor_bit base limit access gran n"
proof -
  consider "n < 16" | "16 \<le> n" "n < 32" | "32 \<le> n" "n < 40" | "40 \<le> n" "n < 48" | "48 \<le> n" "n < 52" | "52 \<le> n" "n < 56" | "56 \<le> n"
    by linarith
  then show ?thesis
    by cases (auto simp: entry_bits make_entry_bits descriptor_bit_def not_bit_byte not_bit_u16)
qed

lemma desc_bits:
  "bit (desc_base d) n \<longleftrightarrow> n < 32 \<and> (if n < 24 then bit d (n + 16) else bit d (n + 32))"
  "bit (desc_limit d) n \<longleftrightarrow> n < 20 \<and> (if n < 16 then bit d n else bit d (n + 32))"
  "bit (desc_access d) n \<longleftrightarrow> n < 8 \<and> bit d (n + 40)"
  "bit (desc_flags d) n \<longleftrightarrow> n < 4 \<and> bit d (n + 52)"
  by (auto simp: desc_base_def desc_limit_def desc_access_def desc_flags_def bit_simps ac_simps)

lemma desc_entry:
  "desc_base (entry_bytes (make_entry base limit access gran)) = base"
  "desc_limit (entry_bytes (make_entry base limit access gran)) = take_bit 20 limit"
  "desc_access (entry_bytes (make_entry base limit access gran)) = access"
  "desc_flags (entry_bytes (make_entry base limit access gran)) = drop_bit 4 gran"
  by (rule bit_word_eqI; auto simp: desc_bits descriptor_bits descriptor_bit_def bit_simps ac_simps dest: bit_byteD)+

lemma system_descriptor_bits:
  "bit ((ucast limit AND mask 16) OR push_bit 16 (base AND mask 24) OR push_bit 40 (ucast (access :: u8))
     OR push_bit 48 (ucast (drop_bit 16 limit) AND mask 4) OR push_bit 56 (drop_bit 24 base AND mask 8) :: u64) n \<longleftrightarrow>
   descriptor_bit (ucast base) limit access 0 n"
proof -
  consider "n < 16" | "16 \<le> n" "n < 32" | "32 \<le> n" "n < 40" | "40 \<le> n" "n < 48" | "48 \<le> n" "n < 52" | "52 \<le> n" "n < 56" | "56 \<le> n"
    by linarith
  then show ?thesis
    by cases (auto simp: bit_simps descriptor_bit_def dest: bit_byteD)
qed

lemma tss_low_bits: "bit (tss_low base limit) n \<longleftrightarrow> descriptor_bit (ucast base) limit 0x89 0 n"
  unfolding tss_low_def nibble_masks by (rule system_descriptor_bits)

lemma tss_low_entry: "tss_low base limit = entry_bytes (make_entry (ucast base) limit 0x89 0)"
  by (rule bit_word_eqI) (simp add: tss_low_bits descriptor_bits)

lemma desc_base64_tss: "desc_base64 (tss_low base limit) (drop_bit 32 base AND 0xFFFFFFFF) = base"
  unfolding desc_base64_def tss_low_entry desc_entry nibble_masks by (rule bit_word_eqI) (auto simp: bit_simps)

section \<open>The tables of a CPU\<close>

text \<open>The shape of the static arrays.\<close>

definition gdt_shape :: "gdt_sys \<Rightarrow> bool" where
  "gdt_shape s \<longleftrightarrow> length (entries s) = MaxCPUs \<and> (\<forall>t \<in> set (entries s). length t = 8) \<and>
     length (gdtp s) = MaxCPUs \<and> length (tss s) = MaxCPUs"

definition cpu_table :: "u64 \<Rightarrow> u64 list" where
  "cpu_table tssAddress =
     [entry_bytes (make_entry 0 0 0 0), entry_bytes (make_entry 0 0xFFFFF 0x9A 0xA0), entry_bytes (make_entry 0 0xFFFFF 0x92 0xA0),
      tss_low tssAddress (sizeof_TSSStruct - 1), drop_bit 32 tssAddress AND 0xFFFFFFFF,
      entry_bytes (make_entry 0 0xFFFFF 0xF2 0xC0), entry_bytes (make_entry 0 0xFFFFF 0xF2 0xA0), entry_bytes (make_entry 0 0xFFFFF 0xFA 0xA0)]"

lemma write_descriptor_ok:
  "unat c < length (entries s) \<Longrightarrow> i < length (entries s ! unat c) \<Longrightarrow>
   write_descriptor c i d s = Inr (s\<lparr>entries := (entries s)[unat c := (entries s ! unat c)[i := d]]\<rparr>)"
  by (simp add: write_descriptor_def)

lemma list_of_8: "length t = 8 \<Longrightarrow> t[0 := a, 1 := b, 2 := c, 3 := d, 4 := e, 5 := f, 6 := g, 7 := h] = [a, b, c, d, e, f, g, h]"
  by (rule nth_equalityI) (auto simp: nth_list_update nth_Cons' less_Suc_eq numeral_eq_Suc)

lemma GDT_Initialize_state:
  assumes "gdt_shape s" and "unat cpuId < MaxCPUs"
  defines "c \<equiv> unat cpuId"
  shows "GDT_Initialize entriesBase tssBase cpuId rsp0 ts1 s =
    Inr (s\<lparr>tss := (tss s)[c := \<lparr>RSP0 = rsp0, RSP1 = 0, RSP2 = 0, IST1 = ts1, ISTs = replicate 6 0, IOMapBase = ucast sizeof_TSSStruct\<rparr>],
           entries := (entries s)[c := cpu_table (GetTSSStruct tssBase cpuId)],
           gdtp := (gdtp s)[c := \<lparr>Limit = 63, Base = entriesBase + ucast cpuId * 64\<rparr>],
           gdtr := Some \<lparr>Limit = 63, Base = entriesBase + ucast cpuId * 64\<rparr>, task_register := Some 0x18,
           gdt_core := (gdt_core s)\<lparr>msrs := (msrs (gdt_core s))(gsOffset := ucast cpuId)\<rparr>\<rparr>)"
proof -
  have len: "c < length (entries s)" "c < length (tss s)" "c < length (gdtp s)" "length (entries s ! c) = 8"
    using assms by (auto simp: gdt_shape_def)
  have cpu: "wrmsr gsOffset cpuId (ucast (drop_bit 32 (ucast cpuId :: u64))) x = x\<lparr>msrs := (msrs x)(gsOffset := ucast cpuId)\<rparr>" for x
  proof -
    have "(ucast (drop_bit 32 (ucast cpuId :: u64)) :: u32) = 0" by (rule bit_word_eqI) (auto simp: bit_simps dest: bit_imp_le_length)
    then show ?thesis by (simp add: wrmsr_def)
  qed
  note upd = list_of_8 [OF len(4)]
  show ?thesis
    using len unfolding GDT_Initialize_def c_def
    by (simp add: TSS_Initialize_def SetEntry_def SetTSSDescriptor_def write_descriptor_ok Let_def LoadGDT_def LoadTSS_def
        cpu upd [unfolded c_def] cpu_table_def flip: One_nat_def)
qed

text \<open>
  C31. The descriptor tables, read the way the processor reads them. For a CPU whose identifier is below the size of
  the static arrays, the set-up leaves flat kernel and user segments with the intended access rights, a task
  descriptor that leads to the CPU's own task state segment with its exact size, and that segment with the two
  stacks; the registers point to this CPU's table, \<^verbatim>\<open>GetCpuId\<close> returns the identifier, and no
  other CPU's table or task state segment has changed. An identifier beyond the arrays is an access out of bounds.
\<close>

theorem GDT_Initialize_tables:
  assumes "gdt_shape s"
  shows "if unat cpuId \<ge> MaxCPUs then GDT_Initialize entriesBase tssBase cpuId rsp0 ts1 s = Inl OutOfBounds
     else \<exists>s' t. GDT_Initialize entriesBase tssBase cpuId rsp0 ts1 s = Inr s' \<and> gdt_shape s' \<and>
       entries s' = (entries s)[unat cpuId := t] \<and> t ! 0 = 0 \<and>
       (\<forall>(i, access, flags) \<in> {(1, 0x9A, 0xA), (2, 0x92, 0xA), (5, 0xF2, 0xC), (6, 0xF2, 0xA), (7, 0xFA, 0xA)}.
          desc_base (t ! i) = 0 \<and> desc_limit (t ! i) = 0xFFFFF \<and> desc_access (t ! i) = access \<and> desc_flags (t ! i) = flags) \<and>
       desc_access (t ! 3) = 0x89 \<and> desc_limit (t ! 3) = 103 \<and> desc_base64 (t ! 3) (t ! 4) = GetTSSStruct tssBase cpuId \<and>
       (\<exists>T. tss s' = (tss s)[unat cpuId := T] \<and> RSP0 T = rsp0 \<and> IST1 T = ts1) \<and>
       gdtr s' = Some \<lparr>Limit = 63, Base = entriesBase + ucast cpuId * 64\<rparr> \<and> task_register s' = Some 0x18 \<and>
       GetCpuId (gdt_core s') = cpuId"
proof (cases "unat cpuId < MaxCPUs")
  case False
  then have "GDT_Initialize entriesBase tssBase cpuId rsp0 ts1 s = Inl OutOfBounds"
    using assms by (simp add: GDT_Initialize_def TSS_Initialize_def gdt_shape_def)
  then show ?thesis using False by simp
next
  case True
  let ?t = "cpu_table (GetTSSStruct tssBase cpuId)"
  have shape: "\<And>t. t \<in> set ((entries s)[unat cpuId := ?t]) \<Longrightarrow> length t = 8"
    using assms set_update_subset_insert [of "entries s" "unat cpuId" ?t] by (fastforce simp: gdt_shape_def cpu_table_def)
  have zero: "?t ! 0 = 0"
    by (rule bit_word_eqI) (simp add: cpu_table_def descriptor_bits descriptor_bit_def)
  have segs: "\<forall>(i, access, flags) \<in> {(1, 0x9A, 0xA), (2, 0x92, 0xA), (5, 0xF2, 0xC), (6, 0xF2, 0xA), (7, 0xFA, 0xA)}.
      desc_base (?t ! i) = 0 \<and> desc_limit (?t ! i) = 0xFFFFF \<and> desc_access (?t ! i) = access \<and> desc_flags (?t ! i) = flags"
    by (simp add: cpu_table_def desc_entry)
  have sys: "desc_access (?t ! 3) = 0x89" "desc_limit (?t ! 3) = 103" "desc_base64 (?t ! 3) (?t ! 4) = GetTSSStruct tssBase cpuId"
    using desc_base64_tss [of "GetTSSStruct tssBase cpuId" "sizeof_TSSStruct - 1"]
    by (simp_all add: cpu_table_def tss_low_entry desc_entry sizeof_TSSStruct_def)
  have id: "GetCpuId ((gdt_core s)\<lparr>msrs := (msrs (gdt_core s))(gsOffset := ucast cpuId)\<rparr>) = cpuId"
    unfolding GetCpuId_def rdmsr_def by (rule bit_word_eqI) (simp add: bit_simps)
  let ?T = "\<lparr>RSP0 = rsp0, RSP1 = 0, RSP2 = 0, IST1 = ts1, ISTs = replicate 6 0, IOMapBase = ucast sizeof_TSSStruct\<rparr>"
  have T: "\<exists>T. (tss s)[unat cpuId := ?T] = (tss s)[unat cpuId := T] \<and> RSP0 T = rsp0 \<and> IST1 T = ts1"
    by (rule exI [of _ ?T]) simp
  show ?thesis
    unfolding GDT_Initialize_state [OF assms True]
    by (rule if_not_P [THEN iffD2], use True in simp, rule exI, rule exI [of _ ?t], intro conjI, rule refl)
      (use assms shape zero segs sys id T in \<open>simp_all add: gdt_shape_def\<close>)
qed

definition fresh_gdt :: gdt_sys where
  "fresh_gdt = \<lparr>entries = replicate MaxCPUs (replicate 8 0), gdtp = replicate MaxCPUs \<lparr>Limit = 0, Base = 0\<rparr>,
     tss = replicate MaxCPUs \<lparr>RSP0 = 0, RSP1 = 0, RSP2 = 0, IST1 = 0, ISTs = replicate 6 0, IOMapBase = 0\<rparr>,
     gdtr = None, task_register = None,
     gdt_core = \<lparr>msrs = (\<lambda>_. 0), cr0 = 0, cr4 = 0, xcr0 = 0, fpuControlWord = 0, mxcsr = 0\<rparr>\<rparr>"

lemma fresh_gdt_shape: "gdt_shape fresh_gdt"
  by (auto simp: gdt_shape_def fresh_gdt_def)

theorem GDT_Initialize_tables_witness:
  "(\<exists>s'. GDT_Initialize 0x5000 0x9000 3 0x7000 0x8000 fresh_gdt = Inr s' \<and> GetCpuId (gdt_core s') = 3) \<and>
   GDT_Initialize 0x5000 0x9000 1024 0x7000 0x8000 fresh_gdt = Inl OutOfBounds"
  using GDT_Initialize_tables [OF fresh_gdt_shape, of 3 "0x5000" "0x9000" "0x7000" "0x8000"]
    GDT_Initialize_tables [OF fresh_gdt_shape, of 1024 "0x5000" "0x9000" "0x7000" "0x8000"]
  by (auto simp: MaxCPUs_def)

end
