(* ===== verification/ACPI_Tables.thy ===== *)
theory ACPI_Tables
  imports Port_IO String_View
begin

text \<open>
  The firmware tables (\<^verbatim>\<open>Firmware/ACPI.cpp\<close>): finding and checking the root tables, looking up a table by its
  signature, and walking the entries of the interrupt controller table (MADT).

  The tables are bytes in memory at the kernel's virtual addresses, a parameter \<open>mem\<close>; structures are packed, so a
  member is the bytes at its offset, low byte first. \<open>hh\<close> is the offset of the direct map that turns a physical into a
  virtual address. A null pointer is address 0. The boot loader's answers are parameters, \<open>None\<close> for a null response.
\<close>

unbundle bit_operations_syntax

type_synonym bytes = "u64 \<Rightarrow> u8"

definition rd16 :: "bytes \<Rightarrow> u64 \<Rightarrow> u16" where
  "rd16 mem p = ucast (mem p) OR push_bit 8 (ucast (mem (p + 1)))"

definition rd32 :: "bytes \<Rightarrow> u64 \<Rightarrow> u32" where
  "rd32 mem p = ucast (rd16 mem p) OR push_bit 16 (ucast (rd16 mem (p + 2)))"

definition rd64 :: "bytes \<Rightarrow> u64 \<Rightarrow> u64" where
  "rd64 mem p = ucast (rd32 mem p) OR push_bit 32 (ucast (rd32 mem (p + 4)))"

section \<open>Members of the tables\<close>

definition sizeof_RSDP :: nat where "sizeof_RSDP = 20"
definition sizeof_XSDP :: nat where "sizeof_XSDP = 36"
definition sizeof_SDTHeader :: nat where "sizeof_SDTHeader = 36"
definition sizeof_MADT :: nat where "sizeof_MADT = 44"

definition rsdp_revision :: "bytes \<Rightarrow> u64 \<Rightarrow> u8" where "rsdp_revision mem p = mem (p + 15)"
definition RSDTAddress :: "bytes \<Rightarrow> u64 \<Rightarrow> u32" where "RSDTAddress mem p = rd32 mem (p + 16)"
definition xsdp_length :: "bytes \<Rightarrow> u64 \<Rightarrow> u32" where "xsdp_length mem p = rd32 mem (p + 20)"
definition XSDTAddress :: "bytes \<Rightarrow> u64 \<Rightarrow> u64" where "XSDTAddress mem p = rd64 mem (p + 24)"
definition sdt_length :: "bytes \<Rightarrow> u64 \<Rightarrow> u32" where "sdt_length mem p = rd32 mem (p + 4)"
definition rsdt_pointer :: "bytes \<Rightarrow> u64 \<Rightarrow> nat \<Rightarrow> u32" where "rsdt_pointer mem p i = rd32 mem (p + 36 + 4 * of_nat i)"
definition xsdt_pointer :: "bytes \<Rightarrow> u64 \<Rightarrow> nat \<Rightarrow> u64" where "xsdt_pointer mem p i = rd64 mem (p + 36 + 8 * of_nat i)"
definition fadt_dsdt :: "bytes \<Rightarrow> u64 \<Rightarrow> u32" where "fadt_dsdt mem p = rd32 mem (p + 40)"
definition SMICommandPort :: "bytes \<Rightarrow> u64 \<Rightarrow> u32" where "SMICommandPort mem p = rd32 mem (p + 48)"
definition acpiEnable :: "bytes \<Rightarrow> u64 \<Rightarrow> u8" where "acpiEnable mem p = mem (p + 52)"
definition PM1aControlBlock :: "bytes \<Rightarrow> u64 \<Rightarrow> u32" where "PM1aControlBlock mem p = rd32 mem (p + 64)"
definition fadt_xDsdt :: "bytes \<Rightarrow> u64 \<Rightarrow> u64" where "fadt_xDsdt mem p = rd64 mem (p + 140)"

text \<open>The four characters of a signature as a view of the table.\<close>

definition sig_view :: "bytes \<Rightarrow> u64 \<Rightarrow> StringView" where
  "sig_view mem p = \<lparr>sv_data = map (\<lambda>i. char_of (unat (mem (p + of_nat i)))) [0..<4], sv_size = 4\<rparr>"

section \<open>Checksums\<close>

fun sum_bytes :: "bytes \<Rightarrow> u64 \<Rightarrow> nat \<Rightarrow> nat \<Rightarrow> u8 \<Rightarrow> u8" where
  "sum_bytes mem p i 0 acc = acc"
| "sum_bytes mem p i (Suc n) acc = sum_bytes mem p (i + 1) n (acc + mem (p + of_nat i))"

definition ValidateRSDP :: "bytes \<Rightarrow> u64 \<Rightarrow> bool" where
  "ValidateRSDP mem rsdp = (if rsdp = 0 then False else sum_bytes mem rsdp 0 sizeof_RSDP 0 = 0)"

definition ValidateXSDP :: "bytes \<Rightarrow> u64 \<Rightarrow> bool" where
  "ValidateXSDP mem xsdp =
     (if xsdp = 0 then False
      else if \<not> ValidateRSDP mem xsdp then False
      else if unat (xsdp_length mem xsdp) < sizeof_XSDP then False
      else sum_bytes mem xsdp 0 (unat (xsdp_length mem xsdp)) 0 = 0)"

definition ValidateSDT :: "bytes \<Rightarrow> u64 \<Rightarrow> bool" where
  "ValidateSDT mem sdt =
     (if sdt = 0 then False
      else if unat (sdt_length mem sdt) < sizeof_SDTHeader then False
      else sum_bytes mem sdt 0 (unat (sdt_length mem sdt)) 0 = 0)"

section \<open>Looking up tables\<close>

record ACPI =
  acpi_rsdp :: u64
  acpi_rsdt :: u64
  acpi_xsdp :: u64
  acpi_xsdt :: u64
  acpi_fadt :: u64
  acpi_dsdt :: u64

text \<open>The physical address in slot \<open>i\<close> of the root table; 64 bits wide in an XSDT, 32 in an RSDT.\<close>

definition root_pointer :: "bytes \<Rightarrow> bool \<Rightarrow> u64 \<Rightarrow> nat \<Rightarrow> u64" where
  "root_pointer mem extended sdt i = (if extended then xsdt_pointer mem sdt i else ucast (rsdt_pointer mem sdt i))"

text \<open>The number of slots; the subtraction is in 64 bits and wraps for a table shorter than its header.\<close>

definition root_entries :: "bytes \<Rightarrow> bool \<Rightarrow> u64 \<Rightarrow> nat" where
  "root_entries mem extended sdt =
     unat ((ucast (sdt_length mem sdt) - of_nat sizeof_SDTHeader :: u64) div (if extended then 8 else 4))"

fun find_fadt :: "bytes \<Rightarrow> u64 \<Rightarrow> bool \<Rightarrow> u64 \<Rightarrow> nat list \<Rightarrow> fault + u64" where
  "find_fadt mem hh extended sdt [] = Inr 0"
| "find_fadt mem hh extended sdt (i # is) =
     (let table = root_pointer mem extended sdt i
      in bindR (sv_eq (sig_view mem (table + hh)) (lit ''FACP'')) (\<lambda>hit.
         if hit then Inr (table + hh) else find_fadt mem hh extended sdt is))"

definition FindFADT :: "bytes \<Rightarrow> u64 \<Rightarrow> u64 \<Rightarrow> ACPI \<Rightarrow> fault + u64" where
  "FindFADT mem hh sdt s =
     (let extended = (rsdp_revision mem (acpi_rsdp s) > 0)
      in find_fadt mem hh extended sdt [0..<root_entries mem extended sdt])"

fun find_table :: "bytes \<Rightarrow> u64 \<Rightarrow> bool \<Rightarrow> u64 \<Rightarrow> StringView \<Rightarrow> nat list \<Rightarrow> nat \<Rightarrow> fault + u64" where
  "find_table mem hh extended sdt signature [] index = Inr 0"
| "find_table mem hh extended sdt signature (i # is) index =
     (let table = root_pointer mem extended sdt i + hh
      in bindR (sv_eq (sig_view mem table) signature) (\<lambda>hit.
         if hit then (if index = 0 then Inr table else find_table mem hh extended sdt signature is (index - 1))
         else find_table mem hh extended sdt signature is index))"

definition GetTable :: "bytes \<Rightarrow> u64 \<Rightarrow> StringView \<Rightarrow> nat \<Rightarrow> ACPI \<Rightarrow> fault + u64" where
  "GetTable mem hh signature index s =
     bindR (sv_eq signature (lit ''DSDT'')) (\<lambda>b. if b then Inr (acpi_dsdt s) else
     bindR (sv_eq signature (lit ''FACP'')) (\<lambda>b. if b then Inr (acpi_fadt s) else
     bindR (sv_eq signature (lit ''RSDT'')) (\<lambda>b. if b then Inr (acpi_rsdt s) else
     bindR (sv_eq signature (lit ''XSDT'')) (\<lambda>b. if b then Inr (acpi_xsdt s) else
       if acpi_rsdp s = 0 then Inl NullDeref
       else let extended = (rsdp_revision mem (acpi_rsdp s) > 0);
                sdt = (if extended then acpi_xsdt s else acpi_rsdt s)
            in if sdt = 0 then Inl NullDeref
               else find_table mem hh extended sdt signature [0..<root_entries mem extended sdt] index))))"

section \<open>The entries of the MADT\<close>

text \<open>
  The walk adds the length byte of each entry to the pointer. An entry of length 0 leaves the pointer where
  it is, so the loop never ends. Addresses are natural numbers here: the table lies below the end of the address space.
\<close>

datatype MADTEntryType = LocalAPIC | IOAPIC_Entry | IRQSrcOverride | NMI_Entry | LocalAPICNMI | LocalAPICOverride

fun madt_code :: "MADTEntryType \<Rightarrow> u8" where
  "madt_code LocalAPIC = 0" | "madt_code IOAPIC_Entry = 1" | "madt_code IRQSrcOverride = 2"
| "madt_code NMI_Entry = 3" | "madt_code LocalAPICNMI = 4" | "madt_code LocalAPICOverride = 5"

function count_entries :: "bytes \<Rightarrow> nat \<Rightarrow> u8 \<Rightarrow> nat \<Rightarrow> nat \<Rightarrow> fault + nat" where
  "count_entries mem stop type current count =
     (if current < stop then
        let count' = (if mem (of_nat current) = type then count + 1 else count);
            len = unat (mem (of_nat current + 1))
        in if len = 0 then Inl Hang else count_entries mem stop type (current + len) count'
      else Inr count)"
  by pat_completeness auto
termination by (relation "measure (\<lambda>(mem, stop, type, current, count). stop - current)") auto

function find_entry :: "bytes \<Rightarrow> nat \<Rightarrow> u8 \<Rightarrow> nat \<Rightarrow> nat \<Rightarrow> fault + nat" where
  "find_entry mem stop type current index =
     (if current < stop then
        (if mem (of_nat current) = type \<and> index = 0 then Inr current
         else let index' = (if mem (of_nat current) = type then index - 1 else index);
                  len = unat (mem (of_nat current + 1))
              in if len = 0 then Inl Hang else find_entry mem stop type (current + len) index')
      else Inr 0)"
  by pat_completeness auto
termination by (relation "measure (\<lambda>(mem, stop, type, current, index). stop - current)") auto

declare count_entries.simps [simp del] find_entry.simps [simp del]

definition madt_stop :: "bytes \<Rightarrow> u64 \<Rightarrow> nat" where
  "madt_stop mem madt = unat madt + unat (sdt_length mem madt)"

definition FindMADTEntryCount :: "bytes \<Rightarrow> u64 \<Rightarrow> MADTEntryType \<Rightarrow> fault + nat" where
  "FindMADTEntryCount mem madt type =
     (if madt = 0 then Inl NullDeref
      else count_entries mem (madt_stop mem madt) (madt_code type) (unat madt + sizeof_MADT) 0)"

definition FindMADTEntry :: "bytes \<Rightarrow> u64 \<Rightarrow> MADTEntryType \<Rightarrow> nat \<Rightarrow> fault + nat" where
  "FindMADTEntry mem madt type index =
     (if madt = 0 then Inl NullDeref
      else find_entry mem (madt_stop mem madt) (madt_code type) (unat madt + sizeof_MADT) index)"

section \<open>Switching to ACPI mode and initialisation\<close>

text \<open>The ports are 32-bit members and become 16-bit port numbers in the calls.\<close>

definition sci_enabled :: "port_device \<Rightarrow> u16 \<Rightarrow> port_trace \<Rightarrow> bool \<times> port_trace" where
  "sci_enabled dev port tr = (let (v, tr') = inw dev port tr in (v AND 1 \<noteq> 0, tr'))"

definition WriteByteCommand :: "port_device \<Rightarrow> bytes \<Rightarrow> u8 \<Rightarrow> ACPI \<Rightarrow> port_trace \<Rightarrow> port_trace option" where
  "WriteByteCommand dev mem command s tr =
     (let pm1a = ucast (PM1aControlBlock mem (acpi_fadt s));
          (enabled, tr1) = sci_enabled dev pm1a tr
      in if enabled then Some tr1
         else wait_until (sci_enabled dev pm1a) (outb (ucast (SMICommandPort mem (acpi_fadt s))) command tr1))"

text \<open>
  \<open>debug\<close> says whether debug messages are printed: only then is the name of the revision looked up, in a
  table of three names.
\<close>

definition ACPI_Initialize ::
  "port_device \<Rightarrow> bytes \<Rightarrow> u64 \<Rightarrow> bool \<Rightarrow> u64 option \<Rightarrow> ACPI \<times> port_trace \<Rightarrow> (fault + ACPI \<times> port_trace) option" where
  "ACPI_Initialize dev mem hh debug rsdp_response = (\<lambda>(s, tr).
     case rsdp_response of
       None \<Rightarrow> Some (Inl (Panic ''Limine RSDP response is null, cannot continue!''))
     | Some rsdp \<Rightarrow>
       if rsdp = 0 then Some (Inl NullDeref)
       else let revision = rsdp_revision mem rsdp; s1 = s\<lparr>acpi_rsdp := rsdp\<rparr> in
       if debug \<and> revision \<ge> 3 then Some (Inl OutOfBounds)
       else bindO (Some
         (if revision > 0
          then let s2 = s1\<lparr>acpi_xsdp := rsdp\<rparr> in
               if \<not> ValidateXSDP mem rsdp then Inl (Panic ''Invalid XSDP checksum, cannot continue!'')
               else Inr (s2\<lparr>acpi_xsdt := XSDTAddress mem rsdp + hh\<rparr>)
          else let s2 = s1\<lparr>acpi_rsdt := ucast (RSDTAddress mem rsdp) + hh\<rparr> in
               if \<not> ValidateSDT mem (acpi_rsdt s2) then Inl (Panic ''Invalid RSDT checksum, cannot continue!'')
               else Inr s2)) (\<lambda>s3.
         let sdtAddrPhys = (if revision > 0 then XSDTAddress mem rsdp else ucast (RSDTAddress mem rsdp));
             sdt = sdtAddrPhys + hh
         in if \<not> ValidateSDT mem sdt then Some (Inl (Panic ''Failed to verify SDT''))
            else bindO (Some (FindFADT mem hh sdt s3)) (\<lambda>fadt.
              let s4 = s3\<lparr>acpi_fadt := fadt\<rparr> in
              if fadt = 0 then Some (Inl (Panic ''Failed to find FADT''))
              else let dsdtPhys = (if unat (sdt_length mem fadt) \<ge> 140 + 8 \<and> fadt_xDsdt mem fadt \<noteq> 0
                                   then fadt_xDsdt mem fadt else ucast (fadt_dsdt mem fadt))
                   in if dsdtPhys = 0 then Some (Inl (Panic ''Failed to find DSDT''))
                      else let s5 = s4\<lparr>acpi_dsdt := dsdtPhys + hh\<rparr>
                           in case WriteByteCommand dev mem (acpiEnable mem fadt) s5 tr of
                                None \<Rightarrow> None
                              | Some tr' \<Rightarrow> Some (Inr (s5, tr')))))"

section \<open>Checksums as sums\<close>

definition checksum_ok :: "bytes \<Rightarrow> u64 \<Rightarrow> nat \<Rightarrow> bool" where
  "checksum_ok mem p n \<longleftrightarrow> (\<Sum>k<n. unat (mem (p + of_nat k))) mod 256 = 0"

lemma sum_bytes_sum: "sum_bytes mem p i n acc = acc + (\<Sum>k<n. mem (p + of_nat (i + k)))"
proof (induction n arbitrary: i acc)
  case (Suc n)
  have "(\<Sum>k<Suc n. mem (p + of_nat (i + k))) = mem (p + of_nat i) + (\<Sum>k<n. mem (p + of_nat (i + 1 + k)))"
    by (subst sum.lessThan_Suc_shift) simp
  then show ?case using Suc [of "i + 1" "acc + mem (p + of_nat i)"] by (simp del: sum.lessThan_Suc of_nat_add)
qed simp

lemma sum_bytes_checksum: "sum_bytes mem p 0 n 0 = 0 \<longleftrightarrow> checksum_ok mem p n"
proof -
  let ?n = "\<Sum>k<n. unat (mem (p + of_nat k))"
  have "sum_bytes mem p 0 n 0 = of_nat ?n" by (simp add: sum_bytes_sum)
  moreover have "(of_nat ?n :: u8) = 0 \<longleftrightarrow> ?n mod 256 = 0"
    by (simp only: word_of_nat_eq_0_iff) (simp add: mod_eq_0_iff_dvd)
  ultimately show ?thesis by (simp only: checksum_ok_def)
qed

lemma Validate_checksum:
  "ValidateRSDP mem p \<longleftrightarrow> p \<noteq> 0 \<and> checksum_ok mem p sizeof_RSDP"
  "ValidateXSDP mem p \<longleftrightarrow> p \<noteq> 0 \<and> checksum_ok mem p sizeof_RSDP \<and> sizeof_XSDP \<le> unat (xsdp_length mem p) \<and>
     checksum_ok mem p (unat (xsdp_length mem p))"
  "ValidateSDT mem p \<longleftrightarrow> p \<noteq> 0 \<and> sizeof_SDTHeader \<le> unat (sdt_length mem p) \<and> checksum_ok mem p (unat (sdt_length mem p))"
  by (auto simp: ValidateRSDP_def ValidateXSDP_def ValidateSDT_def sum_bytes_checksum)

section \<open>Tables by signature\<close>

definition table_sig :: "bytes \<Rightarrow> u64 \<Rightarrow> string" where
  "table_sig mem p = map (\<lambda>i. char_of (unat (mem (p + of_nat i)))) [0..<4]"

lemma sig_view_eq: "no_nul sig \<Longrightarrow> sv_eq (sig_view mem p) (lit sig) = Inr (table_sig mem p = sig)"
proof -
  assume "no_nul sig"
  moreover have "view_ok (sig_view mem p)" "view_text (sig_view mem p) = table_sig mem p"
    by (simp_all add: sig_view_def view_ok_def view_text_def table_sig_def)
  ultimately show ?thesis using sv_eq_text [of "sig_view mem p" "lit sig"] by simp
qed

text \<open>The tables the root table lists, at their virtual addresses and in order.\<close>

definition root_tables :: "bytes \<Rightarrow> u64 \<Rightarrow> bool \<Rightarrow> u64 \<Rightarrow> u64 list" where
  "root_tables mem hh extended sdt = map (\<lambda>i. root_pointer mem extended sdt i + hh) [0..<root_entries mem extended sdt]"

definition nth_or_null :: "u64 list \<Rightarrow> nat \<Rightarrow> u64" where
  "nth_or_null ts index = (if index < length ts then ts ! index else 0)"

lemma nth_or_null_simps [simp]:
  "nth_or_null [] k = 0" "nth_or_null (t # ts) 0 = t" "nth_or_null (t # ts) (Suc k) = nth_or_null ts k"
  by (simp_all add: nth_or_null_def)

lemma find_table_filter:
  assumes "no_nul sig"
  shows "find_table mem hh extended sdt (lit sig) is index =
     Inr (nth_or_null (filter (\<lambda>t. table_sig mem t = sig) (map (\<lambda>i. root_pointer mem extended sdt i + hh) is)) index)"
proof (induction "is" arbitrary: index)
  case (Cons i "is")
  show ?case
    using Cons.IH by (cases index) (simp_all add: sig_view_eq [OF assms] Let_def)
qed simp

lemma find_fadt_filter:
  "find_fadt mem hh extended sdt is =
     Inr (nth_or_null (filter (\<lambda>t. table_sig mem t = ''FACP'') (map (\<lambda>i. root_pointer mem extended sdt i + hh) is)) 0)"
  by (induction "is") (simp_all add: sig_view_eq no_nul_def Let_def)

section \<open>Walking the MADT\<close>

text \<open>The addresses of the entries the walk visits, and whether it stops at an entry of length zero.\<close>

function madt_walk :: "bytes \<Rightarrow> nat \<Rightarrow> nat \<Rightarrow> nat list \<times> bool" where
  "madt_walk mem stop current =
     (if current < stop then
        let len = unat (mem (of_nat current + 1))
        in if len = 0 then ([current], True)
           else (current # fst (madt_walk mem stop (current + len)), snd (madt_walk mem stop (current + len)))
      else ([], False))"
  by pat_completeness auto
termination by (relation "measure (\<lambda>(mem, stop, current). stop - current)") auto

declare madt_walk.simps [simp del]

lemma madt_walk_range:
  "sorted_wrt (<) (fst (madt_walk mem stop current)) \<and> (\<forall>a \<in> set (fst (madt_walk mem stop current)). current \<le> a \<and> a < stop)"
proof (induction mem stop current rule: madt_walk.induct)
  case (1 mem stop current)
  show ?case
  proof (cases "current < stop \<and> unat (mem (of_nat current + 1)) \<noteq> 0")
    case True
    then have "current < current + unat (mem (of_nat current + 1))" by simp
    then show ?thesis using 1 True by (subst (1 2) madt_walk.simps) (fastforce simp: Let_def)
  qed (subst (1 2) madt_walk.simps, auto simp: Let_def)
qed

text \<open>One turn of each walk: past the end, at an entry of length zero, and at an entry that is stepped over.\<close>

lemma madt_walk_turn:
  "\<not> current < stop \<Longrightarrow> madt_walk mem stop current = ([], False)"
  "current < stop \<Longrightarrow> mem (of_nat current + 1) = 0 \<Longrightarrow> madt_walk mem stop current = ([current], True)"
  "current < stop \<Longrightarrow> mem (of_nat current + 1) \<noteq> 0 \<Longrightarrow>
     madt_walk mem stop current = (let r = madt_walk mem stop (current + unat (mem (of_nat current + 1))) in (current # fst r, snd r))"
  by (subst madt_walk.simps, simp add: Let_def unat_eq_0)+

lemma count_entries_turn:
  "\<not> current < stop \<Longrightarrow> count_entries mem stop type current count = Inr count"
  "current < stop \<Longrightarrow> mem (of_nat current + 1) = 0 \<Longrightarrow> count_entries mem stop type current count = Inl Hang"
  "current < stop \<Longrightarrow> mem (of_nat current + 1) \<noteq> 0 \<Longrightarrow>
     count_entries mem stop type current count =
     count_entries mem stop type (current + unat (mem (of_nat current + 1))) (if mem (of_nat current) = type then count + 1 else count)"
  by (subst count_entries.simps, simp add: Let_def unat_eq_0)+

lemma find_entry_turn:
  "\<not> current < stop \<Longrightarrow> find_entry mem stop type current index = Inr 0"
  "current < stop \<Longrightarrow> mem (of_nat current + 1) = 0 \<Longrightarrow>
     find_entry mem stop type current index = (if mem (of_nat current) = type \<and> index = 0 then Inr current else Inl Hang)"
  "current < stop \<Longrightarrow> mem (of_nat current + 1) \<noteq> 0 \<Longrightarrow>
     find_entry mem stop type current index =
     (if mem (of_nat current) = type \<and> index = 0 then Inr current
      else find_entry mem stop type (current + unat (mem (of_nat current + 1))) (if mem (of_nat current) = type then index - 1 else index))"
  by (subst find_entry.simps, simp add: Let_def unat_eq_0)+

lemma count_entries_walk:
  "count_entries mem stop type current count =
     (if snd (madt_walk mem stop current) then Inl Hang
      else Inr (count + length (filter (\<lambda>a. mem (of_nat a) = type) (fst (madt_walk mem stop current)))))"
proof (induction mem stop current arbitrary: count rule: madt_walk.induct)
  case (1 mem stop current)
  show ?case
  proof (cases "current < stop \<and> mem (of_nat current + 1) \<noteq> 0")
    case True
    then have "unat (mem (of_nat current + 1)) \<noteq> 0" by (simp add: unat_eq_0)
    note IH = 1(1) [OF conjunct1 [OF True] refl this]
    show ?thesis using True by (simp add: count_entries_turn(3) madt_walk_turn(3) IH Let_def)
  next
    case False
    then show ?thesis by (cases "current < stop") (simp_all add: count_entries_turn madt_walk_turn)
  qed
qed

lemma find_entry_walk:
  "find_entry mem stop type current index =
     (let ms = filter (\<lambda>a. mem (of_nat a) = type) (fst (madt_walk mem stop current))
      in if index < length ms then Inr (ms ! index) else if snd (madt_walk mem stop current) then Inl Hang else Inr 0)"
proof (induction mem stop current arbitrary: index rule: madt_walk.induct)
  case (1 mem stop current)
  show ?case
  proof (cases "current < stop \<and> mem (of_nat current + 1) \<noteq> 0")
    case True
    then have "unat (mem (of_nat current + 1)) \<noteq> 0" by (simp add: unat_eq_0)
    note IH = 1(1) [OF conjunct1 [OF True] refl this]
    show ?thesis using True
      by (cases index) (simp_all add: find_entry_turn(3) madt_walk_turn(3) IH Let_def)
  next
    case False
    then show ?thesis by (cases "current < stop") (simp_all add: find_entry_turn madt_walk_turn)
  qed
qed

section \<open>An example\<close>

text \<open>
  A root pointer of revision 0 at \<open>0x1000\<close>, an RSDT at \<open>0x2000\<close> that lists a FADT at \<open>0x3000\<close> and a MADT at \<open>0x4000\<close>; the MADT has one
  interrupt controller and one interrupt override.
\<close>

definition example_rsdp :: "u8 list" where
  "example_rsdp = [0, 0, 0, 0, 0, 0, 0, 0, 0, 0, 0, 0, 0, 0, 0, 0, 0, 32, 0, 0]"

definition example_rsdt :: "u8 list" where
  "example_rsdt = [82, 83, 68, 84, 44, 0, 0, 0, 1, 38, 0, 0, 0, 0, 0, 0, 0, 0, 0, 0, 0, 0, 0, 0, 0, 0, 0, 0, 0, 0, 0, 0, 0, 0, 0, 0, 0, 48, 0, 0, 0, 64, 0, 0]"

definition example_fadt :: "u8 list" where
  "example_fadt = [70, 65, 67, 80, 44, 0, 0, 0, 0, 0, 0, 0, 0, 0, 0, 0, 0, 0, 0, 0, 0, 0, 0, 0, 0, 0, 0, 0, 0, 0, 0, 0, 0, 0, 0, 0, 0, 0, 0, 0, 0, 80, 0, 0, 0, 0, 0, 0, 178, 0, 0, 0, 160, 0, 0, 0, 0, 0, 0, 0, 0, 0, 0, 0, 4, 4, 0, 0]"

definition example_madt :: "u8 list" where
  "example_madt = [65, 80, 73, 67, 66, 0, 0, 0, 0, 0, 0, 0, 0, 0, 0, 0, 0, 0, 0, 0, 0, 0, 0, 0, 0, 0, 0, 0, 0, 0, 0, 0, 0, 0, 0, 0, 0, 0, 0, 0, 0, 0, 0, 0, 1, 12, 7, 0, 0, 0, 192, 254, 0, 0, 0, 0, 2, 10, 0, 0, 2, 0, 0, 0, 0, 0]"

definition at :: "u64 \<Rightarrow> u8 list \<Rightarrow> bytes \<Rightarrow> bytes" where
  "at base bs mem p = (if unat (p - base) < length bs then bs ! unat (p - base) else mem p)"

definition example_mem :: bytes where
  "example_mem = at 0x1000 example_rsdp (at 0x2000 example_rsdt (at 0x3000 example_fadt (at 0x4000 example_madt (\<lambda>_. 0))))"

definition example_acpi :: ACPI where
  "example_acpi = \<lparr>acpi_rsdp = 0x1000, acpi_rsdt = 0x2000, acpi_xsdp = 0, acpi_xsdt = 0, acpi_fadt = 0x3000, acpi_dsdt = 0x5000\<rparr>"

lemmas example_bytes = example_mem_def at_def example_rsdp_def example_rsdt_def example_fadt_def example_madt_def rd16_def rd32_def

lemma example_facts:
  "rsdp_revision example_mem 0x1000 = 0" "RSDTAddress example_mem 0x1000 = 0x2000"
  "sdt_length example_mem 0x2000 = 44" "sdt_length example_mem 0x3000 = 44" "fadt_dsdt example_mem 0x3000 = 0x5000"
  "rsdt_pointer example_mem 0x2000 0 = 0x3000" "rsdt_pointer example_mem 0x2000 1 = 0x4000"
  by (simp_all add: example_bytes rsdp_revision_def RSDTAddress_def sdt_length_def fadt_dsdt_def rsdt_pointer_def)

lemma example_signatures: "table_sig example_mem 0x3000 = ''FACP''" "table_sig example_mem 0x4000 = ''APIC''"
  by (simp_all add: table_sig_def example_bytes upt_rec char_of_def bit_0)

lemma example_root: "root_tables example_mem 0 False 0x2000 = [0x3000, 0x4000]"
proof -
  have "root_entries example_mem False 0x2000 = 2" by (simp add: root_entries_def example_facts sizeof_SDTHeader_def)
  moreover have "[0..<2] = [0, 1 :: nat]" by (simp add: upt_rec)
  ultimately show ?thesis by (simp only: root_tables_def root_pointer_def example_facts list.map if_False) simp
qed

text \<open>The byte sum of a region that was filled from a list.\<close>

lemma checksum_at: "length bs < 2 ^ 64 \<Longrightarrow> checksum_ok (at base bs mem) base (length bs) \<longleftrightarrow> sum_list (map unat bs) mod 256 = 0"
proof -
  assume "length bs < 2 ^ 64"
  then have "(\<Sum>k<length bs. unat (at base bs mem (base + of_nat k))) = (\<Sum>k<length bs. unat (bs ! k))"
    by (intro sum.cong) (auto simp: at_def)
  then show ?thesis by (simp add: checksum_ok_def sum_list_sum_nth atLeast0LessThan)
qed

lemma example_rsdt_sum: "length example_rsdt = 44" "sum_list (map unat example_rsdt) = 512"
  by (simp_all add: example_rsdt_def)

lemma example_checksum: "ValidateSDT example_mem 0x2000"
proof -
  let ?m = "at 0x2000 example_rsdt (at 0x3000 example_fadt (at 0x4000 example_madt (\<lambda>_. 0)))"
  have "example_mem (0x2000 + of_nat k) = ?m (0x2000 + of_nat k)" if "k < 44" for k
  proof -
    have "unat (0x1000 + of_nat k :: u64) = 0x1000 + k" using that by (simp add: unat_word_ariths unat_of_nat)
    then show ?thesis by (simp add: example_mem_def at_def [of "0x1000"] example_rsdp_def)
  qed
  then have "checksum_ok example_mem 0x2000 44 \<longleftrightarrow> checksum_ok ?m 0x2000 44" by (simp add: checksum_ok_def)
  also have "\<dots>" using checksum_at [of example_rsdt "0x2000" "at 0x3000 example_fadt (at 0x4000 example_madt (\<lambda>_. 0))"]
    by (simp only: example_rsdt_sum) simp
  finally show ?thesis by (simp add: Validate_checksum example_facts sizeof_SDTHeader_def)
qed

lemma GetTable_root:
  assumes "no_nul sig" and "sig \<notin> {''DSDT'', ''FACP'', ''RSDT'', ''XSDT''}" and "acpi_rsdp s \<noteq> 0"
    and "root = (if rsdp_revision mem (acpi_rsdp s) > 0 then acpi_xsdt s else acpi_rsdt s)" and "root \<noteq> 0"
  shows "GetTable mem hh (lit sig) index s =
    Inr (nth_or_null (filter (\<lambda>t. table_sig mem t = sig) (root_tables mem hh (rsdp_revision mem (acpi_rsdp s) > 0) root)) index)"
proof -
  have "sv_eq (lit sig) (lit t) = Inr (sig = t)" for t using sv_eq_text [of "lit sig" "lit t"] assms(1) by simp
  then show ?thesis
    using assms(2-5) by (simp add: GetTable_def find_table_filter [OF assms(1)] root_tables_def Let_def)
qed

lemma example_madt_table: "GetTable example_mem 0 (lit ''APIC'') 0 example_acpi = Inr 0x4000"
proof -
  have "no_nul ''APIC''" "''APIC'' \<notin> {''DSDT'', ''FACP'', ''RSDT'', ''XSDT''}" by (simp_all add: no_nul_def)
  moreover have "acpi_rsdp example_acpi \<noteq> 0" "acpi_rsdp example_acpi = 0x1000" "acpi_rsdt example_acpi = 0x2000"
    by (simp_all add: example_acpi_def)
  moreover have "(0x2000 :: u64) = (if rsdp_revision example_mem (acpi_rsdp example_acpi) > 0 then acpi_xsdt example_acpi else acpi_rsdt example_acpi)"
    by (simp add: example_acpi_def example_facts)
  ultimately have "GetTable example_mem 0 (lit ''APIC'') i example_acpi =
      Inr (nth_or_null (filter (\<lambda>t. table_sig example_mem t = ''APIC'') (root_tables example_mem 0 False 0x2000)) i)" for i
    using GetTable_root [where s = example_acpi and root = "0x2000" and mem = example_mem and hh = 0 and sig = "''APIC''" and index = i]
    by (simp add: example_facts(1))
  then show ?thesis by (simp add: example_root example_signatures nth_or_null_def)
qed

lemma example_walk: "madt_walk example_mem (madt_stop example_mem 0x4000) (unat (0x4000 :: u64) + sizeof_MADT) = ([0x402C, 0x4038], False)"
proof -
  have "madt_stop example_mem 0x4000 = 0x4042" "unat (0x4000 :: u64) + sizeof_MADT = 0x402C"
    by (simp_all add: madt_stop_def sdt_length_def sizeof_MADT_def example_bytes)
  moreover have "madt_walk example_mem 0x4042 0x4042 = ([], False)" by (simp add: madt_walk_turn(1))
  then have "madt_walk example_mem 0x4042 0x4038 = ([0x4038], False)" by (subst madt_walk.simps) (simp add: example_bytes)
  then have "madt_walk example_mem 0x4042 0x402C = ([0x402C, 0x4038], False)" by (subst madt_walk.simps) (simp add: example_bytes)
  ultimately show ?thesis by (simp only:)
qed

section \<open>Properties\<close>

text \<open>
  C33. The two walks over the interrupt controller table agree, for every content of memory. Both visit the same entries, which lie inside
  the table and in ascending order. The count is the number of entries of the type, and the entry of index \<open>i\<close>
  is the \<open>i\<close>-th of them, so that every index below the count is found and the null pointer is returned exactly
  from the count on; unless an entry of length zero is met: then the count never returns, and the search
  returns only for the entries up to that one.
\<close>

theorem MADT_walks_agree:
  "let (es, hung) = madt_walk mem (madt_stop mem madt) (unat madt + sizeof_MADT);
       ms = filter (\<lambda>a. mem (of_nat a) = madt_code type) es
   in sorted_wrt (<) es \<and> set es \<subseteq> {unat madt + sizeof_MADT..<madt_stop mem madt} \<and>
      FindMADTEntryCount mem madt type = (if madt = 0 then Inl NullDeref else if hung then Inl Hang else Inr (length ms)) \<and>
      FindMADTEntry mem madt type index =
        (if madt = 0 then Inl NullDeref else if index < length ms then Inr (ms ! index) else if hung then Inl Hang else Inr 0)"
  using madt_walk_range [of mem "madt_stop mem madt" "unat madt + sizeof_MADT"]
  by (auto simp: FindMADTEntryCount_def FindMADTEntry_def count_entries_walk find_entry_walk Let_def case_prod_beta)

text \<open>
  C34. Looking up a table. For a signature other than the four special ones, \<^verbatim>\<open>GetTable\<close> returns the table number \<open>index\<close> among
  the tables with that signature in the order of the root table, or null when there are not so many; the
  root table is the XSDT or the RSDT as the revision says, and its slots are 64 or 32 bits wide.
\<close>

theorem GetTable_nth:
  assumes "no_nul sig" and "sig \<notin> {''DSDT'', ''FACP'', ''RSDT'', ''XSDT''}" and "acpi_rsdp s \<noteq> 0"
    and "root = (if rsdp_revision mem (acpi_rsdp s) > 0 then acpi_xsdt s else acpi_rsdt s)" and "root \<noteq> 0"
  shows "GetTable mem hh (lit sig) index s =
    Inr (nth_or_null (filter (\<lambda>t. table_sig mem t = sig) (root_tables mem hh (rsdp_revision mem (acpi_rsdp s) > 0) root)) index)"
  using assms by (rule GetTable_root)

theorem GetTable_nth_witness:
  "GetTable example_mem 0 (lit ''APIC'') 0 example_acpi = Inr 0x4000 \<and> GetTable example_mem 0 (lit ''APIC'') 1 example_acpi = Inr 0"
proof -
  have "no_nul ''APIC''" "''APIC'' \<notin> {''DSDT'', ''FACP'', ''RSDT'', ''XSDT''}" by (simp_all add: no_nul_def)
  moreover have "acpi_rsdp example_acpi \<noteq> 0" "acpi_rsdp example_acpi = 0x1000" "acpi_rsdt example_acpi = 0x2000"
    by (simp_all add: example_acpi_def)
  moreover have "(0x2000 :: u64) = (if rsdp_revision example_mem (acpi_rsdp example_acpi) > 0 then acpi_xsdt example_acpi else acpi_rsdt example_acpi)"
    by (simp add: example_acpi_def example_facts)
  ultimately have "GetTable example_mem 0 (lit ''APIC'') i example_acpi =
      Inr (nth_or_null (filter (\<lambda>t. table_sig example_mem t = ''APIC'') (root_tables example_mem 0 False 0x2000)) i)" for i
    using GetTable_nth [where s = example_acpi and root = "0x2000" and mem = example_mem and hh = 0 and sig = "''APIC''" and index = i]
    by (simp add: example_facts(1))
  then show ?thesis by (simp add: example_root example_signatures nth_or_null_def)
qed

section \<open>Initialisation\<close>

definition root_sdt :: "bytes \<Rightarrow> u64 \<Rightarrow> u64 \<Rightarrow> u64" where
  "root_sdt mem hh rsdp = (if rsdp_revision mem rsdp > 0 then XSDTAddress mem rsdp else ucast (RSDTAddress mem rsdp)) + hh"

definition first_fadt :: "bytes \<Rightarrow> u64 \<Rightarrow> u64 \<Rightarrow> u64" where
  "first_fadt mem hh rsdp =
     nth_or_null (filter (\<lambda>t. table_sig mem t = ''FACP'') (root_tables mem hh (rsdp_revision mem rsdp > 0) (root_sdt mem hh rsdp))) 0"

definition dsdt_of :: "bytes \<Rightarrow> u64 \<Rightarrow> u64" where
  "dsdt_of mem fadt = (if unat (sdt_length mem fadt) \<ge> 148 \<and> fadt_xDsdt mem fadt \<noteq> 0 then fadt_xDsdt mem fadt else ucast (fadt_dsdt mem fadt))"

text \<open>Tables the kernel accepts.\<close>

definition tables_ok :: "bytes \<Rightarrow> u64 \<Rightarrow> bool \<Rightarrow> u64 \<Rightarrow> bool" where
  "tables_ok mem hh debug rsdp \<longleftrightarrow>
     rsdp \<noteq> 0 \<and> (\<not> debug \<or> rsdp_revision mem rsdp < 3) \<and> (rsdp_revision mem rsdp = 0 \<or> ValidateXSDP mem rsdp) \<and>
     ValidateSDT mem (root_sdt mem hh rsdp) \<and> first_fadt mem hh rsdp \<noteq> 0 \<and> dsdt_of mem (first_fadt mem hh rsdp) \<noteq> 0"

text \<open>A device that reports ACPI mode when it is asked often enough.\<close>

definition enables :: "port_device \<Rightarrow> bool" where
  "enables dev \<longleftrightarrow> (\<forall>port tr. \<exists>n. fst (sci_enabled dev port (tr @ replicate n (In16 port))))"

interpretation sci: status_poll "sci_enabled dev port" "In16 port" for dev port
  by unfold_locales (simp add: sci_enabled_def inw_def)

lemma WriteByteCommand_enables:
  fixes mem :: bytes and s :: ACPI
  assumes "enables dev"
  defines "pm1a \<equiv> ucast (PM1aControlBlock mem (acpi_fadt s))"
  shows "\<exists>pre. WriteByteCommand dev mem command s tr = Some (pre @ [In16 pm1a]) \<and> fst (sci_enabled dev pm1a pre) \<and>
    (pre = tr \<or> (\<exists>n. pre = tr @ [In16 pm1a, Out8 (ucast (SMICommandPort mem (acpi_fadt s))) command] @ replicate n (In16 pm1a)))"
proof (cases "fst (sci_enabled dev pm1a tr)")
  case True
  then show ?thesis using sci.poll_reads [of dev pm1a tr]
    by (intro exI [of _ tr]) (simp add: WriteByteCommand_def pm1a_def Let_def case_prod_beta)
next
  case False
  let ?tr = "tr @ [In16 pm1a, Out8 (ucast (SMICommandPort mem (acpi_fadt s))) command]"
  obtain n where "fst (sci_enabled dev pm1a (?tr @ replicate n (In16 pm1a)))" using assms(1) unfolding enables_def by blast
  from sci.wait_returns [OF this] obtain m where
    "wait_until (sci_enabled dev pm1a) ?tr = Some (?tr @ replicate (Suc m) (In16 pm1a))"
    "fst (sci_enabled dev pm1a (?tr @ replicate m (In16 pm1a)))" by blast
  then show ?thesis using False sci.poll_reads [of dev pm1a tr]
    by (intro exI [of _ "?tr @ replicate m (In16 pm1a)"])
      (auto simp: WriteByteCommand_def pm1a_def [symmetric] Let_def case_prod_beta outb_def replicate_append_same)
qed

lemma FindFADT_first:
  "FindFADT mem hh (root_sdt mem hh (acpi_rsdp s)) s = Inr (first_fadt mem hh (acpi_rsdp s))"
  by (simp add: FindFADT_def first_fadt_def root_tables_def find_fadt_filter Let_def)

text \<open>The object just before the switch to ACPI mode, and initialisation as a chain of checks.\<close>

definition acpi_found :: "bytes \<Rightarrow> u64 \<Rightarrow> u64 \<Rightarrow> ACPI \<Rightarrow> ACPI" where
  "acpi_found mem hh rsdp s =
     (let sdt = root_sdt mem hh rsdp; fadt = first_fadt mem hh rsdp;
          s3 = (if rsdp_revision mem rsdp > 0 then s\<lparr>acpi_rsdp := rsdp, acpi_xsdp := rsdp, acpi_xsdt := sdt\<rparr>
                else s\<lparr>acpi_rsdp := rsdp, acpi_rsdt := sdt\<rparr>)
      in s3\<lparr>acpi_fadt := fadt, acpi_dsdt := dsdt_of mem fadt + hh\<rparr>)"

lemma ACPI_Initialize_chain:
  "ACPI_Initialize dev mem hh debug (Some rsdp) (s, tr) =
    (if rsdp = 0 then Some (Inl NullDeref)
     else if debug \<and> rsdp_revision mem rsdp \<ge> 3 then Some (Inl OutOfBounds)
     else if rsdp_revision mem rsdp > 0 \<and> \<not> ValidateXSDP mem rsdp then Some (Inl (Panic ''Invalid XSDP checksum, cannot continue!''))
     else if rsdp_revision mem rsdp = 0 \<and> \<not> ValidateSDT mem (root_sdt mem hh rsdp)
     then Some (Inl (Panic ''Invalid RSDT checksum, cannot continue!''))
     else if \<not> ValidateSDT mem (root_sdt mem hh rsdp) then Some (Inl (Panic ''Failed to verify SDT''))
     else if first_fadt mem hh rsdp = 0 then Some (Inl (Panic ''Failed to find FADT''))
     else if dsdt_of mem (first_fadt mem hh rsdp) = 0 then Some (Inl (Panic ''Failed to find DSDT''))
     else map_option (\<lambda>tr'. Inr (acpi_found mem hh rsdp s, tr'))
            (WriteByteCommand dev mem (acpiEnable mem (first_fadt mem hh rsdp)) (acpi_found mem hh rsdp s) tr))"
proof -
  let ?sdt = "root_sdt mem hh rsdp"
  define s3 where "s3 = (if rsdp_revision mem rsdp > 0 then s\<lparr>acpi_rsdp := rsdp, acpi_xsdp := rsdp, acpi_xsdt := ?sdt\<rparr>
      else s\<lparr>acpi_rsdp := rsdp, acpi_rsdt := ?sdt\<rparr>)"
  have "acpi_rsdp s3 = rsdp" by (simp add: s3_def)
  then have "FindFADT mem hh ?sdt s3 = Inr (first_fadt mem hh rsdp)" using FindFADT_first [of mem hh s3] by simp
  then show ?thesis
    by (auto simp: ACPI_Initialize_def acpi_found_def Let_def s3_def root_sdt_def dsdt_of_def word_greater_zero_iff split: option.splits)
qed

lemma acpi_found_fields:
  "acpi_rsdp (acpi_found mem hh rsdp s) = rsdp" "acpi_fadt (acpi_found mem hh rsdp s) = first_fadt mem hh rsdp"
  "acpi_dsdt (acpi_found mem hh rsdp s) = dsdt_of mem (first_fadt mem hh rsdp) + hh"
  "(if rsdp_revision mem rsdp > 0 then acpi_xsdt (acpi_found mem hh rsdp s) else acpi_rsdt (acpi_found mem hh rsdp s)) = root_sdt mem hh rsdp"
  by (simp_all add: acpi_found_def Let_def)

lemma ACPI_Initialize_found:
  assumes "enables dev" and "tables_ok mem hh debug rsdp"
  shows "\<exists>pre. ACPI_Initialize dev mem hh debug (Some rsdp) (s, tr) =
       Some (Inr (acpi_found mem hh rsdp s, pre @ [In16 (ucast (PM1aControlBlock mem (first_fadt mem hh rsdp)))])) \<and>
     fst (sci_enabled dev (ucast (PM1aControlBlock mem (first_fadt mem hh rsdp))) pre)"
proof -
  let ?s = "acpi_found mem hh rsdp s"
  obtain pre where pre: "WriteByteCommand dev mem (acpiEnable mem (first_fadt mem hh rsdp)) ?s tr =
      Some (pre @ [In16 (ucast (PM1aControlBlock mem (acpi_fadt ?s)))])"
    "fst (sci_enabled dev (ucast (PM1aControlBlock mem (acpi_fadt ?s))) pre)"
    using WriteByteCommand_enables [OF assms(1), where mem = mem and s = "?s"] by blast
  then show ?thesis unfolding ACPI_Initialize_chain using assms(2) by (auto simp: tables_ok_def word_greater_zero_iff acpi_found_fields)
qed

lemma GetTable_found:
  assumes "tables_ok mem hh debug rsdp" and "no_nul sig" and "sig \<notin> {''DSDT'', ''FACP'', ''RSDT'', ''XSDT''}"
  shows "GetTable mem hh (lit sig) index (acpi_found mem hh rsdp s) =
    Inr (nth_or_null (filter (\<lambda>t. table_sig mem t = sig) (root_tables mem hh (rsdp_revision mem rsdp > 0) (root_sdt mem hh rsdp))) index)"
proof -
  have "rsdp \<noteq> 0" "root_sdt mem hh rsdp \<noteq> 0" using assms(1) by (auto simp: tables_ok_def Validate_checksum)
  then show ?thesis
    using GetTable_root [OF assms(2,3), of "acpi_found mem hh rsdp s" "root_sdt mem hh rsdp" mem hh index] acpi_found_fields by simp
qed


text \<open>A chip set that reports ACPI mode as soon as the enable command was written.\<close>

definition example_chipset :: port_device where
  "example_chipset tr port = (if length tr \<ge> 2 then 1 else 0)"

lemma example_enables: "enables example_chipset"
proof -
  have "fst (sci_enabled example_chipset port (tr @ replicate 2 (In16 port)))" for port tr
    by (simp add: sci_enabled_def inw_def example_chipset_def)
  then show ?thesis unfolding enables_def by blast
qed

lemma example_tables:
  "root_sdt example_mem 0 0x1000 = 0x2000" "first_fadt example_mem 0 0x1000 = 0x3000" "dsdt_of example_mem 0x3000 = 0x5000"
  "tables_ok example_mem 0 True 0x1000"
proof -
  show sdt: "root_sdt example_mem 0 0x1000 = 0x2000" by (simp add: root_sdt_def example_facts)
  then show fadt: "first_fadt example_mem 0 0x1000 = 0x3000" by (simp add: first_fadt_def example_facts example_root example_signatures)
  show dsdt: "dsdt_of example_mem 0x3000 = 0x5000" by (simp add: dsdt_of_def example_facts)
  show "tables_ok example_mem 0 True 0x1000" by (simp add: tables_ok_def sdt fadt dsdt example_checksum example_facts)
qed


end
