(* ===== verification/IO_APIC.thy ===== *)
theory IO_APIC
  imports Local_APIC ACPI_Tables
begin

text \<open>
  The interrupt routers (\<^verbatim>\<open>Interrupts/IOAPIC.cpp\<close>, \<^verbatim>\<open>Interrupts/IOAPIC.h\<close>): encoding of redirection entries, the indirect
  register access of one controller, its redirection table, and the manager that reads the firmware's description of the
  controllers and of the legacy interrupt lines.

  A controller's registers are reached through a selector and a window. The device keeps what is written;
  the registers as the hardware starts with them are a parameter of the set-up.
\<close>

unbundle bit_operations_syntax

section \<open>Redirection entries\<close>

datatype DestinationMode = Physical | Logical
datatype Polarity = ActiveHigh | ActiveLow

fun destmode_code :: "DestinationMode \<Rightarrow> u8" where
  "destmode_code Physical = 0" | "destmode_code Logical = 1"

fun polarity_code :: "Polarity \<Rightarrow> u8" where
  "polarity_code ActiveHigh = 0" | "polarity_code ActiveLow = 1"

record RedirectionEntry =
  re_vector :: u8
  deliveryMode :: DeliveryMode
  destinationMode :: DestinationMode
  polarity :: Polarity
  triggerMode :: TriggerMode
  masked :: bool
  destination :: u8

definition Pack :: "RedirectionEntry \<Rightarrow> u64" where
  "Pack e =
     (let entry = ucast (re_vector e);
          entry = entry OR push_bit 8 (ucast (delivery_code (deliveryMode e)));
          entry = entry OR push_bit 11 (ucast (destmode_code (destinationMode e)));
          entry = entry OR push_bit 13 (ucast (polarity_code (polarity e)));
          entry = entry OR push_bit 15 (ucast (trigger_code (triggerMode e)));
          entry = entry OR (if masked e then push_bit 16 1 else 0)
      in entry OR push_bit 56 (ucast (destination e)))"

definition ApplyMpsInitFlags :: "RedirectionEntry \<Rightarrow> u16 \<Rightarrow> RedirectionEntry" where
  "ApplyMpsInitFlags entry flags =
     (let pol = flags AND 0x3; trig = drop_bit 2 flags AND 0x3
      in entry\<lparr>polarity := (if pol = 3 then ActiveLow else ActiveHigh), triggerMode := (if trig = 3 then Level else Edge)\<rparr>)"

section \<open>One controller\<close>

definition VER :: u32 where "VER = 0x01"
definition RedirectionTableBase :: u32 where "RedirectionTableBase = 0x10"
definition Masked :: u64 where "Masked = push_bit 16 1"

record IOAPIC =
  io_mmioBase :: u64
  gsiBase :: u32
  ioApicId :: u8
  io_version :: u16
  maxRedirectionEntries :: u32
  io_select :: u32
  io_regs :: "u32 \<Rightarrow> u32"
  io_writes :: "(u32 \<times> u32) list"

definition IOAPIC_ReadRegister :: "u32 \<Rightarrow> IOAPIC \<Rightarrow> u32 \<times> IOAPIC" where
  "IOAPIC_ReadRegister reg s = (let s1 = s\<lparr>io_select := reg AND 0xFF\<rparr> in (io_regs s1 (io_select s1), s1))"

definition IOAPIC_WriteRegister :: "u32 \<Rightarrow> u32 \<Rightarrow> IOAPIC \<Rightarrow> IOAPIC" where
  "IOAPIC_WriteRegister reg v s =
     (let s1 = s\<lparr>io_select := reg AND 0xFF\<rparr>
      in s1\<lparr>io_regs := (io_regs s1)(io_select s1 := v), io_writes := io_writes s1 @ [(io_select s1, v)]\<rparr>)"

text \<open>The register numbers are computed in 32 bits and kept in eight.\<close>

definition SetRedirectionEntryInternal :: "u32 \<Rightarrow> u64 \<Rightarrow> IOAPIC \<Rightarrow> IOAPIC" where
  "SetRedirectionEntryInternal index entry s =
     (if index \<ge> maxRedirectionEntries s then s
      else let regLow = ucast (RedirectionTableBase + index * 2) :: u8;
               regHigh = regLow + 1;
               s1 = IOAPIC_WriteRegister (ucast regHigh) (ucast (drop_bit 32 entry AND 0xFFFFFFFF)) s
           in IOAPIC_WriteRegister (ucast regLow) (ucast (entry AND 0xFFFFFFFF)) s1)"

definition HasGSI :: "u32 \<Rightarrow> IOAPIC \<Rightarrow> bool" where
  "HasGSI gsi s \<longleftrightarrow> gsi \<ge> gsiBase s \<and> gsi < gsiBase s + maxRedirectionEntries s"

definition SetRedirectionEntry :: "u32 \<Rightarrow> u64 \<Rightarrow> IOAPIC \<Rightarrow> IOAPIC" where
  "SetRedirectionEntry gsi entry s =
     (if \<not> HasGSI gsi s then s else SetRedirectionEntryInternal (gsi - gsiBase s) entry s)"

text \<open>The overload that takes the structure.\<close>

definition SetRedirectionEntryPacked :: "u32 \<Rightarrow> RedirectionEntry \<Rightarrow> IOAPIC \<Rightarrow> IOAPIC" where
  "SetRedirectionEntryPacked gsi entry s = SetRedirectionEntry gsi (Pack entry) s"

definition IOAPIC_Initialize :: "u64 \<Rightarrow> u32 \<Rightarrow> u8 \<Rightarrow> IOAPIC \<Rightarrow> fault + IOAPIC" where
  "IOAPIC_Initialize ioApicAddr base apicId s0 =
     (let s = s0\<lparr>io_mmioBase := ioApicAddr, gsiBase := base, ioApicId := apicId\<rparr>
      in if io_mmioBase s = 0 then Inl (Panic ''MMIO Base address is null'')
         else let (versionReg, s1) = IOAPIC_ReadRegister VER s;
                  s2 = s1\<lparr>io_version := ucast (versionReg AND 0xFF),
                          maxRedirectionEntries := (drop_bit 16 versionReg AND 0xFF) + 1\<rparr>
              in Inr (fold (\<lambda>i. SetRedirectionEntryInternal (of_nat i) Masked) [0..<unat (maxRedirectionEntries s2)] s2))"

section \<open>The redirection table\<close>

text \<open>What the table says about an input, read back from its two registers.\<close>

definition redirection :: "IOAPIC \<Rightarrow> nat \<Rightarrow> u64" where
  "redirection s i = push_bit 32 (ucast (io_regs s (of_nat (0x11 + 2 * i)))) OR ucast (io_regs s (of_nat (0x10 + 2 * i)))"

text \<open>
  The register space has room for 120 entries, from register 0x10 to 0xFF. A controller that claims more has entries whose register
  number wraps around.
\<close>

definition io_ok :: "IOAPIC \<Rightarrow> bool" where
  "io_ok s \<longleftrightarrow> unat (maxRedirectionEntries s) \<le> 120"

lemma reg_number:
  assumes "i < 120"
  shows "(ucast (ucast (RedirectionTableBase + of_nat i * 2) :: u8) :: u32) = of_nat (0x10 + 2 * i)"
    and "(ucast ((ucast (RedirectionTableBase + of_nat i * 2) :: u8) + 1) :: u32) = of_nat (0x11 + 2 * i)"
proof -
  have r: "RedirectionTableBase + of_nat i * 2 = (of_nat (0x10 + 2 * i) :: u32)" by (simp add: RedirectionTableBase_def)
  have u: "(ucast (of_nat n :: u32) :: u8) = of_nat n" if "n < 256" for n
    using that by (simp add: unsigned_of_nat take_bit_nat_eq_self)
  have v: "(ucast (of_nat n :: u8) :: u32) = of_nat n" if "n < 256" for n
    using that by (simp add: unsigned_of_nat take_bit_nat_eq_self)
  show "(ucast (ucast (RedirectionTableBase + of_nat i * 2) :: u8) :: u32) = of_nat (0x10 + 2 * i)"
    unfolding r using assms u [of "0x10 + 2 * i"] v [of "0x10 + 2 * i"] by simp
  show "(ucast ((ucast (RedirectionTableBase + of_nat i * 2) :: u8) + 1) :: u32) = of_nat (0x11 + 2 * i)"
    unfolding r using assms u [of "0x10 + 2 * i"] v [of "0x11 + 2 * i"] by (simp add: add.commute)
qed

lemma low_byte_of_nat: "n < 256 \<Longrightarrow> (of_nat n :: u32) AND 0xFF = of_nat n"
proof -
  assume "n < 256"
  have "(0xFF :: u32) = mask 8" by (simp add: mask_eq_exp_minus_1)
  then have "(of_nat n :: u32) AND 0xFF = take_bit 8 (of_nat n)" by (simp only: take_bit_eq_mask)
  also have "\<dots> = of_nat n" using \<open>n < 256\<close> by (simp add: take_bit_of_nat take_bit_nat_eq_self)
  finally show ?thesis .
qed

lemma of_nat_u32_eq: "m < 256 \<Longrightarrow> n < 256 \<Longrightarrow> (of_nat m :: u32) = of_nat n \<longleftrightarrow> m = n"
  by (simp add: word_unat_eq_iff unat_of_nat)

lemma ucast_low_half: "(ucast (w AND 0xFFFFFFFF :: u64) :: u32) = ucast w"
proof -
  have m: "(0xFFFFFFFF :: u64) = mask 32" by (simp add: mask_eq_exp_minus_1)
  show ?thesis unfolding m by (rule bit_word_eqI) (simp add: bit_simps)
qed

text \<open>The two writes, high half first, and the table they leave.\<close>

lemma SetRedirectionEntryInternal_regs:
  assumes "io_ok s" and "i < unat (maxRedirectionEntries s)"
  shows "SetRedirectionEntryInternal (of_nat i) entry s =
    s\<lparr>io_select := of_nat (0x10 + 2 * i),
      io_regs := (io_regs s)(of_nat (0x11 + 2 * i) := ucast (drop_bit 32 entry), of_nat (0x10 + 2 * i) := ucast entry),
      io_writes := io_writes s @ [(of_nat (0x11 + 2 * i), ucast (drop_bit 32 entry)), (of_nat (0x10 + 2 * i), ucast entry)]\<rparr>"
proof -
  have i: "i < 120" using assms by (simp add: io_ok_def)
  then have "unat (of_nat i :: u32) = i" by (simp add: unat_of_nat)
  then have guard: "\<not> (of_nat i :: u32) \<ge> maxRedirectionEntries s" using assms(2) by (simp add: word_le_nat_alt)
  have r: "(of_nat (0x11 + 2 * i) :: u32) AND 0xFF = of_nat (0x11 + 2 * i)" "(of_nat (0x10 + 2 * i) :: u32) AND 0xFF = of_nat (0x10 + 2 * i)"
    by (rule low_byte_of_nat, use i in simp)+
  show ?thesis using guard
    unfolding SetRedirectionEntryInternal_def Let_def IOAPIC_WriteRegister_def reg_number [OF i] ucast_low_half r by simp
qed

lemma redirection_halves: "push_bit 32 (ucast (ucast (drop_bit 32 w) :: u32)) OR ucast (ucast w :: u32) = (w :: u64)"
  by (rule bit_halves)

lemma redirection_set:
  assumes "io_ok s" and "i < unat (maxRedirectionEntries s)" and "j < 120"
  shows "redirection (SetRedirectionEntryInternal (of_nat i) entry s) j = (if j = i then entry else redirection s j)"
proof -
  have i: "i < 120" using assms(1,2) by (simp add: io_ok_def)
  have "(of_nat a :: u32) = of_nat b \<longleftrightarrow> a = b" if "a \<in> {0x10 + 2 * i, 0x11 + 2 * i}" "b \<in> {0x10 + 2 * j, 0x11 + 2 * j}" for a b
    using that i assms(3) by (intro of_nat_u32_eq) auto
  then have "(of_nat (0x10 + 2 * j) :: u32) = of_nat (0x10 + 2 * i) \<longleftrightarrow> j = i" "(of_nat (0x11 + 2 * j) :: u32) = of_nat (0x11 + 2 * i) \<longleftrightarrow> j = i"
    "(of_nat (0x10 + 2 * j) :: u32) \<noteq> of_nat (0x11 + 2 * i)" "(of_nat (0x11 + 2 * j) :: u32) \<noteq> of_nat (0x10 + 2 * i)"
    by (force, force, metis insertCI even_add even_mult_iff even_numeral odd_numeral, metis insertCI even_add even_mult_iff even_numeral odd_numeral)
  then show ?thesis
    unfolding redirection_def SetRedirectionEntryInternal_regs [OF assms(1,2)]
    by (simp add: redirection_halves del: of_nat_add of_nat_mult)
qed

section \<open>Decoding\<close>

text \<open>The fields of a redirection entry: vector, delivery mode, logical destination, active low, level, masked, destination.\<close>

definition entry_fields :: "u64 \<Rightarrow> u8 \<times> u8 \<times> bool \<times> bool \<times> bool \<times> bool \<times> u8" where
  "entry_fields w = (ucast w, ucast (take_bit 3 (drop_bit 8 w)), bit w 11, bit w 13, bit w 15, bit w 16, ucast (drop_bit 56 w))"

definition fields_of :: "RedirectionEntry \<Rightarrow> u8 \<times> u8 \<times> bool \<times> bool \<times> bool \<times> bool \<times> u8" where
  "fields_of e = (re_vector e, delivery_code (deliveryMode e), destinationMode e = Logical, polarity e = ActiveLow,
     triggerMode e = Level, masked e, destination e)"

lemma byte_at: "k \<le> 56 \<Longrightarrow> bit (push_bit k (ucast (w :: u8)) :: u64) n \<longleftrightarrow> k \<le> n \<and> bit w (n - k)"
  using bit_imp_le_length [of w "n - k"] by (auto simp: bit_simps)

lemma mode_bits: "bit (destmode_code d) n \<longleftrightarrow> n = 0 \<and> d = Logical" "bit (polarity_code q) n \<longleftrightarrow> n = 0 \<and> q = ActiveLow"
  "bit (trigger_code t) n \<longleftrightarrow> n = 0 \<and> t = Level"
proof -
  show "bit (destmode_code d) n \<longleftrightarrow> n = 0 \<and> d = Logical" by (cases d) (simp_all add: bit_1_iff)
  show "bit (polarity_code q) n \<longleftrightarrow> n = 0 \<and> q = ActiveLow" by (cases q) (simp_all add: bit_1_iff)
  show "bit (trigger_code t) n \<longleftrightarrow> n = 0 \<and> t = Level" by (cases t) (simp_all add: bit_1_iff)
qed

lemma bit_flag: "bit (if b then push_bit k 1 else (0 :: u64)) n \<longleftrightarrow> n = k \<and> b \<and> k < 64"
  by (auto simp: bit_simps)

lemma Pack_bits:
  "bit (Pack e) n \<longleftrightarrow>
     bit (re_vector e) n \<or> 8 \<le> n \<and> bit (delivery_code (deliveryMode e)) (n - 8) \<or> n = 11 \<and> destinationMode e = Logical \<or>
     n = 13 \<and> polarity e = ActiveLow \<or> n = 15 \<and> triggerMode e = Level \<or> n = 16 \<and> masked e \<or>
     56 \<le> n \<and> bit (destination e) (n - 56)"
proof -
  have v: "bit (ucast (w :: u8) :: u64) n = bit w n" for w using byte_at [of 0 w n] by simp
  have m: "11 \<le> n \<and> bit (destmode_code d) (n - 11) \<longleftrightarrow> n = 11 \<and> d = Logical"
    "13 \<le> n \<and> bit (polarity_code q) (n - 13) \<longleftrightarrow> n = 13 \<and> q = ActiveLow"
    "15 \<le> n \<and> bit (trigger_code t) (n - 15) \<longleftrightarrow> n = 15 \<and> t = Level" for d q t
    unfolding mode_bits by auto
  show ?thesis
    unfolding Pack_def Let_def bit_or_iff bit_flag v
    by (subst byte_at, simp)+ (simp only: m disj_assoc simp_thms, simp)
qed

lemma entry_fields_Pack: "entry_fields (Pack e) = fields_of e"
proof -
  have v: "n < 8" if "bit (w :: u8) n" for w n using that bit_imp_le_length [of w n] by simp
  have "ucast (Pack e) = re_vector e" "ucast (drop_bit 56 (Pack e)) = destination e"
    by (rule bit_word_eqI, auto simp: Pack_bits bit_simps dest: code_bits(1) v)+
  moreover have "ucast (take_bit 3 (drop_bit 8 (Pack e))) = delivery_code (deliveryMode e)"
    by (rule bit_word_eqI) (auto simp: Pack_bits bit_simps dest: code_bits(1) v)
  moreover have "bit (Pack e) 11 = (destinationMode e = Logical)" "bit (Pack e) 13 = (polarity e = ActiveLow)"
    "bit (Pack e) 15 = (triggerMode e = Level)" "bit (Pack e) 16 = masked e"
    by (auto simp: Pack_bits dest: code_bits(1) v)
  ultimately show ?thesis by (simp add: entry_fields_def fields_of_def)
qed

lemma HasGSI_index:
  assumes "HasGSI gsi s"
  shows "unat (gsi - gsiBase s) < unat (maxRedirectionEntries s)"
proof -
  have le: "gsiBase s \<le> gsi" and lt: "gsi < gsiBase s + maxRedirectionEntries s" using assms by (simp_all add: HasGSI_def)
  then have "unat gsi < unat (gsiBase s) + unat (maxRedirectionEntries s)"
    by (simp add: word_less_nat_alt unat_word_ariths)
  then show ?thesis using le by (simp add: unat_sub word_le_nat_alt less_diff_conv2 add.commute)
qed

section \<open>Properties\<close>

text \<open>
  C36. Programming a redirection entry. When the controller owns the interrupt, exactly its entry of the
  redirection table becomes the packed one, every other entry stays, the fields read back are the ones asked
  for, and the half with the destination is written before the half with the mask. When it does not own the
  interrupt, also when its range would wrap around, nothing is written.
\<close>

theorem SetRedirectionEntry_refines:
  assumes "io_ok s"
  shows "let i = unat (gsi - gsiBase s); s' = SetRedirectionEntryPacked gsi e s
     in if HasGSI gsi s
        then i < unat (maxRedirectionEntries s) \<and> (\<forall>j < 120. redirection s' j = (if j = i then Pack e else redirection s j)) \<and>
             entry_fields (redirection s' i) = fields_of e \<and>
             map fst (io_writes s') = map fst (io_writes s) @ [of_nat (0x11 + 2 * i), of_nat (0x10 + 2 * i)]
        else s' = s"
proof (cases "HasGSI gsi s")
  case True
  let ?i = "unat (gsi - gsiBase s)"
  have i: "?i < unat (maxRedirectionEntries s)" by (rule HasGSI_index [OF True])
  then have "?i < 120" using assms by (simp add: io_ok_def)
  have s': "SetRedirectionEntryPacked gsi e s = SetRedirectionEntryInternal (of_nat ?i) (Pack e) s"
    using True by (simp add: SetRedirectionEntryPacked_def SetRedirectionEntry_def)
  show ?thesis
    using True i \<open>?i < 120\<close> redirection_set [OF assms i] entry_fields_Pack [of e] SetRedirectionEntryInternal_regs [OF assms i]
    unfolding Let_def s' by simp
qed (simp add: SetRedirectionEntryPacked_def SetRedirectionEntry_def Let_def)

text \<open>A controller with 24 inputs that starts at interrupt 24.\<close>

definition example_ioapic :: IOAPIC where
  "example_ioapic = \<lparr>io_mmioBase = 0xFFFFFFFF80001000, gsiBase = 24, ioApicId = 2, io_version = 0x20, maxRedirectionEntries = 24,
     io_select = 0, io_regs = (\<lambda>_. 0), io_writes = []\<rparr>"

theorem SetRedirectionEntry_refines_witness:
  "entry_fields (redirection (SetRedirectionEntryPacked 26 \<lparr>re_vector = 0x41, deliveryMode = LowestPriority, destinationMode = Physical,
       polarity = ActiveLow, triggerMode = Level, masked = False, destination = 3\<rparr> example_ioapic) 2) =
     (0x41, 1, False, True, True, False, 3)"
proof -
  have "io_ok example_ioapic" by (simp add: io_ok_def example_ioapic_def)
  moreover have g: "HasGSI 26 example_ioapic" "unat (26 - gsiBase example_ioapic) = 2"
    by (simp_all add: example_ioapic_def HasGSI_def)
  note SetRedirectionEntry_refines [OF calculation, where gsi = 26 and e = "\<lparr>re_vector = 0x41, deliveryMode = LowestPriority, destinationMode = Physical,
       polarity = ActiveLow, triggerMode = Level, masked = False, destination = 3\<rparr>"]
  then show ?thesis using g by (simp only: Let_def if_True) (simp add: fields_of_def entry_fields_Pack)
qed

text \<open>
  A controller that reports more than 120 entries: the register number of entry 120 wraps around, and programming it overwrites the
  identification register 0.
\<close>

lemma redirection_index_wraps:
  "unat (maxRedirectionEntries s) > 120 \<Longrightarrow>
   io_regs (SetRedirectionEntryInternal 120 entry s) 0 = ucast entry \<and> redirection (SetRedirectionEntryInternal 120 entry s) 100 = redirection s 100"
  by (simp add: SetRedirectionEntryInternal_def RedirectionTableBase_def IOAPIC_WriteRegister_def ucast_low_half redirection_def Let_def
      word_le_nat_alt not_le)

end
