(* ===== verification/Interrupt_Routing.thy ===== *)
theory Interrupt_Routing
  imports IO_APIC Paging_Theorems
begin

text \<open>
  The manager of the interrupt routers (\<^verbatim>\<open>IOAPICManager\<close> in \<^verbatim>\<open>Interrupts/IOAPIC.cpp\<close>). Its set-up reads the firmware's
  interrupt table, records where the sixteen legacy lines lead, maps the registers of each controller and masks all its inputs.
\<close>

unbundle bit_operations_syntax

section \<open>The manager\<close>

text \<open>
  The manager object, and what its set-up works on besides the firmware tables: paging and the ports. \<open>hw\<close> gives the registers of the
  controller at a physical address.
\<close>

definition MaxIOAPICs :: nat where "MaxIOAPICs = 16"

record IOAPICManager =
  ioApic :: "IOAPIC list"
  ioApicCount :: nat
  irqToGsi :: "(u32 \<times> u16) list"

record ioapic_env =
  io_manager :: IOAPICManager
  io_paging :: paging_sys
  io_ports :: port_trace

definition DisablePIC :: "port_trace \<Rightarrow> port_trace" where
  "DisablePIC tr = IOWait (outb 0xA1 0xFF (IOWait (outb 0x21 0xFF tr)))"

text \<open>Members of the two kinds of MADT entries.\<close>

definition iso_IRQSource :: "bytes \<Rightarrow> nat \<Rightarrow> u8" where "iso_IRQSource mem p = mem (of_nat p + 3)"
definition iso_globalSysInterrupt :: "bytes \<Rightarrow> nat \<Rightarrow> u32" where "iso_globalSysInterrupt mem p = rd32 mem (of_nat p + 4)"
definition iso_flags :: "bytes \<Rightarrow> nat \<Rightarrow> u16" where "iso_flags mem p = rd16 mem (of_nat p + 8)"
definition entry_ioApicId :: "bytes \<Rightarrow> nat \<Rightarrow> u8" where "entry_ioApicId mem p = mem (of_nat p + 2)"
definition entry_ioApicAddress :: "bytes \<Rightarrow> nat \<Rightarrow> u32" where "entry_ioApicAddress mem p = rd32 mem (of_nat p + 4)"
definition entry_gsiBase :: "bytes \<Rightarrow> nat \<Rightarrow> u32" where "entry_gsiBase mem p = rd32 mem (of_nat p + 8)"

definition default_irqs :: "(u32 \<times> u16) list" where
  "default_irqs = map (\<lambda>i. (of_nat i, 0)) [0..<16]"

definition override :: "bytes \<Rightarrow> nat \<Rightarrow> (u32 \<times> u16) list \<Rightarrow> (u32 \<times> u16) list" where
  "override mem p irqs =
     (if iso_IRQSource mem p < 16 then irqs[unat (iso_IRQSource mem p) := (iso_globalSysInterrupt mem p, iso_flags mem p)] else irqs)"

definition load_overrides :: "bytes \<Rightarrow> u64 \<Rightarrow> (u32 \<times> u16) list \<Rightarrow> fault + (u32 \<times> u16) list" where
  "load_overrides mem madt irqs =
     bindR (FindMADTEntryCount mem madt IRQSrcOverride) (\<lambda>isoCount.
       foldR (\<lambda>i irqs. bindR (FindMADTEntry mem madt IRQSrcOverride i) (\<lambda>entry.
         if entry = 0 then Inr irqs else Inr (override mem entry irqs))) [0..<isoCount] irqs)"

definition init_ioapic :: "bytes \<Rightarrow> (u32 \<Rightarrow> u32 \<Rightarrow> u32) \<Rightarrow> u64 \<Rightarrow> nat \<Rightarrow> ioapic_env \<Rightarrow> (fault + ioapic_env) option" where
  "init_ioapic mem hw madt i e =
     bindO (Some (FindMADTEntry mem madt IOAPIC_Entry i)) (\<lambda>entry.
       if entry = 0 then Some (Inr e)
       else bindO (FindAvailableVirtualAddressRangeKernel 1 (io_paging e)) (\<lambda>(mmio, stop).
            bindO (Some (MapPage (sys_pageState (io_paging e)) mmio (ucast (entry_ioApicAddress mem entry))
                          (Present OR ReadWrite OR CacheDisable) (io_paging e))) (\<lambda>p.
            bindO (Some (IOAPIC_Initialize mmio (entry_gsiBase mem entry) (entry_ioApicId mem entry)
                          ((ioApic (io_manager e) ! i)\<lparr>io_regs := hw (entry_ioApicAddress mem entry)\<rparr>))) (\<lambda>a.
              Some (Inr (e\<lparr>io_paging := p, io_manager := (io_manager e)\<lparr>ioApic := (ioApic (io_manager e))[i := a]\<rparr>\<rparr>))))))"

fun init_ioapics :: "bytes \<Rightarrow> (u32 \<Rightarrow> u32 \<Rightarrow> u32) \<Rightarrow> u64 \<Rightarrow> nat list \<Rightarrow> ioapic_env \<Rightarrow> (fault + ioapic_env) option" where
  "init_ioapics mem hw madt [] e = Some (Inr e)"
| "init_ioapics mem hw madt (i # is) e = bindO (init_ioapic mem hw madt i e) (init_ioapics mem hw madt is)"

definition IOAPICManager_Initialize ::
  "bytes \<Rightarrow> u64 \<Rightarrow> (u32 \<Rightarrow> u32 \<Rightarrow> u32) \<Rightarrow> ACPI \<Rightarrow> ioapic_env \<Rightarrow> (fault + ioapic_env) option" where
  "IOAPICManager_Initialize mem hh hw acpi e0 =
     (let e1 = e0\<lparr>io_ports := DisablePIC (io_ports e0)\<rparr>
      in bindO (Some (GetTable mem hh (lit ''APIC'') 0 acpi)) (\<lambda>madt.
         bindO (Some (load_overrides mem madt default_irqs)) (\<lambda>irqs.
         bindO (Some (FindMADTEntryCount mem madt IOAPIC_Entry)) (\<lambda>found.
           let count = (if found > MaxIOAPICs then MaxIOAPICs else found);
               e2 = e1\<lparr>io_manager := (io_manager e1)\<lparr>irqToGsi := irqs, ioApicCount := count\<rparr>\<rparr>
           in init_ioapics mem hw madt [0..<count] e2))))"

text \<open>The owner of an interrupt number, as the index of the controller; \<open>None\<close> is the null pointer.\<close>

fun owning_loop :: "u32 \<Rightarrow> IOAPIC list \<Rightarrow> nat list \<Rightarrow> nat option" where
  "owning_loop gsi apics [] = None"
| "owning_loop gsi apics (i # is) = (if HasGSI gsi (apics ! i) then Some i else owning_loop gsi apics is)"

definition GetOwningApic :: "u32 \<Rightarrow> IOAPICManager \<Rightarrow> nat option" where
  "GetOwningApic gsi s = owning_loop gsi (ioApic s) [0..<ioApicCount s]"

definition GetIRQ :: "u32 \<Rightarrow> IOAPICManager \<Rightarrow> fault + u32 \<times> u16" where
  "GetIRQ irq s = (if unat irq \<ge> length (irqToGsi s) then Inl OutOfBounds else Inr (irqToGsi s ! unat irq))"


section \<open>Masking all inputs\<close>

lemma mask_loop:
  assumes "io_ok s" and "n \<le> unat (maxRedirectionEntries s)"
  defines "t \<equiv> fold (\<lambda>i. SetRedirectionEntryInternal (of_nat i) Masked) [0..<n] s"
  shows "gsiBase t = gsiBase s \<and> ioApicId t = ioApicId s \<and> maxRedirectionEntries t = maxRedirectionEntries s \<and> (\<forall>j < n. redirection t j = Masked)"
  unfolding t_def using assms(2)
proof (induction n)
  case (Suc n)
  let ?t = "fold (\<lambda>i. SetRedirectionEntryInternal (of_nat i) Masked) [0..<n] s"
  have IH: "gsiBase ?t = gsiBase s" "ioApicId ?t = ioApicId s" "maxRedirectionEntries ?t = maxRedirectionEntries s" "\<forall>j < n. redirection ?t j = Masked"
    using Suc by simp_all
  have ok: "io_ok ?t" and n: "n < unat (maxRedirectionEntries ?t)" using assms(1) IH(3) Suc.prems by (simp_all add: io_ok_def)
  have "n < 120" using ok n by (simp add: io_ok_def)
  then have "redirection (SetRedirectionEntryInternal (of_nat n) Masked ?t) j = Masked" if "j < Suc n" for j
    using redirection_set [OF ok n, of j Masked] IH(4) that by (auto simp: less_Suc_eq)
  then show ?case using IH SetRedirectionEntryInternal_regs [OF ok n, of Masked] by simp
qed simp

text \<open>A controller after its set-up.\<close>

definition ioapic_quiet :: "u32 \<Rightarrow> u8 \<Rightarrow> IOAPIC \<Rightarrow> bool" where
  "ioapic_quiet base apicId a \<longleftrightarrow> gsiBase a = base \<and> ioApicId a = apicId \<and>
     (io_ok a \<longrightarrow> (\<forall>j < unat (maxRedirectionEntries a). redirection a j = Masked))"

lemma internal_fixes:
  "gsiBase (SetRedirectionEntryInternal i entry s) = gsiBase s" "ioApicId (SetRedirectionEntryInternal i entry s) = ioApicId s"
  "maxRedirectionEntries (SetRedirectionEntryInternal i entry s) = maxRedirectionEntries s"
  by (simp_all add: SetRedirectionEntryInternal_def IOAPIC_WriteRegister_def Let_def)

lemma fold_fixes:
  "gsiBase (fold (\<lambda>i. SetRedirectionEntryInternal (of_nat i) w) is s) = gsiBase s \<and>
   ioApicId (fold (\<lambda>i. SetRedirectionEntryInternal (of_nat i) w) is s) = ioApicId s \<and>
   maxRedirectionEntries (fold (\<lambda>i. SetRedirectionEntryInternal (of_nat i) w) is s) = maxRedirectionEntries s"
  by (induction "is" arbitrary: s) (simp_all add: internal_fixes)

lemma IOAPIC_Initialize_quiet:
  assumes "addr \<noteq> 0"
  shows "\<exists>a. IOAPIC_Initialize addr base apicId s = Inr a \<and> ioapic_quiet base apicId a"
proof -
  define s2 where "s2 = s\<lparr>io_mmioBase := addr, gsiBase := base, ioApicId := apicId, io_select := VER AND 0xFF,
     io_version := ucast (io_regs s (VER AND 0xFF) AND 0xFF), maxRedirectionEntries := (drop_bit 16 (io_regs s (VER AND 0xFF)) AND 0xFF) + 1\<rparr>"
  let ?a = "fold (\<lambda>i. SetRedirectionEntryInternal (of_nat i) Masked) [0..<unat (maxRedirectionEntries s2)] s2"
  have run: "IOAPIC_Initialize addr base apicId s = Inr ?a"
    using assms by (simp add: IOAPIC_Initialize_def IOAPIC_ReadRegister_def s2_def Let_def)
  have f: "gsiBase ?a = base" "ioApicId ?a = apicId" "maxRedirectionEntries ?a = maxRedirectionEntries s2"
    using fold_fixes [of Masked _ s2] by (simp_all add: s2_def)
  have "\<forall>j < unat (maxRedirectionEntries ?a). redirection ?a j = Masked" if "io_ok ?a"
    using mask_loop [of s2 "unat (maxRedirectionEntries s2)"] that f(3) by (simp add: io_ok_def)
  then show ?thesis using run f(1,2) unfolding ioapic_quiet_def by blast
qed

section \<open>The firmware's entries\<close>

definition madt_entries :: "bytes \<Rightarrow> u64 \<Rightarrow> MADTEntryType \<Rightarrow> nat list" where
  "madt_entries mem madt type = filter (\<lambda>a. mem (of_nat a) = madt_code type) (fst (madt_walk mem (madt_stop mem madt) (unat madt + sizeof_MADT)))"

definition madt_ok :: "bytes \<Rightarrow> u64 \<Rightarrow> bool" where
  "madt_ok mem madt \<longleftrightarrow> madt \<noteq> 0 \<and> \<not> snd (madt_walk mem (madt_stop mem madt) (unat madt + sizeof_MADT))"

lemma madt_found:
  assumes "madt_ok mem madt"
  shows "FindMADTEntryCount mem madt type = Inr (length (madt_entries mem madt type))"
    and "i < length (madt_entries mem madt type) \<Longrightarrow> FindMADTEntry mem madt type i = Inr (madt_entries mem madt type ! i)"
    and "i < length (madt_entries mem madt type) \<Longrightarrow> madt_entries mem madt type ! i \<noteq> 0"
proof -
  show "FindMADTEntryCount mem madt type = Inr (length (madt_entries mem madt type))"
    "i < length (madt_entries mem madt type) \<Longrightarrow> FindMADTEntry mem madt type i = Inr (madt_entries mem madt type ! i)"
    using assms by (simp_all add: FindMADTEntryCount_def FindMADTEntry_def count_entries_walk find_entry_walk madt_ok_def madt_entries_def Let_def)
  have "p \<noteq> 0" if "p \<in> set (madt_entries mem madt type)" for p
    using that madt_walk_range [of mem "madt_stop mem madt" "unat madt + sizeof_MADT"] by (auto simp: madt_entries_def sizeof_MADT_def)
  then show "i < length (madt_entries mem madt type) \<Longrightarrow> madt_entries mem madt type ! i \<noteq> 0" using nth_mem by blast
qed

lemma foldR_fold: "(\<And>x s. x \<in> set xs \<Longrightarrow> f x s = Inr (g x s)) \<Longrightarrow> foldR f xs s = Inr (fold g xs s)"
  by (induction xs arbitrary: s) simp_all

lemma fold_nth: "fold (\<lambda>i. g (xs ! i)) [0..<length xs] s = fold g xs s"
proof -
  have "fold g xs s = fold g (map ((!) xs) [0..<length xs]) s" by (simp only: map_nth)
  then show ?thesis by (simp add: fold_map comp_def)
qed

lemma load_overrides_fold:
  assumes "madt_ok mem madt"
  shows "load_overrides mem madt irqs = Inr (fold (override mem) (madt_entries mem madt IRQSrcOverride) irqs)"
proof -
  let ?es = "madt_entries mem madt IRQSrcOverride"
  have "foldR (\<lambda>i irqs. bindR (FindMADTEntry mem madt IRQSrcOverride i) (\<lambda>entry. if entry = 0 then Inr irqs else Inr (override mem entry irqs)))
      [0..<length ?es] irqs = Inr (fold (\<lambda>i. override mem (?es ! i)) [0..<length ?es] irqs)"
  proof (rule foldR_fold)
    fix i irqs assume "i \<in> set [0..<length ?es]"
    then have "i < length ?es" "?es ! i \<noteq> 0" using madt_found(3) [OF assms] by simp_all
    then show "bindR (FindMADTEntry mem madt IRQSrcOverride i) (\<lambda>entry. if entry = 0 then Inr irqs else Inr (override mem entry irqs)) =
        Inr (override mem (?es ! i) irqs)" by (simp add: madt_found(2) [OF assms])
  qed
  then show ?thesis by (simp add: load_overrides_def madt_found(1) [OF assms] fold_nth)
qed

text \<open>The line an override is for, and where the line leads in the end: the last override wins.\<close>

lemma fold_override:
  assumes "k < 16" and "length irqs = 16"
  shows "fold (override mem) ps irqs ! k =
    (case filter (\<lambda>p. unat (iso_IRQSource mem p) = k) ps of [] \<Rightarrow> irqs ! k
     | qs \<Rightarrow> (iso_globalSysInterrupt mem (last qs), iso_flags mem (last qs))) \<and> length (fold (override mem) ps irqs) = 16"
  using assms(2)
proof (induction ps arbitrary: irqs)
  case (Cons p ps)
  have len: "length (override mem p irqs) = 16" using Cons.prems by (simp add: override_def)
  have "override mem p irqs ! k = (if unat (iso_IRQSource mem p) = k then (iso_globalSysInterrupt mem p, iso_flags mem p) else irqs ! k)"
    using assms(1) Cons.prems by (auto simp: override_def word_less_nat_alt nth_list_update)
  then show ?case using Cons.IH [OF len] by (auto split: list.splits)
qed (use assms in simp)

section \<open>Routing\<close>

lemma owning_loop_find: "owning_loop gsi apics is = find (\<lambda>i. HasGSI gsi (apics ! i)) is"
  by (induction "is") simp_all

lemma find_upt: "find P [0..<n] = (if \<exists>i < n. P i then Some (LEAST i. i < n \<and> P i) else None)"
proof (cases "\<exists>i < n. P i")
  case True
  define k where "k = (LEAST i. i < n \<and> P i)"
  have k: "k < n \<and> P k" unfolding k_def using True by (rule LeastI_ex)
  have "\<not> P j" if "j < k" for j
  proof -
    have "\<not> (j < n \<and> P j)" using that unfolding k_def by (rule not_less_Least)
    then show ?thesis using that k by (meson less_trans)
  qed
  then have "find P [0..<n] = Some k" unfolding find_Some_iff using k by (intro exI [of _ k]) simp
  then show ?thesis using True by (simp add: k_def)
next
  case False
  then have "find P [0..<n] = None" by (simp add: find_None_iff)
  then show ?thesis using False by simp
qed

text \<open>Paging has a page for the registers of each controller that is found; \<open>p'\<close> is the state after they are mapped.\<close>

fun maps_registers :: "bytes \<Rightarrow> nat list \<Rightarrow> paging_sys \<Rightarrow> paging_sys \<Rightarrow> bool" where
  "maps_registers mem [] p p' \<longleftrightarrow> p' = p"
| "maps_registers mem (entry # es) p p' \<longleftrightarrow>
     (\<exists>mmio stop q. FindAvailableVirtualAddressRangeKernel 1 p = Some (Inr (mmio, stop)) \<and> mmio \<noteq> 0 \<and>
        MapPage (sys_pageState p) mmio (ucast (entry_ioApicAddress mem entry)) (Present OR ReadWrite OR CacheDisable) p = Inr q \<and>
        maps_registers mem es q p')"

lemma init_ioapics_quiet:
  assumes ok: "madt_ok mem madt" and "k + length es = n" and "n \<le> length (madt_entries mem madt IOAPIC_Entry)"
    and "es = take (length es) (drop k (madt_entries mem madt IOAPIC_Entry))"
    and "maps_registers mem es (io_paging e) p'" and "n \<le> length (ioApic (io_manager e))"
  defines "quiet \<equiv> \<lambda>i a. ioapic_quiet (entry_gsiBase mem (madt_entries mem madt IOAPIC_Entry ! i)) (entry_ioApicId mem (madt_entries mem madt IOAPIC_Entry ! i)) a"
  shows "\<exists>e'. init_ioapics mem hw madt [k..<n] e = Some (Inr e') \<and> io_ports e' = io_ports e \<and> io_paging e' = p' \<and>
     ioApicCount (io_manager e') = ioApicCount (io_manager e) \<and> irqToGsi (io_manager e') = irqToGsi (io_manager e) \<and>
     (\<forall>i < n. (i < k \<longrightarrow> ioApic (io_manager e') ! i = ioApic (io_manager e) ! i) \<and> (k \<le> i \<longrightarrow> quiet i (ioApic (io_manager e') ! i)))"
  using assms(2-6)
proof (induction es arbitrary: k e)
  case (Cons entry es)
  let ?es = "madt_entries mem madt IOAPIC_Entry"
  have k: "k < n" "[k..<n] = k # [Suc k..<n]" using Cons.prems(1) by (simp_all add: upt_conv_Cons)
  have entry: "entry = ?es ! k" "es = take (length es) (drop (Suc k) ?es)"
    using Cons.prems(2,3) k(1) by (simp_all add: Cons_nth_drop_Suc [symmetric])
  have nz: "entry \<noteq> 0" using madt_found(3) [OF ok, of k IOAPIC_Entry] entry(1) k(1) Cons.prems(2) by simp
  obtain mmio stop q where m: "FindAvailableVirtualAddressRangeKernel 1 (io_paging e) = Some (Inr (mmio, stop))" "mmio \<noteq> 0"
    "MapPage (sys_pageState (io_paging e)) mmio (ucast (entry_ioApicAddress mem entry)) (Present OR ReadWrite OR CacheDisable) (io_paging e) = Inr q"
    "maps_registers mem es q p'" using Cons.prems(4) by auto
  obtain a where a: "IOAPIC_Initialize mmio (entry_gsiBase mem entry) (entry_ioApicId mem entry)
      ((ioApic (io_manager e) ! k)\<lparr>io_regs := hw (entry_ioApicAddress mem entry)\<rparr>) = Inr a" "quiet k a"
    using IOAPIC_Initialize_quiet [OF m(2)] entry(1) unfolding quiet_def by blast
  let ?e = "e\<lparr>io_paging := q, io_manager := (io_manager e)\<lparr>ioApic := (ioApic (io_manager e))[k := a]\<rparr>\<rparr>"
  have "FindMADTEntry mem madt IOAPIC_Entry k = Inr entry" using madt_found(2) [OF ok] entry(1) k(1) Cons.prems(2) by simp
  then have step: "init_ioapic mem hw madt k e = Some (Inr ?e)" using nz m(1,3) a(1) by (simp add: init_ioapic_def)
  have "Suc k + length es = n" "maps_registers mem es (io_paging ?e) p'" "n \<le> length (ioApic (io_manager ?e))" using Cons.prems m(4) by simp_all
  from Cons.IH [OF this(1) Cons.prems(2) entry(2) this(2,3)] obtain e' where
    e': "init_ioapics mem hw madt [Suc k..<n] ?e = Some (Inr e')" "io_ports e' = io_ports ?e \<and> io_paging e' = p'"
      "ioApicCount (io_manager e') = ioApicCount (io_manager ?e)" "irqToGsi (io_manager e') = irqToGsi (io_manager ?e)"
      "\<forall>i < n. (i < Suc k \<longrightarrow> ioApic (io_manager e') ! i = ioApic (io_manager ?e) ! i) \<and> (Suc k \<le> i \<longrightarrow> quiet i (ioApic (io_manager e') ! i))" by blast
  have "(i < k \<longrightarrow> ioApic (io_manager e') ! i = ioApic (io_manager e) ! i) \<and> (k \<le> i \<longrightarrow> quiet i (ioApic (io_manager e') ! i))" if "i < n" for i
    using e'(5) that a(2) Cons.prems(5) k(1) by (cases "i = k") (auto simp: nth_list_update)
  then show ?case using step e'(1-4) k(2) by (intro exI [of _ e']) simp
qed simp

text \<open>What the manager holds after the set-up, from the interrupt table at \<open>madt\<close> with \<open>n\<close> controllers.\<close>

definition routed :: "bytes \<Rightarrow> u64 \<Rightarrow> nat \<Rightarrow> IOAPICManager \<Rightarrow> bool" where
  "routed mem madt n m \<longleftrightarrow>
     (\<forall>irq < 16. GetIRQ irq m = Inr
        (case filter (\<lambda>p. unat (iso_IRQSource mem p) = unat irq) (madt_entries mem madt IRQSrcOverride) of
           [] \<Rightarrow> (irq, 0) | qs \<Rightarrow> (iso_globalSysInterrupt mem (last qs), iso_flags mem (last qs)))) \<and>
     (\<forall>i < n. let p = madt_entries mem madt IOAPIC_Entry ! i in ioapic_quiet (entry_gsiBase mem p) (entry_ioApicId mem p) (ioApic m ! i)) \<and>
     (\<forall>gsi. GetOwningApic gsi m =
        (if \<exists>i < n. HasGSI gsi (ioApic m ! i) then Some (LEAST i. i < n \<and> HasGSI gsi (ioApic m ! i)) else None))"

lemma IOAPICManager_Initialize_routed:
  assumes "GetTable mem hh (lit ''APIC'') 0 acpi = Inr madt" and "madt_ok mem madt"
    and "n = min MaxIOAPICs (length (madt_entries mem madt IOAPIC_Entry))"
    and "maps_registers mem (take n (madt_entries mem madt IOAPIC_Entry)) (io_paging e) p'" and "length (ioApic (io_manager e)) = MaxIOAPICs"
  shows "\<exists>e'. IOAPICManager_Initialize mem hh hw acpi e = Some (Inr e') \<and> io_paging e' = p' \<and>
     io_ports e' = io_ports e @ [Out8 0x21 0xFF, Out8 0x80 0, Out8 0xA1 0xFF, Out8 0x80 0] \<and> routed mem madt n (io_manager e')"
proof -
  let ?es = "madt_entries mem madt IOAPIC_Entry" and ?isos = "madt_entries mem madt IRQSrcOverride"
  let ?irqs = "fold (override mem) ?isos default_irqs"
  let ?e = "e\<lparr>io_ports := DisablePIC (io_ports e), io_manager := (io_manager e)\<lparr>irqToGsi := ?irqs, ioApicCount := n\<rparr>\<rparr>"
  have n: "(if length ?es > MaxIOAPICs then MaxIOAPICs else length ?es) = n" using assms(3) by auto
  have run: "IOAPICManager_Initialize mem hh hw acpi e = init_ioapics mem hw madt [0..<n] ?e"
    using assms(1) n by (simp add: IOAPICManager_Initialize_def load_overrides_fold [OF assms(2)] madt_found(1) [OF assms(2)] Let_def)
  have "\<exists>e'. init_ioapics mem hw madt [0..<n] ?e = Some (Inr e') \<and> io_ports e' = io_ports ?e \<and> io_paging e' = p' \<and>
     ioApicCount (io_manager e') = ioApicCount (io_manager ?e) \<and> irqToGsi (io_manager e') = irqToGsi (io_manager ?e) \<and>
     (\<forall>i < n. (i < 0 \<longrightarrow> ioApic (io_manager e') ! i = ioApic (io_manager ?e) ! i) \<and>
        (0 \<le> i \<longrightarrow> ioapic_quiet (entry_gsiBase mem (?es ! i)) (entry_ioApicId mem (?es ! i)) (ioApic (io_manager e') ! i)))"
    by (rule init_ioapics_quiet [OF assms(2), where es = "take n ?es"]) (use assms(3-5) in simp_all)
  then obtain e' where e': "init_ioapics mem hw madt [0..<n] ?e = Some (Inr e')" "io_ports e' = io_ports ?e" "io_paging e' = p'"
     "ioApicCount (io_manager e') = n" "irqToGsi (io_manager e') = ?irqs"
     "\<forall>i < n. ioapic_quiet (entry_gsiBase mem (?es ! i)) (entry_ioApicId mem (?es ! i)) (ioApic (io_manager e') ! i)" by auto
  have irq: "GetIRQ irq (io_manager e') = Inr (case filter (\<lambda>p. unat (iso_IRQSource mem p) = unat irq) ?isos of
      [] \<Rightarrow> (irq, 0) | qs \<Rightarrow> (iso_globalSysInterrupt mem (last qs), iso_flags mem (last qs)))" if "irq < 16" for irq
  proof -
    have k: "unat irq < 16" using that by (simp add: word_less_nat_alt)
    have d: "length default_irqs = 16" "default_irqs ! unat irq = (irq, 0)" using k by (simp_all add: default_irqs_def)
    show ?thesis using fold_override [OF k d(1), of mem ?isos, unfolded d(2)] k e'(5) by (simp add: GetIRQ_def)
  qed
  have "io_ports e' = io_ports e @ [Out8 0x21 0xFF, Out8 0x80 0, Out8 0xA1 0xFF, Out8 0x80 0]"
    using e'(2) by (simp add: DisablePIC_def IOWait_def outb_def)
  moreover have "GetOwningApic gsi (io_manager e') = (if \<exists>i < n. HasGSI gsi (ioApic (io_manager e') ! i)
      then Some (LEAST i. i < n \<and> HasGSI gsi (ioApic (io_manager e') ! i)) else None)" for gsi
    by (simp add: GetOwningApic_def owning_loop_find find_upt e'(4))
  ultimately show ?thesis using run e'(1,3,6) irq by (auto simp: routed_def Let_def)
qed
text \<open>
  C37. The set-up of the interrupt routing. When the firmware has an interrupt table without an entry of length zero, and
  paging has a page for the registers of each controller, the set-up returns. Then both legacy controllers are
  masked; each legacy line leads where its last override in the table says, and to the interrupt of the same number without
  one; each controller of the table, up to sixteen, has its interrupt base and all its inputs masked; and
  the owner of an interrupt is the first controller whose range contains it.
\<close>

theorem IOAPICManager_routes:
  assumes "GetTable mem hh (lit ''APIC'') 0 acpi = Inr madt" and "madt_ok mem madt"
    and "n = min MaxIOAPICs (length (madt_entries mem madt IOAPIC_Entry))"
    and "maps_registers mem (take n (madt_entries mem madt IOAPIC_Entry)) (io_paging e) p'" and "length (ioApic (io_manager e)) = MaxIOAPICs"
  shows "\<exists>e' m. IOAPICManager_Initialize mem hh hw acpi e = Some (Inr e') \<and> m = io_manager e' \<and> io_paging e' = p' \<and>
     io_ports e' = io_ports e @ [Out8 0x21 0xFF, Out8 0x80 0, Out8 0xA1 0xFF, Out8 0x80 0] \<and>
     (\<forall>irq < 16. GetIRQ irq m = Inr
        (case filter (\<lambda>p. unat (iso_IRQSource mem p) = unat irq) (madt_entries mem madt IRQSrcOverride) of
           [] \<Rightarrow> (irq, 0) | qs \<Rightarrow> (iso_globalSysInterrupt mem (last qs), iso_flags mem (last qs)))) \<and>
     (\<forall>i < n. let p = madt_entries mem madt IOAPIC_Entry ! i in ioapic_quiet (entry_gsiBase mem p) (entry_ioApicId mem p) (ioApic m ! i)) \<and>
     (\<forall>gsi. GetOwningApic gsi m =
        (if \<exists>i < n. HasGSI gsi (ioApic m ! i) then Some (LEAST i. i < n \<and> HasGSI gsi (ioApic m ! i)) else None))"
  using IOAPICManager_Initialize_routed [OF assms] unfolding routed_def by blast


text \<open>A machine with one controller and one override: the timer's line 0 leads to interrupt 2.\<close>

definition example_router :: IOAPIC where
  "example_router = \<lparr>io_mmioBase = 0, gsiBase = 0, ioApicId = 0, io_version = 0, maxRedirectionEntries = 0,
     io_select = 0, io_regs = (\<lambda>_. 0), io_writes = []\<rparr>"

definition routing_env :: ioapic_env where
  "routing_env = \<lparr>io_manager = \<lparr>ioApic = replicate 16 example_router, ioApicCount = 0, irqToGsi = []\<rparr>,
     io_paging = example_paging\<lparr>sys_pageState := 0x100000\<rparr>, io_ports = []\<rparr>"

lemma example_entries:
  "madt_entries example_mem 0x4000 IOAPIC_Entry = [0x402C]" "madt_entries example_mem 0x4000 IRQSrcOverride = [0x4038]"
  unfolding madt_entries_def example_walk by (simp_all add: example_bytes)

lemma example_mappable: "\<exists>p'. maps_registers example_mem [0x402C] (io_paging routing_env) p'"
proof -
  let ?s = "example_paging\<lparr>sys_pageState := 0x100000\<rparr>" and ?va = "0xFFFFFFFF80000000 :: u64" and ?fl = "Present OR ReadWrite OR CacheDisable"
  have "\<not> IsMapped 0x100000 ?va ?s" using IsMapped_empty [of ?va] by (simp add: IsMapped_def GetPhysicalAddress_def)
  moreover have "sys_kernelState ?s = 0x100000" "sys_pageState ?s = 0x100000" by (simp_all add: example_paging_def)
  ultimately have find: "FindAvailableVirtualAddressRangeKernel 1 ?s = Some (Inr (?va, ?va + PageSize))"
    unfolding FindAvailableVirtualAddressRangeKernel_def FindAvailableVirtualAddressRange_def by (subst find_range.simps) simp
  have wf: "pt_wf ?s 0x100000" using example_paging_wf(1) by (simp add: pt_wf_def owned_def)
  have huge: "\<not> covered_by_huge ?s 0x100000 ?va" using example_paging_not_huge [of ?va] by (simp add: covered_by_huge_def)
  have "(ucast (entry_ioApicAddress example_mem 0x402C) :: u64) = 0xFEC00000" by (simp add: entry_ioApicAddress_def example_bytes)
  moreover have "\<exists>p'. MapPage 0x100000 ?va 0xFEC00000 ?fl ?s = Inr p'"
    by (rule MapPage_cases [OF wf _ _ huge, of "0xFEC00000" ?fl]) (use example_paging_wf in auto)
  ultimately show ?thesis using find by (auto simp: routing_env_def)
qed

theorem IOAPICManager_routes_witness:
  "\<exists>e'. IOAPICManager_Initialize example_mem 0 (\<lambda>_ _. 0x170011) example_acpi routing_env = Some (Inr e') \<and>
     GetIRQ 0 (io_manager e') = Inr (2, 0) \<and> GetIRQ 9 (io_manager e') = Inr (9, 0)"
proof -
  have "madt_ok example_mem 0x4000" by (simp only: madt_ok_def example_walk) simp
  moreover have "min MaxIOAPICs (length (madt_entries example_mem 0x4000 IOAPIC_Entry)) = 1" by (simp add: example_entries MaxIOAPICs_def)
  moreover obtain p' where "maps_registers example_mem (take 1 (madt_entries example_mem 0x4000 IOAPIC_Entry)) (io_paging routing_env) p'"
    using example_mappable by (auto simp: example_entries)
  moreover have "length (ioApic (io_manager routing_env)) = MaxIOAPICs" by (simp add: routing_env_def MaxIOAPICs_def)
  ultimately obtain e' where e': "IOAPICManager_Initialize example_mem 0 (\<lambda>_ _. 0x170011) example_acpi routing_env = Some (Inr e')"
    "\<forall>irq < 16. GetIRQ irq (io_manager e') = Inr (case filter (\<lambda>p. unat (iso_IRQSource example_mem p) = unat irq) (madt_entries example_mem 0x4000 IRQSrcOverride) of
         [] \<Rightarrow> (irq, 0) | qs \<Rightarrow> (iso_globalSysInterrupt example_mem (last qs), iso_flags example_mem (last qs)))"
    using IOAPICManager_routes [OF example_madt_table, of 1 routing_env p' "\<lambda>_ _. 0x170011"] by auto
  have "iso_IRQSource example_mem 0x4038 = 0" "iso_globalSysInterrupt example_mem 0x4038 = 2" "iso_flags example_mem 0x4038 = 0"
    by (simp_all add: iso_IRQSource_def iso_globalSysInterrupt_def iso_flags_def example_bytes)
  then show ?thesis using e' by (simp add: example_entries)
qed

end
