(* ===== verification/Kernel_Boot.thy ===== *)
theory Kernel_Boot
  imports Memory_Map Kernel_Window Kernel_Log Interrupt_Table Descriptors Interrupt_Routing
begin

text \<open>
  The start of the kernel (\<^verbatim>\<open>Kernel::Initialize\<close> in \<^verbatim>\<open>Kernel.cpp\<close> and \<^verbatim>\<open>kmain\<close> in \<^verbatim>\<open>main.cpp\<close>): the set-up of every component, in the order
  of the code and on one state. What the boot loader, the firmware and the hardware provide is the record \<open>boot_info\<close>.
  The log messages of the components are left out.
\<close>

unbundle bit_operations_syntax

section \<open>The machine\<close>

text \<open>The data of one CPU, the kernel object with its members and the registers, and what is given.\<close>

record CpuData =
  cpuId :: u32
  pageState :: u64
  lapic :: LAPIC

record machine =
  kdata :: kernel
  commandLineExtractor :: CommandLineExtractor
  gdt :: gdt_sys
  paging :: paging_sys
  idt :: IDT
  cpuName :: "string \<times> u8"
  acpi :: ACPI
  ioapicManager :: IOAPICManager
  sharedLapicBase :: u64
  Cpu :: "CpuData list"

record boot_info =
  port_dev :: port_device
  flanterm_fb_init :: "limine_framebuffer \<Rightarrow> u64"
  FramebufferResponse :: "limine_framebuffer list option"
  CommandLineResponse :: "string option"
  MultiProcessingResponse :: "u32 option"
  MemmapResponse :: "limine_memmap_entry list option"
  HhdmResponse :: "u64 option"
  RsdpResponse :: "u64 option"
  StackTop :: u64
  DefaultFaultHandlerTop :: u64
  gdtEntriesBase :: u64
  tssBase :: u64
  idtBase :: u64
  ISRStubs :: "u64 list"
  cpuid_of :: cpuid_fun
  probe :: simd_probe
  firmware :: bytes
  lapic_dev :: lapic_device
  ioapic_hw :: "u32 \<Rightarrow> u32 \<Rightarrow> u32"

text \<open>The index of the executing CPU in the array of CPU data.\<close>

definition GetCpuData :: "machine \<Rightarrow> fault + nat" where
  "GetCpuData m = (let i = unat (GetCpuId (gdt_core (gdt m))) in if i \<ge> length (Cpu m) then Inl OutOfBounds else Inr i)"

definition set_cpu :: "nat \<Rightarrow> (CpuData \<Rightarrow> CpuData) \<Rightarrow> machine \<Rightarrow> machine" where
  "set_cpu i f m = m\<lparr>Cpu := (Cpu m)[i := f (Cpu m ! i)]\<rparr>"

section \<open>The stages\<close>

text \<open>Output, the command line and the level of messages.\<close>

definition boot_console :: "boot_info \<Rightarrow> machine \<Rightarrow> fault + machine" where
  "boot_console b m =
     bindR (Serial_Initialize (port_dev b) (debugPort (kdata m))) (\<lambda>d.
     bindR (FB_Initialize (flanterm_fb_init b) (FramebufferResponse b) (framebufferConsole (kdata m))) (\<lambda>fb.
     bindR (CL_Initialize (CommandLineResponse b)) (\<lambda>(cl, _).
     bindR (SetLogLevel cl ((kdata m)\<lparr>debugPort := d, framebufferConsole := fb\<rparr>)) (\<lambda>k.
       Inr (m\<lparr>kdata := k, commandLineExtractor := cl\<rparr>)))))"

text \<open>The descriptor tables of the first CPU and its identifier.\<close>

definition boot_descriptors :: "boot_info \<Rightarrow> machine \<Rightarrow> fault + machine" where
  "boot_descriptors b m =
     (case MultiProcessingResponse b of
        None \<Rightarrow> Inl (Panic ''Limine MultiProcessingRequest response is null, cannot continue!'')
      | Some bsp_lapic_id \<Rightarrow>
          bindR (GDT_Initialize (gdtEntriesBase b) (tssBase b) bsp_lapic_id (StackTop b) (DefaultFaultHandlerTop b) (gdt m)) (\<lambda>g.
            let m1 = m\<lparr>gdt := g\<rparr>
            in bindR (GetCpuData m1) (\<lambda>i. Inr (set_cpu i (\<lambda>c. c\<lparr>cpuId := bsp_lapic_id\<rparr>) m1))))"

text \<open>The memory manager and the page tables; the switch to the new tables records them in the data of the CPU.\<close>

definition boot_memory :: "boot_info \<Rightarrow> machine \<Rightarrow> fault + machine" where
  "boot_memory b m =
     bindR (PMM_Initialize (MemmapResponse b) (HhdmResponse b)) (\<lambda>p.
     bindR (Paging_Initialize ((paging m)\<lparr>sys_pmm := p\<rparr>)) (\<lambda>pg.
     bindR (GetCpuData m) (\<lambda>i.
       Inr (set_cpu i (\<lambda>c. c\<lparr>pageState := sys_pageState pg\<rparr>) (m\<lparr>paging := pg\<rparr>)))))"

text \<open>The interrupt table, which switches interrupts on, and the processor.\<close>

definition boot_interrupts :: "boot_info \<Rightarrow> machine \<Rightarrow> fault + machine" where
  "boot_interrupts b m =
     bindR (IDT_Initialize (idtBase b) (ISRStubs b) (idt m)) (\<lambda>d.
       Inr (m\<lparr>idt := d, kdata := (kdata m)\<lparr>kernel_interrupts := idt_interrupts d\<rparr>\<rparr>))"

definition boot_processor :: "boot_info \<Rightarrow> machine \<Rightarrow> fault + machine" where
  "boot_processor b m =
     bindR (CPU_Initialize (cpuid_of b)) (\<lambda>n.
     bindR (InitializeCore (cpuid_of b) (probe b) (gdt_core (gdt m))) (\<lambda>c.
       Inr (m\<lparr>cpuName := n, gdt := (gdt m)\<lparr>gdt_core := c\<rparr>\<rparr>)))"

text \<open>The firmware tables, the interrupt routers and the controller of the CPU. All three use the direct map.\<close>

definition boot_acpi :: "boot_info \<Rightarrow> u64 \<Rightarrow> machine \<Rightarrow> (fault + machine) option" where
  "boot_acpi b hh m =
     bindO (ACPI_Initialize (port_dev b) (firmware b) hh (LogMessage DEBUG (kdata m)) (RsdpResponse b)
              (acpi m, ports (debugPort (kdata m)))) (\<lambda>(a, tr).
       Some (Inr (m\<lparr>acpi := a, kdata := (kdata m)\<lparr>debugPort := (debugPort (kdata m))\<lparr>ports := tr\<rparr>\<rparr>\<rparr>)))"

definition boot_routing :: "boot_info \<Rightarrow> u64 \<Rightarrow> machine \<Rightarrow> (fault + machine) option" where
  "boot_routing b hh m =
     bindO (IOAPICManager_Initialize (firmware b) hh (ioapic_hw b) (acpi m)
              \<lparr>io_manager = ioapicManager m, io_paging = paging m, io_ports = ports (debugPort (kdata m))\<rparr>) (\<lambda>e.
       Some (Inr (m\<lparr>ioapicManager := io_manager e, paging := io_paging e,
                   kdata := (kdata m)\<lparr>debugPort := (debugPort (kdata m))\<lparr>ports := io_ports e\<rparr>\<rparr>\<rparr>)))"

definition boot_lapic :: "boot_info \<Rightarrow> machine \<Rightarrow> (fault + machine) option" where
  "boot_lapic b m =
     bindO (Some (GetCpuData m)) (\<lambda>i.
     bindO (LAPIC_Initialize (lapic_dev b)
              \<lparr>env_core = gdt_core (gdt m), env_paging = paging m, SharedLapicVirtualBase = sharedLapicBase m,
               env_lapic = lapic (Cpu m ! i), env_interrupts = kernel_interrupts (kdata m)\<rparr>) (\<lambda>e.
       Some (Inr (set_cpu i (\<lambda>c. c\<lparr>lapic := env_lapic e\<rparr>)
         (m\<lparr>gdt := (gdt m)\<lparr>gdt_core := env_core e\<rparr>, paging := env_paging e, sharedLapicBase := SharedLapicVirtualBase e,
            kdata := (kdata m)\<lparr>kernel_interrupts := env_interrupts e\<rparr>\<rparr>)))))"

definition Kernel_Initialize :: "boot_info \<Rightarrow> machine \<Rightarrow> (fault + machine) option" where
  "Kernel_Initialize b m =
     bindO (Some (boot_console b m)) (\<lambda>m.
     bindO (Some (boot_descriptors b m)) (\<lambda>m.
     bindO (Some (boot_memory b m)) (\<lambda>m.
     bindO (Some (boot_interrupts b m)) (\<lambda>m.
     bindO (Some (boot_processor b m)) (\<lambda>m.
     case HhdmResponse b of
       None \<Rightarrow> Some (Inl NullDeref)
     | Some hh \<Rightarrow> bindO (boot_acpi b hh m) (\<lambda>m. bindO (boot_routing b hh m) (boot_lapic b)))))))"

text \<open>The main function; \<open>loc\<close> is the place in the source that the message shows. It ends in a panic.\<close>

definition kmain :: "boot_info \<Rightarrow> string \<Rightarrow> machine \<Rightarrow> (fault + machine) option" where
  "kmain b loc m =
     bindO (Kernel_Initialize b m) (\<lambda>m.
     bindO (LOG_MESSAGE (port_dev b) INFO loc (cstr ''Kernel initialized successfully, starting main loop...'' []) [] (kdata m)) (\<lambda>k.
     bindO (Kernel_Panic (port_dev b) (cstr ''Kernel reached end of .Start()'' []) k) (\<lambda>k.
       Some (Inr (m\<lparr>kdata := k\<rparr>)))))"

section \<open>What has to be given\<close>

text \<open>The objects as they are constructed: the sizes of the static arrays, and nothing registered, mapped or allocated.\<close>

definition constructed :: "machine \<Rightarrow> bool" where
  "constructed m \<longleftrightarrow>
     comPort (debugPort (kdata m)) = 0x3F8 \<and> length (portsInitStatus (debugPort (kdata m))) = 8 \<and> gdt_shape (gdt m) \<and>
     length (Cpu m) = MaxCPUs \<and> length (idtEntries (idt m)) = 256 \<and> allocatedVectors (idt m) = replicate 32 0 \<and>
     length (ioApic (ioapicManager m)) = MaxIOAPICs \<and> sharedLapicBase m = 0"

text \<open>
  The boot loader: a framebuffer on which the terminal starts, a command line of plain words that sets the level of messages to \<open>v\<close>, the first
  CPU, and the memory map \<open>es\<close>. Its page tables lie in \<open>S\<close>, outside the usable memory, which is zero; the memory
  manager's self test needs 2563 free frames in a row, which is enough for 2255 tables, the 257 tables of the new root and the device registers.
\<close>

definition loader_console :: "boot_info \<Rightarrow> string list \<Rightarrow> u64 option \<Rightarrow> bool" where
  "loader_console b ws v \<longleftrightarrow>
     (\<exists>fb fbs. FramebufferResponse b = Some (fb # fbs) \<and> flanterm_fb_init b fb \<noteq> 0) \<and>
     CommandLineResponse b = Some (cstr (join_words ws) []) \<and> ws \<noteq> [] \<and> list_all plain ws \<and> length (join_words ws) < 2 ^ 64 \<and>
     number_setting ''LOG_LEVEL'' ws v"

definition loader_memory :: "boot_info \<Rightarrow> limine_memmap_entry list \<Rightarrow> u64 \<Rightarrow> table_mem \<Rightarrow> u64 \<Rightarrow> u64 set \<Rightarrow> bool" where
  "loader_memory b es hh tabs cr3 S \<longleftrightarrow>
     MemmapResponse b = Some es \<and> HhdmResponse b = Some hh \<and> memmap_ok es \<and> enough_memory es \<and>
     tables_in 4 tabs cr3 S \<and> need 4 tabs cr3 \<le> 2255 \<and> boot_window_ok tabs cr3 \<and> 17 \<le> card (boot_window_free tabs cr3) \<and>
     (\<forall>e \<in> set es. entry_type e = LIMINE_MEMMAP_USABLE \<longrightarrow>
        (\<forall>f. inside f e \<longrightarrow> of_nat f * PageSize \<notin> S \<and> (\<forall>i < 512. tabs (of_nat f * PageSize) i = 0)))"

text \<open>The processor: the features the kernel needs, a name without a leading blank, and a base address of the local controller.\<close>

definition processor_given :: "boot_info \<Rightarrow> u32 \<Rightarrow> core \<Rightarrow> bool" where
  "processor_given b bsp c \<longleftrightarrow>
     MultiProcessingResponse b = Some bsp \<and> unat bsp < MaxCPUs \<and> length (ISRStubs b) = 256 \<and>
     core_features (cpuid_of b) (probe b) \<and> leading (padded (trimmed (brand_bytes (cpuid_of b)))) = 0 \<and>
     msrs c IA32_APIC_MSR AND 0xFFFFF000 \<noteq> 0"

text \<open>The firmware: tables the kernel accepts, a chip set that switches to ACPI mode, and an interrupt table with the controllers' addresses.\<close>

definition firmware_given :: "boot_info \<Rightarrow> u64 \<Rightarrow> u64 \<Rightarrow> u64 \<Rightarrow> bool" where
  "firmware_given b hh rsdp madt \<longleftrightarrow>
     RsdpResponse b = Some rsdp \<and> tables_ok (firmware b) hh True rsdp \<and> enables (port_dev b) \<and>
     madt = nth_or_null (filter (\<lambda>t. table_sig (firmware b) t = ''APIC'')
       (root_tables (firmware b) hh (rsdp_revision (firmware b) rsdp > 0) (root_sdt (firmware b) hh rsdp))) 0 \<and>
     madt_ok (firmware b) madt \<and>
     (\<forall>p \<in> set (madt_entries (firmware b) madt IOAPIC_Entry).
        let a = (ucast (entry_ioApicAddress (firmware b) p) :: u64) in a AND (PageSize - 1) = 0 \<and> a \<noteq> 0)"

section \<open>The stages return\<close>

lemma boot_console_returns:
  assumes "constructed m" and "loader_console b ws v"
  shows "\<exists>k cl. boot_console b m = Inr (m\<lparr>kdata := k, commandLineExtractor := cl\<rparr>) \<and> comPort (debugPort k) = 0x3F8 \<and>
     minimumLogLevel k = (case v of None \<Rightarrow> minimumLogLevel (kdata m) | Some n \<Rightarrow> ucast n)"
proof -
  have "\<exists>d. Serial_Initialize (port_dev b) (debugPort (kdata m)) = Inr d \<and> comPort d = 0x3F8"
    using assms(1) by (auto simp: constructed_def Serial_Initialize_def GetPortIndex_def Let_def split: prod.splits)
  then obtain d where d: "Serial_Initialize (port_dev b) (debugPort (kdata m)) = Inr d" "comPort d = 0x3F8" by blast
  obtain fb where fb: "FB_Initialize (flanterm_fb_init b) (FramebufferResponse b) (framebufferConsole (kdata m)) = Inr fb"
    using assms(2) FB_Initialize_clears by (auto simp: loader_console_def)
  have "EQ \<notin> set ''LOG_LEVEL''" "no_nul ''LOG_LEVEL''" by (simp_all add: EQ_def no_nul_def)
  then obtain cl dups where cl: "CL_Initialize (CommandLineResponse b) = Inr (cl, dups)" "GetValue_uint64 cl (lit ''LOG_LEVEL'') = Inr v"
    using number_setting_read [of ws "''LOG_LEVEL''" v "[]"] assms(2) by (auto simp: loader_console_def)
  show ?thesis using d fb cl by (cases v) (auto simp: boot_console_def SetLogLevel_def HasValue_def Value_def)
qed

lemma GetCpuId_msr: "GetCpuId c = ucast (msrs c gsOffset)"
  unfolding GetCpuId_def rdmsr_def by (rule bit_word_eqI) (simp add: bit_simps)

lemma GetCpuData_id:
  assumes "msrs (gdt_core (gdt m)) gsOffset = ucast (bsp :: u32)" and "unat bsp < length (Cpu m)"
  shows "GetCpuData m = Inr (unat bsp)"
proof -
  have "(ucast (ucast bsp :: u64) :: u32) = bsp" by (rule bit_word_eqI) (simp add: bit_simps)
  then show ?thesis using assms by (simp add: GetCpuData_def GetCpuId_msr)
qed

lemma boot_descriptors_returns:
  assumes "gdt_shape (gdt m)" and "length (Cpu m) = MaxCPUs" and "processor_given b bsp c"
  shows "\<exists>g. boot_descriptors b m = Inr (set_cpu (unat bsp) (\<lambda>c. c\<lparr>cpuId := bsp\<rparr>) (m\<lparr>gdt := g\<rparr>)) \<and>
     msrs (gdt_core g) = (msrs (gdt_core (gdt m)))(gsOffset := ucast bsp)"
proof -
  have id: "MultiProcessingResponse b = Some bsp" "unat bsp < MaxCPUs" using assms(3) by (simp_all add: processor_given_def)
  let ?g = "GDT_Initialize (gdtEntriesBase b) (tssBase b) bsp (StackTop b) (DefaultFaultHandlerTop b) (gdt m)"
  obtain g where g: "?g = Inr g" "msrs (gdt_core g) = (msrs (gdt_core (gdt m)))(gsOffset := ucast bsp)"
    using GDT_Initialize_state [OF assms(1) id(2)] by simp
  have "GetCpuData (m\<lparr>gdt := g\<rparr>) = Inr (unat bsp)" by (rule GetCpuData_id) (use g(2) assms(2) id(2) in simp_all)
  then show ?thesis using g id by (intro exI [of _ g]) (simp add: boot_descriptors_def)
qed

text \<open>Paging is in a state in which \<open>n\<close> more pages of the window can be mapped.\<close>

definition paging_ready :: "nat \<Rightarrow> paging_sys \<Rightarrow> u64 \<Rightarrow> bool" where
  "paging_ready n pg r \<longleftrightarrow> pt_wf pg r \<and> window_ok pg r \<and> sys_kernelState pg = r \<and> sys_cr3 pg = r \<and> sys_pageState pg = r \<and>
     n \<le> card (window_free pg r) \<and> 3 * n \<le> card (free_set (sys_pmm pg))"

definition extends :: "u64 \<Rightarrow> paging_sys \<Rightarrow> paging_sys \<Rightarrow> bool" where
  "extends r pg pg' \<longleftrightarrow> mapping_of pg r \<subseteq>\<^sub>m mapping_of pg' r \<and> (\<forall>i. mapping_of pg' r [i] = mapping_of pg r [i])"

lemma extends_refl [simp]: "extends r pg pg"
  by (simp add: extends_def)

lemma extends_trans: "extends r p q \<Longrightarrow> extends r q t \<Longrightarrow> extends r p t"
  unfolding extends_def using map_le_trans by metis

lemma ready_map:
  assumes "paging_ready (Suc n) pg r" and pa: "pa AND (PageSize - 1) = 0" "pa AND PointerMask \<noteq> 0"
  shows "\<exists>va stop pg'. FindAvailableVirtualAddressRangeKernel 1 pg = Some (Inr (va, stop)) \<and> va \<noteq> 0 \<and>
     MapPage r va pa fl pg = Inr pg' \<and> paging_ready n pg' r \<and> extends r pg pg' \<and>
     mapping_of pg' r (page_path va) = Some ((pa AND PointerMask) OR (fl OR Present))"
proof -
  have p: "pt_wf pg r" "window_ok pg r" "sys_kernelState pg = r" "window_free pg r \<noteq> {}" "3 \<le> card (free_set (sys_pmm pg))"
    using assms(1) by (auto simp: paging_ready_def)
  from window_map [OF this pa, of fl] obtain va stop pg' where
    m: "FindAvailableVirtualAddressRangeKernel 1 pg = Some (Inr (va, stop))" "va \<noteq> 0" "MapPage r va pa fl pg = Inr pg'" "maps_page r va pa fl pg pg'" by blast
  have "[i] \<noteq> page_path va" for i by (rule indices [of va]) simp
  then have "extends r pg pg'" "mapping_of pg' r (page_path va) = Some ((pa AND PointerMask) OR (fl OR Present))"
    using m(4) by (auto simp: maps_page_def extends_def map_le_def)
  moreover have "paging_ready n pg' r"
    using m(4) assms(1) by (auto simp: maps_page_def paging_ready_def local_step_def)
  ultimately show ?thesis using m(1-3) by blast
qed

lemma boot_memory_returns:
  assumes l: "loader_memory b es hh (sys_mem (paging m)) (sys_cr3 (paging m)) S" and i: "GetCpuData m = Inr i"
  shows "\<exists>pg r. boot_memory b m = Inr (set_cpu i (\<lambda>c. c\<lparr>pageState := r\<rparr>) (m\<lparr>paging := pg\<rparr>)) \<and> paging_ready 17 pg r \<and>
     (\<forall>k < 512. \<not> huge (sys_mem pg r k)) \<and> (\<forall>p. hw_walk 4 (sys_mem pg) r p = hw_walk 4 (sys_mem (paging m)) (sys_cr3 (paging m)) p)"
proof -
  let ?m = "sys_mem (paging m)" and ?c = "sys_cr3 (paging m)"
  have e: "MemmapResponse b = Some es" "HhdmResponse b = Some hh" "memmap_ok es" "enough_memory es" "tables_in 4 ?m ?c S" "need 4 ?m ?c \<le> 2255"
    "boot_window_ok ?m ?c" "17 \<le> card (boot_window_free ?m ?c)" using l by (simp_all add: loader_memory_def)
  obtain p where p: "PMM_Initialize (Some es) (Some hh) = Inr p" "pmm_wf p" "2563 \<le> card (free_set p)"
    "\<And>f. f \<in> free_set p \<Longrightarrow> \<exists>e \<in> set es. entry_type e = LIMINE_MEMMAP_USABLE \<and> inside f e"
    using PMM_Initialize_ready [OF e(3,4)] by blast
  define s where "s = (paging m)\<lparr>sys_pmm := p\<rparr>"
  have s: "sys_pmm s = p" "sys_mem s = ?m" "sys_cr3 s = ?c" by (simp_all add: s_def)
  have out: "a \<notin> S \<and> (\<forall>k < 512. ?m a k = 0)" if a: "a \<in> pool s" for a
  proof -
    obtain f where f: "a = of_nat f * PageSize" "f \<in> free_set p" using a s(1) by (auto simp: pool_def)
    from p(4) [OF f(2)] f(1) l show ?thesis unfolding loader_memory_def by blast
  qed
  have "\<exists>pg r. Paging_Initialize s = Inr pg \<and> taken_over S s pg r"
  proof (rule Paging_Initialize_takes_over)
    show "S \<inter> pool s = {}" using out by blast
    show "clean s" using out s(2) by (simp add: clean_def)
  qed (use p e s in simp_all)
  then obtain pg r where pg: "Paging_Initialize s = Inr pg" "taken_over S s pg r" by blast
  note w = taken_over_window [OF pg(2), unfolded s, OF e(7)]
  have t: "sys_kernelState pg = r" "sys_cr3 pg = r" "sys_pageState pg = r" "pt_wf pg r" "\<And>q. hw_walk 4 (sys_mem pg) r q = hw_walk 4 ?m ?c q"
    "card (free_set p) \<le> card (free_set (sys_pmm pg)) + (257 + need 4 ?m ?c)"
    using pg(2) unfolding taken_over_def s by blast+
  have "paging_ready 17 pg r" unfolding paging_ready_def using t w e(6,8) p(3) by auto
  moreover have "boot_memory b m = Inr (set_cpu i (\<lambda>c. c\<lparr>pageState := r\<rparr>) (m\<lparr>paging := pg\<rparr>))"
    using e(1,2) p(1) pg(1) i t(3) by (simp add: boot_memory_def s_def)
  ultimately show ?thesis using w(3) t(5) by blast
qed

lemma pointer_of_u32:
  fixes x :: u32
  assumes "ucast x AND (PageSize - 1) = (0 :: u64)" and "ucast x \<noteq> (0 :: u64)"
  shows "ucast x AND PointerMask \<noteq> (0 :: u64)"
proof -
  from assms(2) obtain n where n: "bit (ucast x :: u64) n" by (metis bit_eqI bit_0_eq bot_apply bot_bool_def)
  then have "n < 32" using bit_imp_le_length [of x n] by (simp add: bit_simps)
  have m: "PageSize - 1 = (mask 12 :: u64)" by (simp add: mask_eq_decr_exp)
  have "12 \<le> n" using arg_cong [OF assms(1), of "\<lambda>w. bit w n"] n unfolding m by (auto simp: bit_simps)
  then have "bit (ucast x AND PointerMask) n" using n \<open>n < 32\<close> by (simp add: bit_and_iff PointerMask_bit)
  then show ?thesis by auto
qed

lemma boot_interrupts_returns:
  assumes "length (ISRStubs b) = 256" and "length (idtEntries (idt m)) = 256" and "allocatedVectors (idt m) = replicate 32 0"
  shows "\<exists>d. boot_interrupts b m = Inr (m\<lparr>idt := d, kdata := (kdata m)\<lparr>kernel_interrupts := True\<rparr>\<rparr>) \<and> idt_loaded d \<and>
     vectors d = {0..31} \<union> {253, 254, 255} \<and> idtEntries d = set_ist 14 (set_ist 13 (set_ist 8 (map (\<lambda>isr. gate isr 0x8E) (ISRStubs b))))"
proof -
  obtain d where d: "IDT_Initialize (idtBase b) (ISRStubs b) (idt m) = Inr d" "idt_interrupts d" "idt_loaded d" "allocatedVectors d = reserved"
    "idtEntries d = set_ist 14 (set_ist 13 (set_ist 8 (map (\<lambda>isr. gate isr 0x8E) (ISRStubs b))))"
    using IDT_Initialize_state [OF assms, of "idtBase b"] by simp
  then show ?thesis using vectors_reserved [OF d(4)] by (intro exI [of _ d]) (simp add: boot_interrupts_def)
qed

lemma boot_processor_returns:
  assumes "processor_given b bsp c"
  shows "\<exists>n g. boot_processor b m = Inr (m\<lparr>cpuName := n, gdt := (gdt m)\<lparr>gdt_core := g\<rparr>\<rparr>) \<and>
     bit (msrs g MSR_EXTENDED_FEATURE_ENABLE) 11 \<and> (\<forall>r. r \<noteq> MSR_EXTENDED_FEATURE_ENABLE \<longrightarrow> msrs g r = msrs (gdt_core (gdt m)) r)"
proof -
  let ?b = "padded (trimmed (brand_bytes (cpuid_of b)))"
  have f: "core_features (cpuid_of b) (probe b)" "leading ?b = 0" using assms by (simp_all add: processor_given_def)
  have brand: "ReadBrandString (cpuid_of b) = Inr ?b" using ReadBrandString_cases [of "cpuid_of b"] f(2) by (simp add: Let_def)
  have "\<exists>n. strlen ?b = Inr n"
  proof -
    have "length (trimmed (brand_bytes (cpuid_of b))) < 49" using trimmed_length [of "brand_bytes (cpuid_of b)"] by simp
    then have "NUL \<in> set ?b" by (simp add: padded_def)
    then obtain t rest where "?b = cstr t rest" "no_nul t" using split_list_first [of NUL ?b] by (auto simp: cstr_def no_nul_def)
    then show ?thesis by simp
  qed
  then obtain n where "CPU_Initialize (cpuid_of b) = Inr n" using brand by (auto simp: CPU_Initialize_def)
  moreover obtain g where g: "InitializeCore (cpuid_of b) (probe b) (gdt_core (gdt m)) = Inr g" using InitializeCore_returns f(1) by blast
  moreover have "bit (msrs g MSR_EXTENDED_FEATURE_ENABLE) 11" using InitializeCore_nx [OF g] .
  ultimately show ?thesis using InitializeCore_msrs [OF g] by (intro exI [of _ n] exI [of _ g]) (simp add: boot_processor_def)
qed

lemma tables_ok_debug: "tables_ok mem hh True rsdp \<Longrightarrow> tables_ok mem hh debug rsdp"
  by (auto simp: tables_ok_def)

lemma boot_acpi_returns:
  assumes "firmware_given b hh rsdp madt"
  shows "\<exists>tr. boot_acpi b hh m = Some (Inr (m\<lparr>acpi := acpi_found (firmware b) hh rsdp (acpi m),
     kdata := (kdata m)\<lparr>debugPort := (debugPort (kdata m))\<lparr>ports := tr\<rparr>\<rparr>\<rparr>))"
proof -
  have f: "RsdpResponse b = Some rsdp" "tables_ok (firmware b) hh True rsdp" "enables (port_dev b)" using assms by (simp_all add: firmware_given_def)
  obtain tr where "ACPI_Initialize (port_dev b) (firmware b) hh (LogMessage DEBUG (kdata m)) (Some rsdp) (acpi m, ports (debugPort (kdata m))) =
      Some (Inr (acpi_found (firmware b) hh rsdp (acpi m), tr))"
    using ACPI_Initialize_found [OF f(3) tables_ok_debug [OF f(2)]] by blast
  then show ?thesis by (intro exI [of _ tr]) (simp add: boot_acpi_def f(1))
qed

lemma ready_registers:
  assumes "paging_ready (length es + n) pg r"
    and "\<forall>p \<in> set es. let a = (ucast (entry_ioApicAddress mem p) :: u64) in a AND (PageSize - 1) = 0 \<and> a \<noteq> 0"
  shows "\<exists>pg'. maps_registers mem es pg pg' \<and> paging_ready n pg' r \<and> extends r pg pg'"
  using assms
proof (induction es arbitrary: pg)
  case (Cons p es)
  let ?a = "ucast (entry_ioApicAddress mem p) :: u64"
  have a: "?a AND (PageSize - 1) = 0" "?a \<noteq> 0" using Cons.prems(2) by (simp_all add: Let_def)
  have "paging_ready (Suc (length es + n)) pg r" using Cons.prems(1) by simp
  from ready_map [OF this a(1) pointer_of_u32 [OF a], of "Present OR ReadWrite OR CacheDisable"] obtain va stop q where
    q: "FindAvailableVirtualAddressRangeKernel 1 pg = Some (Inr (va, stop))" "va \<noteq> 0"
      "MapPage r va ?a (Present OR ReadWrite OR CacheDisable) pg = Inr q" "paging_ready (length es + n) q r" "extends r pg q" by blast
  from Cons.IH [OF q(4)] Cons.prems(2) obtain pg' where "maps_registers mem es q pg'" "paging_ready n pg' r" "extends r q pg'" by auto
  moreover have "sys_pageState pg = r" using Cons.prems(1) by (simp add: paging_ready_def)
  ultimately show ?case using q(1-3) extends_trans [OF q(5)] by auto
qed auto

lemma paging_ready_mono: "paging_ready n pg r \<Longrightarrow> k \<le> n \<Longrightarrow> paging_ready k pg r"
  by (auto simp: paging_ready_def)

lemma boot_routing_returns:
  assumes f: "firmware_given b hh rsdp madt" and a: "acpi m = acpi_found (firmware b) hh rsdp a0"
    and p: "paging_ready 17 (paging m) r" and len: "length (ioApic (ioapicManager m)) = MaxIOAPICs"
  defines "n \<equiv> min MaxIOAPICs (length (madt_entries (firmware b) madt IOAPIC_Entry))" and "tr \<equiv> ports (debugPort (kdata m))"
  shows "\<exists>man pg. boot_routing b hh m = Some (Inr (m\<lparr>ioapicManager := man, paging := pg,
       kdata := (kdata m)\<lparr>debugPort := (debugPort (kdata m))\<lparr>ports := tr @ [Out8 0x21 0xFF, Out8 0x80 0, Out8 0xA1 0xFF, Out8 0x80 0]\<rparr>\<rparr>\<rparr>)) \<and>
     routed (firmware b) madt n man \<and> paging_ready 1 pg r \<and> extends r (paging m) pg"
proof -
  let ?mem = "firmware b" and ?es = "take n (madt_entries (firmware b) madt IOAPIC_Entry)"
  let ?e = "\<lparr>io_manager = ioapicManager m, io_paging = paging m, io_ports = tr\<rparr>"
  have t: "tables_ok ?mem hh True rsdp" and mo: "madt_ok ?mem madt"
    and addr: "\<forall>p \<in> set (madt_entries ?mem madt IOAPIC_Entry). let a = (ucast (entry_ioApicAddress ?mem p) :: u64) in a AND (PageSize - 1) = 0 \<and> a \<noteq> 0"
    using f unfolding firmware_given_def by blast+
  have "no_nul ''APIC''" "''APIC'' \<notin> {''DSDT'', ''FACP'', ''RSDT'', ''XSDT''}" by (simp_all add: no_nul_def)
  then have table: "GetTable ?mem hh (lit ''APIC'') 0 (acpi m) = Inr madt"
    unfolding a using GetTable_found [OF t] f by (simp add: firmware_given_def)
  have "n \<le> 16" "length ?es = n" by (simp_all add: n_def MaxIOAPICs_def)
  then have "paging_ready (length ?es + 1) (paging m) r" using paging_ready_mono [OF p] by simp
  moreover have "\<forall>p \<in> set ?es. let a = (ucast (entry_ioApicAddress ?mem p) :: u64) in a AND (PageSize - 1) = 0 \<and> a \<noteq> 0"
    using addr set_take_subset by fast
  ultimately obtain pg where pg: "maps_registers ?mem ?es (io_paging ?e) pg" "paging_ready 1 pg r" "extends r (paging m) pg"
    using ready_registers [of ?es 1 "paging m" r ?mem] by auto
  have "length (ioApic (io_manager ?e)) = MaxIOAPICs" using len by simp
  from IOAPICManager_Initialize_routed [OF table mo n_def [THEN meta_eq_to_obj_eq] pg(1) this, of "ioapic_hw b"] obtain e' where
    e': "IOAPICManager_Initialize ?mem hh (ioapic_hw b) (acpi m) ?e = Some (Inr e')" "io_paging e' = pg"
      "io_ports e' = tr @ [Out8 0x21 0xFF, Out8 0x80 0, Out8 0xA1 0xFF, Out8 0x80 0]" "routed ?mem madt n (io_manager e')" by auto
  then show ?thesis using pg(2,3)
    by (intro exI [of _ "io_manager e'"] exI [of _ pg]) (simp add: boot_routing_def tr_def [symmetric])
qed

lemma lapic_base:
  fixes v :: u64
  assumes "v AND 0xFFFFF000 \<noteq> 0"
  shows "(v AND 0xFFFFF000) AND (PageSize - 1) = 0" and "(v AND 0xFFFFF000) AND PointerMask \<noteq> 0"
proof -
  have m: "(0xFFFFF000 :: u64) = mask 32 AND NOT (mask 12)" "PageSize - 1 = (mask 12 :: u64)" by (simp_all add: mask_eq_decr_exp)
  show "(v AND 0xFFFFF000) AND (PageSize - 1) = 0" unfolding m by (rule bit_word_eqI) (auto simp: bit_simps)
  have "(v AND 0xFFFFF000) AND PointerMask = v AND 0xFFFFF000"
    unfolding m(1) by (rule bit_word_eqI) (auto simp: bit_simps PointerMask_bit)
  then show "(v AND 0xFFFFF000) AND PointerMask \<noteq> 0" using assms by simp
qed

lemma boot_lapic_returns:
  fixes m :: machine
  defines "c \<equiv> gdt_core (gdt m)" and "base \<equiv> msrs (gdt_core (gdt m)) IA32_APIC_MSR AND 0xFFFFF000"
  assumes i: "GetCpuData m = Inr i" and sh: "sharedLapicBase m = 0" and p: "paging_ready 1 (paging m) r" and base: "base \<noteq> 0"
  shows "\<exists>c' l pg. boot_lapic b m = Some (Inr (set_cpu i (\<lambda>c. c\<lparr>lapic := l\<rparr>)
       (m\<lparr>gdt := (gdt m)\<lparr>gdt_core := c'\<rparr>, paging := pg, sharedLapicBase := mmioBase l, kdata := (kdata m)\<lparr>kernel_interrupts := True\<rparr>\<rparr>))) \<and>
     lapic_quiet l \<and> mmioBase l \<noteq> 0 \<and> msrs c' = (msrs c)(IA32_APIC_MSR := msrs c IA32_APIC_MSR OR push_bit 11 1) \<and>
     paging_ready 0 pg r \<and> extends r (paging m) pg \<and>
     mapping_of pg r (page_path (mmioBase l)) = Some ((base AND PointerMask) OR ((Present OR ReadWrite) OR Present))"
proof -
  let ?e = "\<lparr>env_core = gdt_core (gdt m), env_paging = paging m, SharedLapicVirtualBase = sharedLapicBase m,
     env_lapic = lapic (Cpu m ! i), env_interrupts = kernel_interrupts (kdata m)\<rparr>"
  note al = lapic_base [OF base [unfolded base_def], folded base_def]
  have "paging_ready (Suc 0) (paging m) r" using p by simp
  from ready_map [OF this al, of "Present OR ReadWrite"] obtain va stop pg where
    pg: "FindAvailableVirtualAddressRangeKernel 1 (paging m) = Some (Inr (va, stop))" "va \<noteq> 0"
      "MapPage r va base (Present OR ReadWrite) (paging m) = Inr pg" "paging_ready 0 pg r" "extends r (paging m) pg"
      "mapping_of pg r (page_path va) = Some ((base AND PointerMask) OR ((Present OR ReadWrite) OR Present))" by blast
  have "sys_pageState (paging m) = r" using p by (simp add: paging_ready_def)
  then have "map_registers (msrs (env_core ?e) IA32_APIC_MSR AND 0xFFFFF000) ?e = Some (Inr (?e\<lparr>env_paging := pg, SharedLapicVirtualBase := va\<rparr>))"
    using sh pg(1,3) by (simp add: map_registers_def base_def)
  from LAPIC_Initialize_mapped [OF this, of "lapic_dev b"] pg(2) obtain e' where
    e': "LAPIC_Initialize (lapic_dev b) ?e = Some (Inr e')" "lapic_quiet (env_lapic e')" "mmioBase (env_lapic e') = va"
      "SharedLapicVirtualBase e' = va" "env_paging e' = pg" "env_interrupts e'"
      "msrs (env_core e') = (msrs c)(IA32_APIC_MSR := msrs c IA32_APIC_MSR OR push_bit 11 1)" by (auto simp: c_def)
  then show ?thesis using pg(2,4-6) i
    by (intro exI [of _ "env_core e'"] exI [of _ "env_lapic e'"] exI [of _ pg]) (simp add: boot_lapic_def)
qed

section \<open>The whole start\<close>

lemma set_cpu_fields [simp]:
  "kdata (set_cpu i f m) = kdata m" "gdt (set_cpu i f m) = gdt m" "paging (set_cpu i f m) = paging m" "idt (set_cpu i f m) = idt m"
  "acpi (set_cpu i f m) = acpi m" "ioapicManager (set_cpu i f m) = ioapicManager m" "sharedLapicBase (set_cpu i f m) = sharedLapicBase m"
  "length (Cpu (set_cpu i f m)) = length (Cpu m)" "i < length (Cpu m) \<Longrightarrow> Cpu (set_cpu i f m) ! i = f (Cpu m ! i)"
  by (simp_all add: set_cpu_def)

lemma msr_numbers [simp]:
  "gsOffset \<noteq> MSR_EXTENDED_FEATURE_ENABLE" "IA32_APIC_MSR \<noteq> MSR_EXTENDED_FEATURE_ENABLE" "gsOffset \<noteq> IA32_APIC_MSR"
  "MSR_EXTENDED_FEATURE_ENABLE \<noteq> IA32_APIC_MSR" "IA32_APIC_MSR \<noteq> gsOffset"
  by (simp_all add: gsOffset_def MSR_EXTENDED_FEATURE_ENABLE_def IA32_APIC_MSR_def)

text \<open>Up to the take-over of the page tables.\<close>

lemma boot_to_memory:
  assumes "constructed m" and "loader_console b ws v" and "loader_memory b es hh (sys_mem (paging m)) (sys_cr3 (paging m)) S"
    and "processor_given b bsp c"
  shows "\<exists>m1 m2 m3 r. boot_console b m = Inr m1 \<and> boot_descriptors b m1 = Inr m2 \<and> boot_memory b m2 = Inr m3 \<and>
     minimumLogLevel (kdata m3) = (case v of None \<Rightarrow> minimumLogLevel (kdata m) | Some n \<Rightarrow> ucast n) \<and>
     msrs (gdt_core (gdt m3)) = (msrs (gdt_core (gdt m)))(gsOffset := ucast bsp) \<and> length (Cpu m3) = MaxCPUs \<and>
     cpuId (Cpu m3 ! unat bsp) = bsp \<and> pageState (Cpu m3 ! unat bsp) = r \<and> paging_ready 17 (paging m3) r \<and>
     (\<forall>k < 512. \<not> huge (sys_mem (paging m3) r k)) \<and>
     (\<forall>p. hw_walk 4 (sys_mem (paging m3)) r p = hw_walk 4 (sys_mem (paging m)) (sys_cr3 (paging m)) p) \<and>
     idt m3 = idt m \<and> ioapicManager m3 = ioapicManager m \<and> sharedLapicBase m3 = sharedLapicBase m"
proof -
  have c: "gdt_shape (gdt m)" "length (Cpu m) = MaxCPUs" using assms(1) by (simp_all add: constructed_def)
  have bsp: "unat bsp < MaxCPUs" using assms(4) by (simp add: processor_given_def)
  obtain k cl where k: "boot_console b m = Inr (m\<lparr>kdata := k, commandLineExtractor := cl\<rparr>)"
    "minimumLogLevel k = (case v of None \<Rightarrow> minimumLogLevel (kdata m) | Some n \<Rightarrow> ucast n)"
    using boot_console_returns [OF assms(1,2)] by blast
  let ?m1 = "m\<lparr>kdata := k, commandLineExtractor := cl\<rparr>"
  obtain g where g: "boot_descriptors b ?m1 = Inr (set_cpu (unat bsp) (\<lambda>c. c\<lparr>cpuId := bsp\<rparr>) (?m1\<lparr>gdt := g\<rparr>))"
    "msrs (gdt_core g) = (msrs (gdt_core (gdt m)))(gsOffset := ucast bsp)"
    using boot_descriptors_returns [of ?m1 b bsp c] c assms(4) by auto
  let ?m2 = "set_cpu (unat bsp) (\<lambda>c. c\<lparr>cpuId := bsp\<rparr>) (?m1\<lparr>gdt := g\<rparr>)"
  have i: "GetCpuData ?m2 = Inr (unat bsp)" by (rule GetCpuData_id) (use g(2) c(2) bsp in simp_all)
  from boot_memory_returns [OF _ this, of b es hh S] assms(3) obtain pg r where
    pg: "boot_memory b ?m2 = Inr (set_cpu (unat bsp) (\<lambda>c. c\<lparr>pageState := r\<rparr>) (?m2\<lparr>paging := pg\<rparr>))" "paging_ready 17 pg r"
      "\<forall>k < 512. \<not> huge (sys_mem pg r k)" "\<forall>p. hw_walk 4 (sys_mem pg) r p = hw_walk 4 (sys_mem (paging m)) (sys_cr3 (paging m)) p" by auto
  show ?thesis
    by (rule exI [of _ ?m1], rule exI [of _ ?m2], rule exI, rule exI [of _ r], intro conjI, rule k(1), rule g(1), rule pg(1))
      (use k(2) g(2) c(2) bsp pg(2-4) in simp_all)
qed

text \<open>The interrupt table, the processor and the firmware tables.\<close>

lemma boot_to_firmware:
  assumes m: "length (idtEntries (idt m)) = 256" "allocatedVectors (idt m) = replicate 32 0"
    and given: "processor_given b bsp c" "firmware_given b hh rsdp madt"
  shows "\<exists>m1 m2 m3 a. boot_interrupts b m = Inr m1 \<and> boot_processor b m1 = Inr m2 \<and> boot_acpi b hh m2 = Some (Inr m3) \<and>
     minimumLogLevel (kdata m3) = minimumLogLevel (kdata m) \<and> Cpu m3 = Cpu m \<and> paging m3 = paging m \<and> ioapicManager m3 = ioapicManager m \<and>
     sharedLapicBase m3 = sharedLapicBase m \<and> acpi m3 = acpi_found (firmware b) hh rsdp a \<and>
     idt_loaded (idt m3) \<and> vectors (idt m3) = {0..31} \<union> {253, 254, 255} \<and>
     idtEntries (idt m3) = set_ist 14 (set_ist 13 (set_ist 8 (map (\<lambda>isr. gate isr 0x8E) (ISRStubs b)))) \<and>
     bit (msrs (gdt_core (gdt m3)) MSR_EXTENDED_FEATURE_ENABLE) 11 \<and>
     (\<forall>x. x \<noteq> MSR_EXTENDED_FEATURE_ENABLE \<longrightarrow> msrs (gdt_core (gdt m3)) x = msrs (gdt_core (gdt m)) x)"
proof -
  have stubs: "length (ISRStubs b) = 256" using given(1) by (simp add: processor_given_def)
  obtain d where d: "boot_interrupts b m = Inr (m\<lparr>idt := d, kdata := (kdata m)\<lparr>kernel_interrupts := True\<rparr>\<rparr>)" "idt_loaded d"
    "vectors d = {0..31} \<union> {253, 254, 255}" "idtEntries d = set_ist 14 (set_ist 13 (set_ist 8 (map (\<lambda>isr. gate isr 0x8E) (ISRStubs b))))"
    using boot_interrupts_returns [OF stubs m] by blast
  let ?m1 = "m\<lparr>idt := d, kdata := (kdata m)\<lparr>kernel_interrupts := True\<rparr>\<rparr>"
  obtain n g where g: "boot_processor b ?m1 = Inr (?m1\<lparr>cpuName := n, gdt := (gdt ?m1)\<lparr>gdt_core := g\<rparr>\<rparr>)" "bit (msrs g MSR_EXTENDED_FEATURE_ENABLE) 11"
    "\<forall>x. x \<noteq> MSR_EXTENDED_FEATURE_ENABLE \<longrightarrow> msrs g x = msrs (gdt_core (gdt ?m1)) x" using boot_processor_returns [OF given(1), of ?m1] by blast
  let ?m2 = "?m1\<lparr>cpuName := n, gdt := (gdt ?m1)\<lparr>gdt_core := g\<rparr>\<rparr>"
  obtain tr where tr: "boot_acpi b hh ?m2 = Some (Inr (?m2\<lparr>acpi := acpi_found (firmware b) hh rsdp (acpi ?m2),
     kdata := (kdata ?m2)\<lparr>debugPort := (debugPort (kdata ?m2))\<lparr>ports := tr\<rparr>\<rparr>\<rparr>))" using boot_acpi_returns [OF given(2), of ?m2] by blast
  show ?thesis
    by (rule exI [of _ ?m1], rule exI [of _ ?m2], rule exI, rule exI [of _ "acpi m"], intro conjI, rule d(1), rule g(1), rule tr)
      (use d(2-4) g(2,3) in simp_all)
qed

text \<open>The interrupt controllers.\<close>

lemma boot_controllers:
  fixes bsp :: u32
  assumes m: "length (ioApic (ioapicManager m)) = MaxIOAPICs" "sharedLapicBase m = 0" "acpi m = acpi_found (firmware b) hh rsdp a" "paging_ready 17 (paging m) r"
    and id: "msrs (gdt_core (gdt m)) gsOffset = ucast bsp" "unat bsp < length (Cpu m)"
    and base: "msrs (gdt_core (gdt m)) IA32_APIC_MSR AND 0xFFFFF000 \<noteq> 0" and given: "firmware_given b hh rsdp madt"
  defines "v \<equiv> msrs (gdt_core (gdt m)) IA32_APIC_MSR"
  shows "\<exists>m1 m2. boot_routing b hh m = Some (Inr m1) \<and> boot_lapic b m1 = Some (Inr m2) \<and>
     minimumLogLevel (kdata m2) = minimumLogLevel (kdata m) \<and> kernel_interrupts (kdata m2) \<and> GetCpuData m2 = Inr (unat bsp) \<and> idt m2 = idt m \<and>
     cpuId (Cpu m2 ! unat bsp) = cpuId (Cpu m ! unat bsp) \<and> pageState (Cpu m2 ! unat bsp) = pageState (Cpu m ! unat bsp) \<and>
     msrs (gdt_core (gdt m2)) = (msrs (gdt_core (gdt m)))(IA32_APIC_MSR := v OR push_bit 11 1) \<and>
     paging_ready 0 (paging m2) r \<and> extends r (paging m) (paging m2) \<and>
     routed (firmware b) madt (min MaxIOAPICs (length (madt_entries (firmware b) madt IOAPIC_Entry))) (ioapicManager m2) \<and>
     (\<exists>pre. ports (debugPort (kdata m2)) = pre @ [Out8 0x21 0xFF, Out8 0x80 0, Out8 0xA1 0xFF, Out8 0x80 0]) \<and>
     lapic_quiet (lapic (Cpu m2 ! unat bsp)) \<and>
     mapping_of (paging m2) r (page_path (mmioBase (lapic (Cpu m2 ! unat bsp)))) =
       Some (((v AND 0xFFFFF000) AND PointerMask) OR ((Present OR ReadWrite) OR Present))"
proof -
  obtain man q where
    q: "boot_routing b hh m = Some (Inr (m\<lparr>ioapicManager := man, paging := q, kdata := (kdata m)\<lparr>debugPort := (debugPort (kdata m))\<lparr>ports :=
       ports (debugPort (kdata m)) @ [Out8 0x21 0xFF, Out8 0x80 0, Out8 0xA1 0xFF, Out8 0x80 0]\<rparr>\<rparr>\<rparr>))"
      "routed (firmware b) madt (min MaxIOAPICs (length (madt_entries (firmware b) madt IOAPIC_Entry))) man" "paging_ready 1 q r" "extends r (paging m) q"
    using boot_routing_returns [OF given m(3,4,1)] by blast
  let ?m1 = "m\<lparr>ioapicManager := man, paging := q, kdata := (kdata m)\<lparr>debugPort := (debugPort (kdata m))\<lparr>ports :=
     ports (debugPort (kdata m)) @ [Out8 0x21 0xFF, Out8 0x80 0, Out8 0xA1 0xFF, Out8 0x80 0]\<rparr>\<rparr>\<rparr>"
  have i: "GetCpuData ?m1 = Inr (unat bsp)" by (rule GetCpuData_id) (use id in simp_all)
  have "sharedLapicBase ?m1 = 0" "paging_ready 1 (paging ?m1) r" "msrs (gdt_core (gdt ?m1)) IA32_APIC_MSR AND 0xFFFFF000 \<noteq> 0"
    using m(2) q(3) base by simp_all
  from boot_lapic_returns [OF i this, of b] obtain c' l p where
    l: "boot_lapic b ?m1 = Some (Inr (set_cpu (unat bsp) (\<lambda>c. c\<lparr>lapic := l\<rparr>) (?m1\<lparr>gdt := (gdt ?m1)\<lparr>gdt_core := c'\<rparr>, paging := p, sharedLapicBase := mmioBase l,
         kdata := (kdata ?m1)\<lparr>kernel_interrupts := True\<rparr>\<rparr>)))" "lapic_quiet l" "msrs c' = (msrs (gdt_core (gdt ?m1)))(IA32_APIC_MSR := v OR push_bit 11 1)"
      "paging_ready 0 p r" "extends r (paging ?m1) p"
      "mapping_of p r (page_path (mmioBase l)) = Some (((v AND 0xFFFFF000) AND PointerMask) OR ((Present OR ReadWrite) OR Present))" by (auto simp: v_def)
  let ?m2 = "set_cpu (unat bsp) (\<lambda>c. c\<lparr>lapic := l\<rparr>) (?m1\<lparr>gdt := (gdt ?m1)\<lparr>gdt_core := c'\<rparr>, paging := p, sharedLapicBase := mmioBase l,
     kdata := (kdata ?m1)\<lparr>kernel_interrupts := True\<rparr>\<rparr>)"
  have "GetCpuData ?m2 = Inr (unat bsp)" by (rule GetCpuData_id) (use l(3) id in simp_all)
  moreover have "extends r (paging m) p" using extends_trans [OF q(4)] l(5) by simp
  ultimately show ?thesis
    by (intro exI [of _ ?m1] exI [of _ ?m2] conjI, intro q(1), intro l(1)) (use q(2) l(2-4,6) id(2) in \<open>simp_all del: push_bit_of_1\<close>)
qed

section \<open>Property\<close>


text \<open>A small machine: 64 MiB of memory, one router, and a processor with the features the kernel needs.\<close>

definition example_cpuid :: cpuid_fun where
  "example_cpuid leaf = (if leaf \<in> {0x80000002, 0x80000003, 0x80000004} then (0, 0, 0, 0) else (0x80000004, 0, 0, 0x2100021))"

definition example_fb :: limine_framebuffer where
  "example_fb = \<lparr>fb_address = 0xFD000000, fb_width = 1024, fb_height = 768, fb_pitch = 4096, red_mask_size = 8, red_mask_shift = 16,
     green_mask_size = 8, green_mask_shift = 8, blue_mask_size = 8, blue_mask_shift = 0\<rparr>"

definition example_boot :: boot_info where
  "example_boot = \<lparr>port_dev = example_chipset, flanterm_fb_init = (\<lambda>_. 1), FramebufferResponse = Some [example_fb],
     CommandLineResponse = Some (cstr ''LOG_LEVEL=2'' []), MultiProcessingResponse = Some 3, MemmapResponse = Some example_memmap,
     HhdmResponse = Some 0, RsdpResponse = Some 0x1000, StackTop = 0x7000, DefaultFaultHandlerTop = 0x8000, gdtEntriesBase = 0x5000,
     tssBase = 0x9000, idtBase = 0x6000, ISRStubs = replicate 256 0xFFFFFFFF80001234, cpuid_of = example_cpuid,
     probe = \<lparr>statusWord = 0, controlWord = 0x3F, fpuTest_passes = True, sseTest_passes = True\<rparr>,
     firmware = example_mem, lapic_dev = slow_device, ioapic_hw = (\<lambda>_ _. 0x170011)\<rparr>"

definition example_machine :: machine where
  "example_machine = \<lparr>kdata = example_kernel, commandLineExtractor = \<lparr>cl_response = None, cl_hasCommandLine = False\<rparr>,
     gdt = fresh_gdt\<lparr>gdt_core := (gdt_core fresh_gdt)\<lparr>msrs := (\<lambda>_. 0xFEE00000)\<rparr>\<rparr>,
     paging = \<lparr>sys_pmm = example_pmm, sys_mem = boot_tables, sys_kernelState = 0, sys_cr3 = 0x9F000, sys_pageState = 0\<rparr>,
     idt = fresh_idt, cpuName = ([], 0), acpi = example_acpi,
     ioapicManager = \<lparr>ioApic = replicate 16 example_router, ioApicCount = 0, irqToGsi = []\<rparr>, sharedLapicBase = 0,
     Cpu = replicate MaxCPUs \<lparr>cpuId = 0, pageState = 0, lapic = example_lapic\<rparr>\<rparr>"

lemma example_constructed: "constructed example_machine"
  using fresh_gdt_shape unfolding constructed_def
  by (simp add: example_machine_def example_kernel_def fresh_idt_def gdt_shape_def MaxIOAPICs_def)

lemma example_loader_console: "loader_console example_boot [''LOG_LEVEL=2''] (Some 2)"
proof -
  have "number_setting ''LOG_LEVEL'' [''LOG_LEVEL=2''] (Some 2)"
    unfolding number_setting_def by (simp, rule exI [of _ "[]"], rule exI [of _ "''2''"]) (use example_two in \<open>simp add: EQ_def\<close>)
  then show ?thesis by (simp add: loader_console_def example_boot_def plain_def SPACE_def QUOTE_def)
qed

lemma example_window: "hw_walk 4 boot_tables 0x9F000 (page_path (window_page j)) = None" if "j < WindowPages"
proof -
  have "hd (page_path (window_page j)) = 511"
  proof -
    have "drop_bit 39 (window_page j) AND 0x1FF = 0x1FF"
    proof -
      have m: "(0x1FF :: u64) = mask 9" by (simp add: mask_eq_decr_exp)
      show ?thesis unfolding m
        by (rule bit_word_eqI) (use WindowPages_less [OF that] in \<open>auto simp: bit_simps window_page_bit\<close>)
    qed
    then show ?thesis by (simp add: page_path_def ExtractPageTableIndices_def)
  qed
  moreover have "page_path (window_page j) \<noteq> []" by (rule indices [of "window_page j"]) simp
  ultimately obtain q where "page_path (window_page j) = 511 # q" by (cases "page_path (window_page j)") auto
  then show ?thesis by (simp add: hw_walk_4 boot_entries)
qed

lemma example_loader_memory: "loader_memory example_boot example_memmap 0 boot_tables 0x9F000 {0x9F000, 0xA0000}"
proof -
  have w: "boot_window_ok boot_tables 0x9F000" by (simp add: boot_window_ok_def example_window boot_entries huge_def HugePage_def)
  have "boot_window_free boot_tables 0x9F000 = {..<WindowPages}" by (auto simp: boot_window_free_def example_window)
  then have f: "17 \<le> card (boot_window_free boot_tables 0x9F000)" by (simp add: WindowPages_def)
  have u: "of_nat f * PageSize \<notin> {0x9F000, 0xA0000 :: u64}" if "e \<in> set example_memmap" "entry_type e = LIMINE_MEMMAP_USABLE" "inside f e" for f e
  proof -
    have "f < 2 ^ 40" "f < 0x9F \<or> 0x100 \<le> f"
      using that by (auto simp: example_memmap_def LIMINE_MEMMAP_USABLE_def inside_def entry_end_def)
    then have "unat (of_nat f * PageSize :: u64) = f * 4096" "f \<noteq> 0x9F" "f \<noteq> 0xA0" using frame_addr_unat [of f] by auto
    then show ?thesis by auto
  qed
  then have "\<forall>i < 512. boot_tables (of_nat f * PageSize) i = 0" if "e \<in> set example_memmap" "entry_type e = LIMINE_MEMMAP_USABLE" "inside f e" for f e
    using u [OF that] by (simp add: boot_tables_def)
  then show ?thesis unfolding loader_memory_def
    using example_memmap_ok boot_tables_in boot_need w f u by (simp add: example_boot_def)
qed

lemma example_processor: "processor_given example_boot 3 (gdt_core (gdt example_machine))"
proof -
  have "brand_bytes example_cpuid = replicate 48 NUL"
    by (simp add: brand_bytes_def example_cpuid_def chunk_def numeral_eq_Suc char_of_def)
  then have "trimmed (brand_bytes example_cpuid) = []" by (simp add: trimmed_def)
  then have brand: "leading (padded (trimmed (brand_bytes example_cpuid))) = 0" by (simp add: padded_def leading_def numeral_eq_Suc)
  have bits: "bit (0x2100021 :: u32) n" if "n \<in> {0, 5, 20, 25}" for n using that by auto
  have "core_features example_cpuid (probe example_boot)"
    unfolding core_features_def using bits by (simp add: example_cpuid_def get_cpuid_def example_boot_def)
  then show ?thesis
    using brand by (simp add: processor_given_def example_boot_def example_machine_def MaxCPUs_def)
qed

lemma example_firmware: "firmware_given example_boot 0 0x1000 0x4000"
proof -
  have "rsdp_revision example_mem 0x1000 = 0" by (simp add: example_facts)
  then have "nth_or_null (filter (\<lambda>t. table_sig example_mem t = ''APIC'')
      (root_tables example_mem 0 (rsdp_revision example_mem 0x1000 > 0) (root_sdt example_mem 0 0x1000))) 0 = 0x4000"
    by (simp add: example_tables example_root example_signatures)
  moreover have "madt_ok example_mem 0x4000" by (simp only: madt_ok_def example_walk) simp
  moreover have "(ucast (entry_ioApicAddress example_mem 0x402C) :: u64) = 0xFEC00000" by (simp add: entry_ioApicAddress_def example_bytes)
  ultimately show ?thesis
    unfolding firmware_given_def using example_tables(4) example_enables by (simp add: example_boot_def example_entries)
qed


section \<open>The main function\<close>

text \<open>After the start the main function says so, and then halts with a panic: nothing runs after \<^verbatim>\<open>Start\<close>.\<close>

lemma kmain_halts:
  fixes loc :: string
  assumes init: "Kernel_Initialize b m = Some (Inr m1)" and dev: "drains (port_dev b) (comPort (debugPort (kdata m1)))"
    and st: "init_status (debugPort (kdata m1)) = Inr ready"
  defines "line \<equiv> (if LogMessage INFO (kdata m1) then log_line INFO loc ''Kernel initialized successfully, starting main loop...'' else [])"
  shows "\<exists>m2. kmain b loc m = Some (Inr m2) \<and> \<not> kernel_interrupts (kdata m2) \<and> paging m2 = paging m1 \<and>
     framebufferConsole (kdata m2) = FB_Write (line @ ''Kernel panic: Kernel reached end of .Start()'') (framebufferConsole (kdata m1))"
proof -
  let ?msg = "''Kernel initialized successfully, starting main loop...''" and ?stop = "''Kernel reached end of .Start()''"
  have w: "WriteArgs (cstr ?msg []) [] = Inr ?msg" by (simp add: strlen_def)
  have n: "no_nul ?stop" by (simp add: no_nul_def)
  have "\<exists>new. LOG_MESSAGE (port_dev b) INFO loc (cstr ?msg []) [] (kdata m1) = Some (Inr ((kdata m1)\<lparr>debugPort := (debugPort (kdata m1))\<lparr>ports := new\<rparr>,
      framebufferConsole := FB_Write line (framebufferConsole (kdata m1))\<rparr>))"
  proof (cases "LogMessage INFO (kdata m1)")
    case True
    then show ?thesis using LOG_MESSAGE_line [OF w True, of "port_dev b" loc] Kernel_Log_both [OF dev st] by (auto simp: line_def)
  next
    case False
    then show ?thesis by (intro exI [of _ "ports (debugPort (kdata m1))"]) (simp add: LOG_MESSAGE_def line_def FB_Write_def)
  qed
  then obtain tr where k: "LOG_MESSAGE (port_dev b) INFO loc (cstr ?msg []) [] (kdata m1) = Some (Inr ((kdata m1)\<lparr>debugPort := (debugPort (kdata m1))\<lparr>ports := tr\<rparr>,
      framebufferConsole := FB_Write line (framebufferConsole (kdata m1))\<rparr>))" by blast
  define k1 where "k1 = (kdata m1)\<lparr>debugPort := (debugPort (kdata m1))\<lparr>ports := tr\<rparr>, framebufferConsole := FB_Write line (framebufferConsole (kdata m1))\<rparr>"
  have "drains (port_dev b) (comPort (debugPort k1))" "init_status (debugPort k1) = Inr ready" using dev st by (simp_all add: k1_def)
  from Kernel_Panic_halts [OF this n, of "[]"] obtain new where
    p: "Kernel_Panic (port_dev b) (cstr ?stop []) k1 = Some (Inr (k1\<lparr>kernel_interrupts := False, debugPort := (debugPort k1)\<lparr>ports := new\<rparr>,
       framebufferConsole := FB_Write (''Kernel panic: '' @ ?stop) (framebufferConsole k1)\<rparr>))" (is "_ = Some (Inr ?k2)") by blast
  have "kmain b loc m = Some (Inr (m1\<lparr>kdata := ?k2\<rparr>))" by (simp only: kmain_def init k [folded k1_def] p bindO_simps)
  moreover have "FB_Write (line @ ''Kernel panic: Kernel reached end of .Start()'') c = FB_Write (''Kernel panic: '' @ ?stop) (FB_Write line c)" for c
    unfolding FB_Write_append [symmetric] by simp
  ultimately show ?thesis by (simp add: k1_def)
qed

end
