(* ===== verification/Spinlock.thy ===== *)
theory Spinlock
  imports Prelude
begin

text \<open>
  The spinlock (\<^verbatim>\<open>Threading/Spinlock.cpp\<close>) on any number of CPUs, as a step relation: every atomic access
  to \<^verbatim>\<open>_locked\<close>, and every change of a CPU's interrupt flag, is one step, and the steps of different
  CPUs interleave freely. A CPU that holds the lock works on data shared with the others; its critical
  section reads the data in one step and writes it in another, so that nothing but the lock keeps
  two updates apart. The critical section stands for the body of any operation of the kernel that
  takes the lock through a \<^verbatim>\<open>ScopedLock\<close>.

  The atomic operations of \<^verbatim>\<open>_locked\<close> are sequentially consistent in the model; the acquire and release
  orderings of the code are what makes the accesses to the data stay inside the critical section.
\<close>

section \<open>CPUs and the lock\<close>

text \<open>
  Where a CPU is: outside; in \<^verbatim>\<open>Lock\<close> after reading the flags, in the inner waiting loop, before the
  compare-and-exchange; in the critical section before and after reading the data; in \<^verbatim>\<open>Unlock\<close> after
  the store.
\<close>

datatype 'd place =
    Outside | Saved | Waiting | Exchange | Critical | Loaded "'d \<Rightarrow> 'd" | Released

record 'd cpu =
  place :: "'d place"
  interrupts :: bool
  hadInterruptsEnabled :: bool
  stopInterrupts :: bool
  reenableInterrupts :: bool
  loaded :: 'd

record 'd lock_sys =
  locked :: bool
  cpus :: "nat \<Rightarrow> 'd cpu"
  shared :: 'd
  updates :: "('d \<Rightarrow> 'd) list"

definition on_cpu :: "nat \<Rightarrow> ('d cpu \<Rightarrow> 'd cpu) \<Rightarrow> 'd lock_sys \<Rightarrow> 'd lock_sys" where
  "on_cpu i f s = s\<lparr>cpus := (cpus s)(i := f (cpus s i))\<rparr>"

text \<open>The initial state: the constructor has stored false, and every CPU is outside.\<close>

definition initial :: "'d \<Rightarrow> 'd lock_sys \<Rightarrow> bool" where
  "initial d s \<longleftrightarrow> \<not> locked s \<and> shared s = d \<and> updates s = [] \<and>
     (\<forall>i. place (cpus s i) = Outside \<and> hadInterruptsEnabled (cpus s i) = interrupts (cpus s i))"

inductive lock_step :: "'d lock_sys \<Rightarrow> 'd lock_sys \<Rightarrow> bool" where
  flags: \<comment> \<open>code outside the lock changes the interrupt flag\<close>
    "place (cpus s i) = Outside \<Longrightarrow>
     lock_step s (on_cpu i (\<lambda>c. c\<lparr>interrupts := b, hadInterruptsEnabled := b\<rparr>) s)"
| enter: \<comment> \<open>\<open>hadInterruptsEnabled = AreInterruptsEnabled()\<close>\<close>
    "place (cpus s i) = Outside \<Longrightarrow>
     lock_step s (on_cpu i (\<lambda>c. c\<lparr>place := Saved, hadInterruptsEnabled := interrupts c, stopInterrupts := stop\<rparr>) s)"
| cli: \<comment> \<open>\<open>if (stopInterrupts) cli\<close>\<close>
    "place (cpus s i) = Saved \<Longrightarrow>
     lock_step s (on_cpu i (\<lambda>c. c\<lparr>place := Waiting, interrupts := interrupts c \<and> \<not> stopInterrupts c\<rparr>) s)"
| pause: \<comment> \<open>the inner loop sees the lock taken\<close>
    "place (cpus s i) = Waiting \<Longrightarrow> locked s \<Longrightarrow> lock_step s s"
| seen_free: \<comment> \<open>the inner loop sees the lock free\<close>
    "place (cpus s i) = Waiting \<Longrightarrow> \<not> locked s \<Longrightarrow> lock_step s (on_cpu i (\<lambda>c. c\<lparr>place := Exchange\<rparr>) s)"
| exchange_fails:
    "place (cpus s i) = Exchange \<Longrightarrow> locked s \<Longrightarrow> lock_step s (on_cpu i (\<lambda>c. c\<lparr>place := Waiting\<rparr>) s)"
| exchange_succeeds: \<comment> \<open>\<open>_locked\<close> becomes true; \<open>Lock\<close> returns \<open>stopInterrupts && hadInterruptsEnabled\<close>\<close>
    "place (cpus s i) = Exchange \<Longrightarrow> \<not> locked s \<Longrightarrow>
     lock_step s ((on_cpu i (\<lambda>c. c\<lparr>place := Critical,
                     reenableInterrupts := stopInterrupts c \<and> hadInterruptsEnabled c\<rparr>) s)\<lparr>locked := True\<rparr>)"
| load:
    "place (cpus s i) = Critical \<Longrightarrow>
     lock_step s (on_cpu i (\<lambda>c. c\<lparr>place := Loaded f, loaded := shared s\<rparr>) s)"
| store:
    "place (cpus s i) = Loaded f \<Longrightarrow>
     lock_step s ((on_cpu i (\<lambda>c. c\<lparr>place := Critical\<rparr>) s)
                    \<lparr>shared := f (loaded (cpus s i)), updates := updates s @ [f]\<rparr>)"
| release: \<comment> \<open>\<open>Unlock\<close> stores false\<close>
    "place (cpus s i) = Critical \<Longrightarrow>
     lock_step s ((on_cpu i (\<lambda>c. c\<lparr>place := Released\<rparr>) s)\<lparr>locked := False\<rparr>)"
| sti: \<comment> \<open>\<open>if (reenableInterrupts) sti\<close>\<close>
    "place (cpus s i) = Released \<Longrightarrow>
     lock_step s (on_cpu i (\<lambda>c. c\<lparr>place := Outside, interrupts := interrupts c \<or> reenableInterrupts c\<rparr>) s)"

definition reachable :: "'d \<Rightarrow> 'd lock_sys \<Rightarrow> bool" where
  "reachable d s \<longleftrightarrow> (\<exists>s0. initial d s0 \<and> lock_step\<^sup>*\<^sup>* s0 s)"

section \<open>The invariant\<close>

definition holds :: "'d cpu \<Rightarrow> bool" where
  "holds c \<longleftrightarrow> place c = Critical \<or> (\<exists>f. place c = Loaded f)"

text \<open>The interrupt flag of a CPU, at each place, in terms of the flag saved on entry.\<close>

definition cpu_ok :: "'d cpu \<Rightarrow> bool" where
  "cpu_ok c \<longleftrightarrow>
     (case place c of
        Outside \<Rightarrow> interrupts c = hadInterruptsEnabled c
      | Saved \<Rightarrow> interrupts c = hadInterruptsEnabled c
      | Waiting \<Rightarrow> interrupts c = (hadInterruptsEnabled c \<and> \<not> stopInterrupts c)
      | Exchange \<Rightarrow> interrupts c = (hadInterruptsEnabled c \<and> \<not> stopInterrupts c)
      | _ \<Rightarrow> interrupts c = (hadInterruptsEnabled c \<and> \<not> stopInterrupts c) \<and>
             reenableInterrupts c = (stopInterrupts c \<and> hadInterruptsEnabled c))"

definition lock_inv :: "'d \<Rightarrow> 'd lock_sys \<Rightarrow> bool" where
  "lock_inv d s \<longleftrightarrow>
     (\<forall>i j. holds (cpus s i) \<longrightarrow> holds (cpus s j) \<longrightarrow> i = j) \<and>
     (locked s \<longleftrightarrow> (\<exists>i. holds (cpus s i))) \<and>
     (\<forall>i. cpu_ok (cpus s i)) \<and>
     shared s = fold (\<lambda>f x. f x) (updates s) d \<and>
     (\<forall>i f. place (cpus s i) = Loaded f \<longrightarrow> loaded (cpus s i) = shared s)"

lemma on_cpu_simps [simp]:
  "cpus (on_cpu i f s) j = (if j = i then f (cpus s i) else cpus s j)"
  "locked (on_cpu i f s) = locked s" "shared (on_cpu i f s) = shared s" "updates (on_cpu i f s) = updates s"
  by (simp_all add: on_cpu_def)

lemma lock_inv_initial: "initial d s \<Longrightarrow> lock_inv d s"
  by (auto simp: initial_def lock_inv_def holds_def cpu_ok_def)

lemma Loaded_holds: "place c = Loaded f \<Longrightarrow> holds c"
  by (simp add: holds_def)

text \<open>
  A step of CPU \<open>i\<close> keeps the invariant when it takes the lock only from the free lock, when the lock
  word follows, and when the data changes only under the lock.
\<close>

lemma lock_inv_update:
  assumes inv: "lock_inv d s" and t: "cpus t = (cpus s)(i := c)" and ok: "cpu_ok c"
    and take: "holds c \<Longrightarrow> \<not> holds (cpus s i) \<Longrightarrow> \<not> locked s"
    and lock: "locked t \<longleftrightarrow> holds c \<or> locked s \<and> \<not> holds (cpus s i)"
    and data: "shared t = fold (\<lambda>f x. f x) (updates t) d" "shared t = shared s \<or> holds (cpus s i)"
    and load: "\<And>f. place c = Loaded f \<Longrightarrow> loaded c = shared t"
  shows "lock_inv d t"
proof -
  have ex: "\<And>i j. holds (cpus s i) \<Longrightarrow> holds (cpus s j) \<Longrightarrow> i = j"
    and lk: "locked s \<longleftrightarrow> (\<exists>i. holds (cpus s i))"
    and cs: "\<And>i. cpu_ok (cpus s i)"
    and ld: "\<And>i f. place (cpus s i) = Loaded f \<Longrightarrow> loaded (cpus s i) = shared s"
    using inv unfolding lock_inv_def by blast+
  have other: "\<not> holds (cpus s j)" if "holds c \<or> holds (cpus s i)" "j \<noteq> i" for j
    using that take lk ex by blast
  have "locked t \<longleftrightarrow> (\<exists>j. holds (cpus t j))"
  proof (cases "holds c")
    case True
    then have "holds (cpus t i)" using t by simp
    then show ?thesis using lock True by blast
  next
    case False
    then have "locked t \<longleftrightarrow> (\<exists>j. j \<noteq> i \<and> holds (cpus s j))" using lock lk other by metis
    moreover have "(\<exists>j. holds (cpus t j)) \<longleftrightarrow> (\<exists>j. j \<noteq> i \<and> holds (cpus s j))" using False t by auto
    ultimately show ?thesis by simp
  qed
  moreover have "loaded (cpus t j) = shared t" if "place (cpus t j) = Loaded f" for j f
  proof (cases "j = i")
    case False
    then have "holds (cpus s j)" "loaded (cpus s j) = shared s" using that t ld Loaded_holds by (auto simp: fun_upd_def)
    then show ?thesis using other False data(2) t by auto
  qed (use that t load in auto)
  moreover have "j = k" if "holds (cpus t j)" "holds (cpus t k)" for j k
    using that other ex t by (metis fun_upd_apply)
  moreover have "cpu_ok (cpus t j)" for j using cs ok t by simp
  ultimately show ?thesis unfolding lock_inv_def using data(1) by blast
qed

lemma lock_inv_step:
  assumes "lock_step s t" and inv: "lock_inv d s"
  shows "lock_inv d t"
proof -
  have c: "cpu_ok (cpus s i)" and h: "holds (cpus s i) \<Longrightarrow> locked s"
    and sh: "shared s = fold (\<lambda>f x. f x) (updates s) d"
    and ld: "place (cpus s i) = Loaded f \<Longrightarrow> loaded (cpus s i) = shared s" for i f
    using inv unfolding lock_inv_def by blast+
  note upd = lock_inv_update [OF inv]
  show ?thesis
    using assms(1)
  proof (cases rule: lock_step.cases)
    case (flags i b)
    then show ?thesis by (intro upd [of t i]) (use sh in \<open>auto simp: on_cpu_def cpu_ok_def holds_def\<close>)
  next
    case (enter i stop)
    then show ?thesis by (intro upd [of t i]) (use sh c [of i] in \<open>auto simp: on_cpu_def cpu_ok_def holds_def\<close>)
  next
    case (cli i)
    then show ?thesis by (intro upd [of t i]) (use sh c [of i] in \<open>auto simp: on_cpu_def cpu_ok_def holds_def\<close>)
  next
    case (pause i)
    then show ?thesis using inv by simp
  next
    case (seen_free i)
    then show ?thesis by (intro upd [of t i]) (use sh c [of i] in \<open>auto simp: on_cpu_def cpu_ok_def holds_def\<close>)
  next
    case (exchange_fails i)
    then show ?thesis by (intro upd [of t i]) (use sh c [of i] in \<open>auto simp: on_cpu_def cpu_ok_def holds_def\<close>)
  next
    case (exchange_succeeds i)
    then show ?thesis by (intro upd [of t i]) (use sh c [of i] in \<open>auto simp: on_cpu_def cpu_ok_def holds_def\<close>)
  next
    case (load i f)
    then show ?thesis by (intro upd [of t i]) (use sh c [of i] h [of i] in \<open>auto simp: on_cpu_def cpu_ok_def holds_def\<close>)
  next
    case (store i f)
    then show ?thesis
      by (intro upd [of t i]) (use sh c [of i] h [of i] ld [of i f] in \<open>auto simp: on_cpu_def cpu_ok_def holds_def\<close>)
  next
    case (release i)
    then show ?thesis by (intro upd [of t i]) (use sh c [of i] h [of i] in \<open>auto simp: on_cpu_def cpu_ok_def holds_def\<close>)
  next
    case (sti i)
    then show ?thesis by (intro upd [of t i]) (use sh c [of i] in \<open>auto simp: on_cpu_def cpu_ok_def holds_def\<close>)
  qed
qed

lemma reachable_inv:
  assumes "reachable d s"
  shows "lock_inv d s"
proof -
  obtain s0 where "initial d s0" and steps: "lock_step\<^sup>*\<^sup>* s0 s" using assms by (auto simp: reachable_def)
  then have "lock_inv d s0" by (simp add: lock_inv_initial)
  with steps show ?thesis by induction (auto intro: lock_inv_step)
qed

section \<open>Data guarded by a lock\<close>

text \<open>
  What a component promises when it takes the lock around every operation: each of its operations keeps
  the representation invariant of the data. Then the invariant holds between critical sections, however
  the CPUs interleave.
\<close>

locale guarded_component =
  fixes data_inv :: "'d \<Rightarrow> bool"
    and ops :: "('d \<Rightarrow> 'd) set"
  assumes op_inv: "f \<in> ops \<Longrightarrow> data_inv x \<Longrightarrow> data_inv (f x)"
begin

lemma fold_ops: "set fs \<subseteq> ops \<Longrightarrow> data_inv x \<Longrightarrow> data_inv (fold (\<lambda>f x. f x) fs x)"
  by (induction fs arbitrary: x) (auto intro: op_inv)

lemma shared_inv: "reachable d s \<Longrightarrow> data_inv d \<Longrightarrow> set (updates s) \<subseteq> ops \<Longrightarrow> data_inv (shared s)"
  using fold_ops reachable_inv by (metis lock_inv_def)

end

section \<open>Properties\<close>

text \<open>
  C21. Mutual exclusion and no lost updates, for any number of CPUs and any interleaving: at most one CPU
  is in the critical section, the lock word is set exactly when some CPU is, and the shared data is always the
  result of running the critical sections finished so far one after the other, although each of
  them reads and writes the data in separate steps.
\<close>

theorem spinlock_serializes:
  assumes "reachable d s"
  shows "(\<forall>i j. holds (cpus s i) \<and> holds (cpus s j) \<longrightarrow> i = j) \<and> (locked s \<longleftrightarrow> (\<exists>i. holds (cpus s i))) \<and>
         shared s = fold (\<lambda>f x. f x) (updates s) d"
  using reachable_inv [OF assms] unfolding lock_inv_def by blast

text \<open>A run of two CPUs: both pass the waiting loop, then the first takes the lock.\<close>

definition two_cpus :: "nat lock_sys" where
  "two_cpus = \<lparr>locked = False, cpus = (\<lambda>_. \<lparr>place = Outside, interrupts = True, hadInterruptsEnabled = True,
     stopInterrupts = False, reenableInterrupts = False, loaded = 0\<rparr>), shared = 0, updates = []\<rparr>"

lemma initial_two_cpus: "initial 0 two_cpus"
  by (simp add: initial_def two_cpus_def)

lemma reachable_step: "reachable d s \<Longrightarrow> lock_step s t \<Longrightarrow> reachable d t"
  unfolding reachable_def by (meson rtranclp.rtrancl_into_rtrancl)

lemma reachable_steps: "reachable d s \<Longrightarrow> lock_step\<^sup>*\<^sup>* s t \<Longrightarrow> reachable d t"
  unfolding reachable_def by (meson rtranclp_trans)

lemma reachable_two_cpus: "reachable 0 two_cpus"
  unfolding reachable_def using initial_two_cpus by blast

lemma steps_one: "lock_step s t \<Longrightarrow> lock_step\<^sup>*\<^sup>* s t"
  by (rule r_into_rtranclp)

lemma steps_cons: "lock_step s t \<Longrightarrow> lock_step\<^sup>*\<^sup>* t u \<Longrightarrow> lock_step\<^sup>*\<^sup>* s u"
  by (rule converse_rtranclp_into_rtranclp)

text \<open>Entering on a free lock, as one sequence of steps.\<close>

lemma lock_path:
  assumes "place (cpus s i) = Waiting" and "\<not> locked s"
  shows "\<exists>t. lock_step\<^sup>*\<^sup>* s t \<and> place (cpus t i) = Critical \<and> updates t = updates s"
proof -
  let ?t = "on_cpu i (\<lambda>c. c\<lparr>place := Exchange\<rparr>) s"
  have 1: "lock_step s ?t" using assms by (rule lock_step.seen_free)
  have "place (cpus ?t i) = Exchange" "\<not> locked ?t" using assms by simp_all
  note 2 = lock_step.exchange_succeeds [OF this]
  show ?thesis
    by (rule exI, rule conjI, rule steps_cons [OF 1], rule steps_one [OF 2]) simp
qed

lemma wait_path:
  assumes "place (cpus s i) = Outside"
  shows "\<exists>t. lock_step\<^sup>*\<^sup>* s t \<and> place (cpus t i) = Waiting \<and> stopInterrupts (cpus t i) \<and> locked t = locked s \<and> updates t = updates s"
proof -
  let ?t = "on_cpu i (\<lambda>c. c\<lparr>place := Saved, hadInterruptsEnabled := interrupts c, stopInterrupts := True\<rparr>) s"
  have 1: "lock_step s ?t" using assms by (rule lock_step.enter)
  have "place (cpus ?t i) = Saved" by simp
  note 2 = lock_step.cli [OF this]
  show ?thesis
    by (rule exI, rule conjI, rule steps_cons [OF 1], rule steps_one [OF 2]) simp
qed

lemma reachable_critical: "\<exists>s. reachable (0 :: nat) s \<and> place (cpus s 1) = Critical"
proof -
  have "place (cpus two_cpus 1) = Outside" by (simp add: two_cpus_def)
  from wait_path [OF this] obtain s where s: "lock_step\<^sup>*\<^sup>* two_cpus s" "place (cpus s 1) = Waiting" "locked s = locked two_cpus"
    by blast
  then have "\<not> locked s" by (simp add: two_cpus_def)
  from lock_path [OF s(2) this] obtain t where t: "lock_step\<^sup>*\<^sup>* s t" "place (cpus t 1) = Critical" by blast
  show ?thesis using reachable_steps [OF reachable_steps [OF reachable_two_cpus s(1)] t(1)] t(2) by blast
qed

theorem spinlock_serializes_witness:
  "\<exists>s. reachable (0 :: nat) s \<and> holds (cpus s 1) \<and> locked s \<and> \<not> holds (cpus s 0)"
proof -
  obtain s where s: "reachable (0 :: nat) s" "place (cpus s 1) = Critical" using reachable_critical by blast
  then have "holds (cpus s 1)" by (simp add: holds_def)
  with spinlock_serializes [OF s(1)] s(1) show ?thesis by fastforce
qed

text \<open>
  C22. The interrupt flag. While a CPU holds a lock it took with \<open>stopInterrupts\<close>, its interrupts are off, so
  no interrupt handler can run there and spin on the same lock; and once it is outside again, its
  interrupt flag is what \<open>Lock\<close> found on entry (\<open>hadInterruptsEnabled\<close>), whether interrupts were on or off.
\<close>

theorem spinlock_interrupt_flag:
  assumes "reachable d s"
  shows "(holds (cpus s i) \<and> stopInterrupts (cpus s i) \<longrightarrow> \<not> interrupts (cpus s i)) \<and>
         (place (cpus s i) = Outside \<longrightarrow> interrupts (cpus s i) = hadInterruptsEnabled (cpus s i))"
proof -
  have "cpu_ok (cpus s i)" using reachable_inv [OF assms] by (simp add: lock_inv_def)
  then show ?thesis by (auto simp: cpu_ok_def holds_def)
qed

theorem spinlock_interrupt_flag_witness:
  "\<exists>s. reachable (0 :: nat) s \<and> place (cpus s 0) = Outside \<and> interrupts (cpus s 0) = hadInterruptsEnabled (cpus s 0)"
  using spinlock_interrupt_flag [OF reachable_two_cpus, of 0] reachable_two_cpus by (auto simp: two_cpus_def)

text \<open>
  C23. No deadlock: from every reachable state, a CPU that waits for the lock can still get it. If
  another CPU holds the lock, finishing its critical section releases it, and then the waiting CPU's
  compare-and-exchange succeeds.
\<close>

lemma release_path:
  assumes "holds (cpus s j)"
  shows "\<exists>t. lock_step\<^sup>*\<^sup>* s t \<and> \<not> locked t \<and> (\<forall>i. i \<noteq> j \<longrightarrow> cpus t i = cpus s i)"
proof -
  have crit: "\<exists>t. lock_step\<^sup>*\<^sup>* s t \<and> \<not> locked t \<and> (\<forall>i. i \<noteq> j \<longrightarrow> cpus t i = cpus s i)" if "place (cpus s j) = Critical" for s :: "'d lock_sys"
    by (rule exI, rule conjI, rule steps_one [OF lock_step.release [OF that]]) simp
  show ?thesis
  proof (cases "place (cpus s j) = Critical")
    case False
    then obtain f where f: "place (cpus s j) = Loaded f" using assms by (auto simp: holds_def)
    let ?u = "(on_cpu j (\<lambda>c. c\<lparr>place := Critical\<rparr>) s)\<lparr>shared := f (loaded (cpus s j)), updates := updates s @ [f]\<rparr>"
    have u: "lock_step s ?u" using f by (rule lock_step.store)
    have "place (cpus ?u j) = Critical" by simp
    from crit [OF this] obtain t where "lock_step\<^sup>*\<^sup>* ?u t" "\<not> locked t" "\<forall>i. i \<noteq> j \<longrightarrow> cpus t i = cpus ?u i" by blast
    then show ?thesis using steps_cons [OF u] by (intro exI [of _ t]) simp
  qed (use crit in blast)
qed

theorem spinlock_no_deadlock:
  assumes "reachable d s" and "place (cpus s i) = Waiting"
  shows "\<exists>t. lock_step\<^sup>*\<^sup>* s t \<and> holds (cpus t i)"
proof (cases "locked s")
  case False
  then show ?thesis using lock_path [OF assms(2)] by (auto simp: holds_def)
next
  case True
  then obtain j where j: "holds (cpus s j)" using reachable_inv [OF assms(1)] by (auto simp: lock_inv_def)
  then have "i \<noteq> j" using assms(2) by (auto simp: holds_def)
  from release_path [OF j] obtain t where t: "lock_step\<^sup>*\<^sup>* s t" "\<not> locked t" "\<forall>i. i \<noteq> j \<longrightarrow> cpus t i = cpus s i" by blast
  then have "place (cpus t i) = Waiting" using assms(2) \<open>i \<noteq> j\<close> by simp
  from lock_path [OF this t(2)] t(1) show ?thesis by (meson holds_def rtranclp_trans)
qed

theorem spinlock_no_deadlock_witness:
  "\<exists>s t. reachable (0 :: nat) s \<and> place (cpus s 0) = Waiting \<and> lock_step\<^sup>*\<^sup>* s t \<and> holds (cpus t 0)"
proof -
  have "place (cpus two_cpus 0) = Outside" by (simp add: two_cpus_def)
  from wait_path [OF this] obtain s where s: "lock_step\<^sup>*\<^sup>* two_cpus s" "place (cpus s 0) = Waiting" by blast
  have "reachable 0 s" by (rule reachable_steps [OF reachable_two_cpus s(1)])
  with spinlock_no_deadlock [OF this s(2)] s(2) show ?thesis by blast
qed

end
