(* ===== verification/Concurrent_Memory.thy ===== *)
theory Concurrent_Memory
  imports Spinlock Physical_Memory
begin

text \<open>
  The physical memory manager under its lock. \<^verbatim>\<open>AllocatePages\<close> and \<^verbatim>\<open>FreePages\<close> run with a \<^verbatim>\<open>ScopedLock\<close> on the same spinlock
  (\<^verbatim>\<open>PhysicalMemoryManager.cpp\<close>), so each call is one critical section of the step relation of the spinlock. Beside the manager, the shared
  data records which CPU has been given which frames; a CPU frees only frames it was given.
\<close>

section \<open>Calls of the memory manager as critical sections\<close>

type_synonym memory = "PhysicalMemoryManager \<times> (nat \<Rightarrow> nat set)"

definition page_range :: "u64 \<Rightarrow> u64 \<Rightarrow> nat set" where
  "page_range a n = {unat a div 4096..<unat a div 4096 + unat n}"

definition alloc_by :: "nat \<Rightarrow> u64 \<Rightarrow> memory \<Rightarrow> memory" where
  "alloc_by i n = (\<lambda>(p, own). case AllocatePages n p of
     Inr (a, p') \<Rightarrow> (p', if a = 0 then own else own(i := own i \<union> page_range a n))
   | Inl _ \<Rightarrow> (p, own))"

definition may_free :: "nat \<Rightarrow> u64 \<Rightarrow> u64 \<Rightarrow> memory \<Rightarrow> bool" where
  "may_free i a n = (\<lambda>(p, own). n \<noteq> 0 \<and> a mod PageSize = 0 \<and> page_range a n \<subseteq> own i)"

definition free_by :: "nat \<Rightarrow> u64 \<Rightarrow> u64 \<Rightarrow> memory \<Rightarrow> memory" where
  "free_by i a n = (\<lambda>(p, own). if may_free i a n (p, own)
     then (case FreePages a n p of Inr p' \<Rightarrow> (p', own(i := own i - page_range a n)) | Inl _ \<Rightarrow> (p, own))
     else (p, own))"

definition memory_calls :: "(memory \<Rightarrow> memory) set" where
  "memory_calls = {alloc_by i n | i n. n \<noteq> 0} \<union> {free_by i a n | i a n. True}"

text \<open>The invariant: the manager is well formed, what a CPU was given is allocated, and no frame is given to two CPUs.\<close>

definition memory_inv :: "memory \<Rightarrow> bool" where
  "memory_inv = (\<lambda>(p, own). pmm_wf p \<and> (\<forall>i. own i \<subseteq> allocated_set p) \<and> (\<forall>i j. i \<noteq> j \<longrightarrow> own i \<inter> own j = {}))"

section \<open>The calls keep the invariant\<close>

lemma memory_invD:
  assumes "memory_inv (p, own)"
  shows "pmm_wf p" and "own i \<subseteq> allocated_set p" and "i \<noteq> j \<Longrightarrow> own i \<inter> own j = {}"
  using assms by (simp_all add: memory_inv_def)

text \<open>Giving CPU \<open>i\<close> another set of frames.\<close>

lemma memory_inv_update:
  assumes "memory_inv (p, own)" and "pmm_wf p'" and "X \<subseteq> allocated_set p'"
    and "\<And>j. j \<noteq> i \<Longrightarrow> own j \<subseteq> allocated_set p' \<and> own j \<inter> X = {}"
  shows "memory_inv (p', own(i := X))"
proof -
  have "(own(i := X)) k \<inter> (own(i := X)) j = {}" if "k \<noteq> j" for k j
    using assms(4) [of k] assms(4) [of j] memory_invD(3) [OF assms(1) that] that
    by (cases "k = i"; cases "j = i") (simp_all add: Int_commute)
  moreover have "(own(i := X)) j \<subseteq> allocated_set p'" for j using assms(3,4) by (cases "j = i") simp_all
  ultimately show ?thesis using assms(2) unfolding memory_inv_def by blast
qed

lemma FreePages_owned:
  assumes "memory_inv (p, own)" and "may_free i a n (p, own)"
  shows "\<exists>p'. FreePages a n p = Inr p' \<and> pmm_wf p' \<and> allocated_set p' = allocated_set p - page_range a n"
proof -
  have n: "n \<noteq> 0" and al: "a mod PageSize = 0" and "page_range a n \<subseteq> own i"
    using assms(2) by (simp_all add: may_free_def)
  then have sub: "page_range a n \<subseteq> allocated_set p" using memory_invD(2) [OF assms(1), of i] by blast
  note wf = memory_invD(1) [OF assms(1)]
  have "a = of_nat (unat a div 4096) * PageSize" using aligned_start(1) [OF al] .
  then show ?thesis using FreePages_ok [OF wf sub [unfolded page_range_def] n] by (auto simp: page_range_def)
qed

lemma alloc_by_inv:
  assumes inv: "memory_inv (p, own)" and "n \<noteq> 0"
  shows "memory_inv (alloc_by i n (p, own))"
proof -
  note wf = memory_invD(1) [OF inv] and own = memory_invD(2) [OF inv] and dis = memory_invD(3) [OF inv]
  obtain a p' where run: "AllocatePages n p = Inr (a, p')" using AllocatePages_returns [OF wf assms(2)] by blast
  from wf assms(2) run show ?thesis
  proof (cases rule: AllocatePages_cases)
    case none
    then show ?thesis using run inv by (simp add: alloc_by_def)
  next
    case (some st)
    have "st \<in> {st..<st + unat n}" using assms(2) by (simp add: unat_gt_0)
    then have "st \<in> free_set p" using some(5) by blast
    then have st: "st < 2 ^ 40" "0 < st" using free_frame_bounds [OF wf, of st] by simp_all
    then have R: "page_range a n = {st..<st + unat n}" using some(1) frame_addr_unat [OF st(1)] by (simp add: page_range_def)
    have "allocated_set p \<inter> page_range a n = {}" using some(5) R free_set_disjoint(2) [of p] by blast
    then have new: "own j \<inter> page_range a n = {}" for j using own [of j] by blast
    have "a \<noteq> 0" using some(1) st frame_addr_zero_iff [OF st(1)] by simp
    then have "alloc_by i n (p, own) = (p', own(i := own i \<union> page_range a n))" using run by (simp add: alloc_by_def)
    moreover have "own i \<union> page_range a n \<subseteq> allocated_set p'" using own [of i] some(6) R by blast
    moreover have "own j \<subseteq> allocated_set p' \<and> own j \<inter> (own i \<union> page_range a n) = {}" if "j \<noteq> i" for j
      using own [of j] some(6) new [of j] dis [OF that] by blast
    ultimately show ?thesis using memory_inv_update [OF inv some(3), of "own i \<union> page_range a n" i] by simp
  qed
qed

lemma free_by_inv:
  assumes inv: "memory_inv (p, own)"
  shows "memory_inv (free_by i a n (p, own))"
proof (cases "may_free i a n (p, own)")
  case True
  from FreePages_owned [OF inv True] obtain p' where p': "FreePages a n p = Inr p'" "pmm_wf p'"
    "allocated_set p' = allocated_set p - page_range a n" by blast
  have "page_range a n \<subseteq> own i" using True by (simp add: may_free_def)
  then have "own j \<subseteq> allocated_set p' \<and> own j \<inter> (own i - page_range a n) = {}" if "j \<noteq> i" for j
    using memory_invD(3) [OF inv that] memory_invD(2) [OF inv, of j] p'(3) by blast
  moreover have "own i - page_range a n \<subseteq> allocated_set p'" using memory_invD(2) [OF inv, of i] p'(3) by blast
  ultimately show ?thesis using memory_inv_update [OF inv p'(2), of "own i - page_range a n" i] True p'(1) by (simp add: free_by_def)
qed (use inv in \<open>simp add: free_by_def\<close>)

interpretation memory: guarded_component memory_inv memory_calls
proof (unfold_locales, goal_cases)
  case (1 f x)
  then show ?case by (cases x) (auto simp: memory_calls_def intro: alloc_by_inv free_by_inv)
qed

section \<open>Property\<close>

text \<open>
  C38. Frames are never handed out twice, for any number of CPUs and any interleaving of the steps of the lock. When
  every finished critical section is a call of \<^verbatim>\<open>AllocatePages\<close>, or of \<^verbatim>\<open>FreePages\<close> for frames the caller was
  given, the manager's invariant holds, the frames of different CPUs are disjoint and all marked as allocated,
  and a CPU that frees what it was given never reaches one of the panics of \<^verbatim>\<open>FreePages\<close>.
\<close>

theorem frames_exclusive:
  assumes "reachable (p0, \<lambda>_. {}) s" and "pmm_wf p0" and "set (updates s) \<subseteq> memory_calls"
  shows "pmm_wf (fst (shared s)) \<and> (\<forall>i. snd (shared s) i \<subseteq> allocated_set (fst (shared s))) \<and>
    (\<forall>i j. i \<noteq> j \<longrightarrow> snd (shared s) i \<inter> snd (shared s) j = {}) \<and>
    (\<forall>i a n. may_free i a n (shared s) \<longrightarrow> (\<exists>p'. FreePages a n (fst (shared s)) = Inr p' \<and> pmm_wf p'))"
proof -
  have "memory_inv (p0, \<lambda>_. {})" using assms(2) by (simp add: memory_inv_def)
  from memory.shared_inv [OF assms(1) this assms(3)] have inv: "memory_inv (fst (shared s), snd (shared s))" by simp
  show ?thesis using memory_invD [OF inv] FreePages_owned [OF inv] by (metis prod.collapse)
qed

text \<open>One CPU takes the lock and allocates two frames.\<close>

lemma example_run:
  fixes d :: 'd and f :: "'d \<Rightarrow> 'd"
  shows "\<exists>s. reachable d s \<and> updates s = [f]"
proof -
  define s0 :: "'d lock_sys" where
    "s0 = \<lparr>locked = False, cpus = (\<lambda>_. \<lparr>place = Outside, interrupts = True, hadInterruptsEnabled = True,
       stopInterrupts = False, reenableInterrupts = False, loaded = d\<rparr>), shared = d, updates = []\<rparr>"
  have r0: "reachable d s0" unfolding reachable_def by (rule exI [of _ s0]) (simp add: initial_def s0_def)
  have "place (cpus s0 0) = Outside" by (simp add: s0_def)
  from wait_path [OF this] obtain s where s: "lock_step\<^sup>*\<^sup>* s0 s" "place (cpus s 0) = Waiting" "\<not> locked s" "updates s = []"
    by (auto simp: s0_def)
  from lock_path [OF s(2,3)] obtain t where t: "lock_step\<^sup>*\<^sup>* s t" "place (cpus t 0) = Critical" "updates t = []" using s(4) by auto
  note u = lock_step.load [OF t(2), of f]
  have "place (cpus (on_cpu 0 (\<lambda>c. c\<lparr>place := Loaded f, loaded := shared t\<rparr>) t) 0) = Loaded f" by simp
  note v = lock_step.store [OF this]
  have "reachable d t" using reachable_steps [OF reachable_steps [OF r0 s(1)] t(1)] .
  from reachable_step [OF reachable_step [OF this u] v] show ?thesis
    by (intro exI conjI) (assumption, simp add: t(3))
qed

theorem frames_exclusive_witness:
  "\<exists>s. reachable (example_pmm, \<lambda>_. {}) s \<and> updates s = [alloc_by 0 2] \<and> pmm_wf (fst (shared s)) \<and>
     snd (shared s) 0 \<inter> snd (shared s) 1 = {}"
proof -
  obtain s where s: "reachable (example_pmm, \<lambda>_. {}) s" "updates s = [alloc_by 0 2]"
    using example_run [of "(example_pmm, \<lambda>_. {})" "alloc_by 0 2"] by blast
  have "alloc_by 0 2 \<in> memory_calls" unfolding memory_calls_def by (rule UnI1, rule CollectI, intro exI conjI, rule refl) simp
  then have "set (updates s) \<subseteq> memory_calls" using s(2) by simp
  from frames_exclusive [OF s(1) example_pmm_wf this] have "pmm_wf (fst (shared s))" "snd (shared s) 0 \<inter> snd (shared s) 1 = {}"
    using zero_neq_one [where 'a = nat] by blast+
  with s show ?thesis by blast
qed

end
