(* ===== verification/Double_Text.thy ===== *)
theory Double_Text
  imports Formatter
begin

text \<open>
  The text of floating point numbers (\<^verbatim>\<open>WriteDouble\<close> and \<^verbatim>\<open>WriteFloat\<close> of \<^verbatim>\<open>Utility/Formatter.cpp\<close>): the loop
  over the decimals never reads outside its table of digits, the integer part is exact, and the six
  decimals are those of the number cut off after the sixth, exactly for every \<^verbatim>\<open>float\<close> and for every
  \<^verbatim>\<open>double\<close> from 4 on, and up to the rounding of the six multiplications for the others.
\<close>

section \<open>The loop on natural numbers\<close>

text \<open>The fractions the loop goes through and the decimals it writes, in units and without the faults.\<close>

fun decimals :: "nat \<Rightarrow> nat \<Rightarrow> nat list" where
  "decimals 0 f = []"
| "decimals (Suc i) f = round_units (f * 10) div unit_count # decimals i (round_units (f * 10) mod unit_count)"

fun last_frac :: "nat \<Rightarrow> nat \<Rightarrow> nat" where
  "last_frac 0 f = f"
| "last_frac (Suc i) f = last_frac i (round_units (f * 10) mod unit_count)"

lemma int_of_double_nat: "int_of_double lo hi (int n) =
  (if lo \<le> int (n div unit_count) \<and> int (n div unit_count) \<le> hi then Inr (int (n div unit_count)) else Inl BadCast)"
  by (cases "n = 0") (simp_all add: int_of_double_def Let_def zdiv_int sgn_if)

lemma minus_floor:
  assumes "representable n"
  shows "double_minus (int n) (double_of_int (int (n div unit_count))) = int (n mod unit_count)"
proof -
  have "double_of_int (int (n div unit_count)) = int (n div unit_count * unit_count)"
    using round_units_exact [OF representable_unit(2) [OF assms]]
    unfolding double_of_int_def by (simp flip: of_nat_mult)
  then have "int n - double_of_int (int (n div unit_count)) = int (n mod unit_count)"
    by (simp add: minus_div_mult_eq_mod [symmetric] of_nat_diff)
  then show ?thesis using round_units_exact [OF representable_unit(1) [OF assms]] by (simp add: double_minus_def)
qed

lemma mod_unit_less: "n mod unit_count < unit_count"
  by (rule mod_less_divisor) simp

lemma decimals_less: "representable f \<Longrightarrow> f < unit_count \<Longrightarrow> d \<in> set (decimals i f) \<Longrightarrow> d < 10"
proof (induction i arbitrary: f)
  case (Suc i)
  have "round_units (f * 10) div unit_count < 10"
    using round_times_ten_less [OF Suc.prems(1,2)] by (simp add: div_less_iff_less_mult)
  then show ?case
    using Suc.prems(3) Suc.IH [OF representable_unit(1) [OF round_units_representable] mod_unit_less] by auto
qed simp

lemma frac_loop_decimals:
  "representable f \<Longrightarrow> f < unit_count \<Longrightarrow> frac_loop i (int f) = Inr (map digit (decimals i f))"
proof (induction i arbitrary: f)
  case (Suc i)
  define g where "g = round_units (f * 10)"
  have g: "representable g" "g div unit_count < 10"
    using round_units_representable decimals_less [OF Suc.prems, of "g div unit_count" "Suc i"] by (simp_all add: g_def)
  have m: "double_mult (int f) 10 = int g" using round_double_nat [of "f * 10"] by (simp add: double_mult_def g_def)
  have "int_of_double (- (2 ^ 31)) (2 ^ 31 - 1) (int g) = Inr (int (g div unit_count))"
    using g(2) by (simp add: int_of_double_nat)
  then show ?case
    using g Suc.IH [OF representable_unit(1) [OF g(1)] mod_unit_less] digit_facts [of "g div unit_count"] minus_floor [OF g(1)]
    by (simp add: m flip: g_def)
qed simp

section \<open>The decimals as a number\<close>

fun dec_value :: "nat list \<Rightarrow> nat" where
  "dec_value [] = 0"
| "dec_value (d # ds) = d * 10 ^ length ds + dec_value ds"

text \<open>A number as decimals of a fixed count, with leading zeros.\<close>

fun fixed_text :: "nat \<Rightarrow> nat \<Rightarrow> string" where
  "fixed_text 0 k = []"
| "fixed_text (Suc i) k = digit (k div 10 ^ i) # fixed_text i (k mod 10 ^ i)"

lemma length_decimals [simp]: "length (decimals i f) = i"
  by (induction i arbitrary: f) simp_all

lemma dec_value_less: "\<forall>d \<in> set ds. d < 10 \<Longrightarrow> dec_value ds < 10 ^ length ds"
proof (induction ds)
  case (Cons d ds)
  then have "d * 10 ^ length ds + dec_value ds < (d + 1) * 10 ^ length ds" by simp
  also have "\<dots> \<le> 10 * 10 ^ length ds" using Cons.prems by (intro mult_le_mono1) auto
  finally show ?case by simp
qed simp

lemma fixed_text_value: "\<forall>d \<in> set ds. d < 10 \<Longrightarrow> fixed_text (length ds) (dec_value ds) = map digit ds"
proof (induction ds)
  case (Cons d ds)
  then show ?case using dec_value_less [of ds] by simp
qed simp

lemma fixed_textI: "\<forall>d \<in> set ds. d < 10 \<Longrightarrow> length ds = i \<Longrightarrow> dec_value ds = k \<Longrightarrow> fixed_text i k = map digit ds"
  using fixed_text_value by blast

lemma last_frac_less: "f < unit_count \<Longrightarrow> last_frac i f < unit_count"
  by (induction i arbitrary: f) (simp_all add: mod_unit_less)

text \<open>The error of the steps, each ten times as large in the next one.\<close>

fun error_bound :: "nat \<Rightarrow> nat" where
  "error_bound 0 = 0"
| "error_bound (Suc i) = error_bound i + 10 ^ i * rounding_error"

lemma decimals_near:
  "f < unit_count \<Longrightarrow>
    10 ^ i * f \<le> dec_value (decimals i f) * unit_count + last_frac i f + error_bound i \<and>
    dec_value (decimals i f) * unit_count + last_frac i f \<le> 10 ^ i * f + error_bound i"
proof (induction i arbitrary: f)
  case (Suc i)
  define g d f' where "g = round_units (f * 10)" and "d = g div unit_count" and "f' = g mod unit_count"
  define v where "v = dec_value (decimals i f') * unit_count + last_frac i f'"
  have "f' < unit_count" by (simp add: f'_def mod_unit_less)
  note ih = Suc.IH [OF this, folded v_def]
  have "g = d * unit_count + f'" by (simp add: d_def f'_def)
  then have g: "10 ^ i * g = 10 ^ i * d * unit_count + 10 ^ i * f'" by (simp only: distrib_left mult.assoc)
  have "10 ^ i * (f * 10) \<le> 10 ^ i * (g + rounding_error)" "10 ^ i * g \<le> 10 ^ i * (f * 10 + rounding_error)"
    using round_times_ten [OF Suc.prems] by (simp_all add: g_def)
  then have "10 ^ i * (f * 10) \<le> 10 ^ i * g + 10 ^ i * rounding_error" "10 ^ i * g \<le> 10 ^ i * (f * 10) + 10 ^ i * rounding_error"
    by (simp_all only: distrib_left)
  then have "10 ^ i * (f * 10) \<le> 10 ^ i * d * unit_count + v + error_bound (Suc i)"
      "10 ^ i * d * unit_count + v \<le> 10 ^ i * (f * 10) + error_bound (Suc i)"
    using ih g by simp_all
  then show ?case by (simp add: v_def algebra_simps flip: g_def d_def f'_def)
qed simp

section \<open>Exact decimals\<close>

text \<open>When no multiplication rounds, the decimals are those of the number.\<close>

fun exact_steps :: "nat \<Rightarrow> nat \<Rightarrow> bool" where
  "exact_steps 0 f \<longleftrightarrow> True"
| "exact_steps (Suc i) f \<longleftrightarrow> representable (f * 10) \<and> exact_steps i (f * 10 mod unit_count)"

lemma decimals_exact: "exact_steps i f \<Longrightarrow> f < unit_count \<Longrightarrow> dec_value (decimals i f) = 10 ^ i * f div unit_count"
proof (induction i arbitrary: f)
  case (Suc i)
  have r: "round_units (f * 10) = f * 10" using Suc.prems(1) by (simp add: round_units_exact)
  define d f' where "d = f * 10 div unit_count" and "f' = f * 10 mod unit_count"
  have "10 ^ Suc i * f = 10 ^ i * (f * 10)" by simp
  also have "f * 10 = f' + d * unit_count" by (simp add: d_def f'_def)
  finally have "10 ^ Suc i * f = 10 ^ i * f' + (10 ^ i * d) * unit_count" by (simp only: distrib_left mult.assoc)
  then have "10 ^ Suc i * f div unit_count = 10 ^ i * d + 10 ^ i * f' div unit_count" by simp
  moreover have "dec_value (decimals i f') = 10 ^ i * f' div unit_count"
    using Suc by (simp add: f'_def mod_unit_less)
  ultimately show ?case by (simp add: r flip: d_def f'_def)
qed simp

text \<open>No step rounds on multiples of \<open>2 ^ -50\<close>, and none on numbers with few significant bits.\<close>

lemma exact_steps_grid: "rounding_error dvd f \<Longrightarrow> f < unit_count \<Longrightarrow> exact_steps i f"
proof (induction i arbitrary: f)
  case (Suc i)
  then obtain c where c: "f = rounding_error * c" by (auto elim: dvdE)
  have "0 < rounding_error" by (simp add: rounding_error_def)
  then have "c < 2 ^ 50" using Suc.prems(2) unfolding c unit_count_error by simp
  then have "representable (f * 10)"
    unfolding c by (intro representableI [of "5 * c" _ 1025]) (simp_all add: rounding_error_def)
  moreover have "rounding_error dvd f * 10 mod unit_count"
    using Suc.prems(1) by (intro dvd_mod) (simp_all add: unit_count_error)
  ultimately show ?case using Suc.IH by (simp add: mod_unit_less)
qed simp

definition few_bits :: "nat \<Rightarrow> nat \<Rightarrow> bool" where
  "few_bits i f \<longleftrightarrow> (\<exists>m j. m * 5 ^ i < 2 ^ 53 \<and> f = m * 2 ^ j)"

lemma few_bits_mod: "few_bits i f \<Longrightarrow> few_bits i (f mod 2 ^ k)"
proof -
  assume "few_bits i f"
  then obtain m j where mj: "m * 5 ^ i < 2 ^ 53" "f = m * 2 ^ j" by (auto simp: few_bits_def)
  show ?thesis
  proof (cases "j \<le> k")
    case True
    then have k: "(2::nat) ^ k = 2 ^ (k - j) * 2 ^ j" by (simp flip: power_add)
    have "f mod 2 ^ k = (m mod 2 ^ (k - j)) * 2 ^ j" unfolding k mj(2) by (rule mult_mod_left [symmetric])
    moreover have "m mod 2 ^ (k - j) * 5 ^ i \<le> m * 5 ^ i" by (intro mult_le_mono1 mod_less_eq_dividend)
    ultimately show ?thesis using mj(1) unfolding few_bits_def by (intro exI conjI) (rule le_less_trans)
  next
    case False
    then have "2 ^ k dvd f" unfolding mj(2) by (intro dvd_mult le_imp_power_dvd) simp
    then have "f mod 2 ^ k = 0 * 2 ^ 0" by simp
    then show ?thesis unfolding few_bits_def by (intro exI conjI) simp_all
  qed
qed

lemma exact_steps_few: "few_bits i f \<Longrightarrow> exact_steps i f"
proof (induction i arbitrary: f)
  case (Suc i)
  then obtain m j where mj: "m * 5 ^ Suc i < 2 ^ 53" "f = m * 2 ^ j" by (auto simp: few_bits_def)
  then have f: "5 * m * 5 ^ i < 2 ^ 53" "f * 10 = 5 * m * 2 ^ Suc j" by simp_all
  then have "few_bits i (f * 10)" unfolding few_bits_def by blast
  then have "few_bits i (f * 10 mod unit_count)" unfolding unit_count_def by (rule few_bits_mod)
  moreover have "5 * m * 1 \<le> 5 * m * 5 ^ i" by (intro mult_le_mono2) simp
  then have "5 * m < 2 ^ 53" using f(1) by linarith
  then have "representable (f * 10)" using f(2) by (rule representableI)
  ultimately show ?case using Suc.IH by simp
qed simp

section \<open>What is written\<close>

definition sign_text :: "bool \<Rightarrow> string" where
  "sign_text negative = (if negative then ''-'' else [])"

lemma double_value_positive: "double_value (if SignBit b then negate_double b else b) = int (magnitude b)"
  by (simp add: double_value_def)

lemma WriteDouble_decimals:
  assumes "\<not> IsNan b" and "\<not> IsInf b"
  shows "WriteDouble b =
    (if 2 ^ 64 * unit_count \<le> magnitude b then Inl BadCast
     else Inr (sign_text (SignBit b) @ num_text 10 (magnitude b div unit_count) @ ''.'' @ map digit (decimals 6 (magnitude b mod unit_count))))"
proof -
  define n where "n = magnitude b div unit_count"
  have rep: "representable (magnitude b)" by (rule magnitude_representable)
  have loop: "frac_loop 6 (double_minus (int (magnitude b)) (double_of_int (int n))) = Inr (map digit (decimals 6 (magnitude b mod unit_count)))"
    unfolding n_def minus_floor [OF rep] using representable_unit(1) [OF rep] mod_unit_less by (rule frac_loop_decimals)
  have fits: "2 ^ 64 * unit_count \<le> magnitude b \<longleftrightarrow> 2 ^ 64 \<le> n" by (simp add: n_def less_eq_div_iff_mult_less_eq)
  have cast: "int_of_double 0 (2 ^ 64 - 1) (int (magnitude b)) = (if 2 ^ 64 \<le> n then Inl BadCast else Inr (int n))"
    by (auto simp: int_of_double_nat simp flip: n_def)
  show ?thesis
    unfolding WriteDouble_def Let_def double_value_positive cast fits
    using assms loop by (simp add: WriteUnsigned_10 sign_text_def flip: n_def)
qed

text \<open>The decimals are within the error of the six multiplications of the number cut off after the sixth.\<close>

definition nearly_cut :: "nat \<Rightarrow> nat \<Rightarrow> bool" where
  "nearly_cut k f \<longleftrightarrow>
     k * unit_count \<le> 10 ^ 6 * f + unit_count div 2 ^ 33 \<and> 10 ^ 6 * f < (k + 1) * unit_count + unit_count div 2 ^ 33"

lemma error_bound_power: "9 * error_bound i + rounding_error = 10 ^ i * rounding_error"
  by (induction i) simp_all

lemma error_bound_6: "error_bound 6 \<le> unit_count div 2 ^ 33"
proof -
  have "unit_count div 2 ^ 33 = 131072 * rounding_error" by (simp add: unit_count_error)
  then show ?thesis using error_bound_power [of 6] by simp
qed

lemma decimals_nearly_cut:
  assumes "f < unit_count"
  shows "nearly_cut (dec_value (decimals 6 f)) f"
  using decimals_near [OF assms, of 6] last_frac_less [OF assms, of 6] error_bound_6
  unfolding nearly_cut_def by (simp add: distrib_right)

lemma magnitude_grid: "4 * unit_count \<le> magnitude b \<Longrightarrow> rounding_error dvd magnitude b mod unit_count"
proof -
  assume large: "4 * unit_count \<le> magnitude b"
  obtain m j where mj: "m < 2 ^ 53" "magnitude b = m * 2 ^ j" using magnitude_representable [of b] by (auto simp: representable_def)
  have "(2::nat) ^ (53 + 1023) = 4 * unit_count" unfolding unit_count_def by (simp flip: power_add)
  also have "\<dots> \<le> m * 2 ^ j" using large mj(2) by simp
  also have "\<dots> < 2 ^ (53 + j)" using mj(1) by (simp add: power_add)
  finally have "53 + 1023 < 53 + j" by (rule power_less_imp_less_exp [rotated]) simp
  then have "rounding_error dvd magnitude b" unfolding mj(2) rounding_error_def by (intro dvd_mult le_imp_power_dvd) simp
  then show ?thesis by (intro dvd_mod) (simp_all add: unit_count_error)
qed

lemma decimals_text:
  assumes "representable f" and "f < unit_count"
  shows "map digit (decimals i f) = fixed_text i (dec_value (decimals i f))" and "dec_value (decimals i f) < 10 ^ i"
proof -
  have "\<forall>d \<in> set (decimals i f). d < 10" using decimals_less [OF assms] by blast
  then show "map digit (decimals i f) = fixed_text i (dec_value (decimals i f))" "dec_value (decimals i f) < 10 ^ i"
    using fixed_text_value [of "decimals i f"] dec_value_less [of "decimals i f"] by simp_all
qed

text \<open>The number of units of a \<^verbatim>\<open>float\<close> in 1; its integer part and its fraction are those of the \<^verbatim>\<open>double\<close>.\<close>

definition float_unit_count :: nat where
  "float_unit_count = 2 ^ 149"

lemma unit_count_float: "unit_count = float_unit_count * 2 ^ 925"
  unfolding unit_count_def float_unit_count_def by (simp flip: power_add)

lemma float_few_bits: "few_bits 6 (float_magnitude f * 2 ^ k)"
proof -
  have m: "float_mantissa f < 2 ^ 23" by (simp add: float_mantissa_def)
  have few: "few_bits 6 (a * 2 ^ j)" if "a < 2 ^ 24" for a j using that unfolding few_bits_def by (intro exI [of _ a] exI [of _ j]) simp
  show ?thesis
  proof (cases "float_exponent f = 0")
    case True
    then show ?thesis using m few [of "float_mantissa f" k] by (simp add: float_magnitude_def)
  next
    case False
    then have "float_magnitude f * 2 ^ k = (2 ^ 23 + float_mantissa f) * 2 ^ (float_exponent f - 1 + k)"
      unfolding float_magnitude_def power_add by (simp only: if_False mult.assoc)
    moreover have "2 ^ 23 + float_mantissa f < 2 ^ 24" using m by simp
    ultimately show ?thesis using few by metis
  qed
qed

lemma WriteFloat_cut:
  assumes "float_exponent f \<noteq> 255"
  shows "WriteFloat f =
    (if 2 ^ 64 * float_unit_count \<le> float_magnitude f then Inl BadCast
     else Inr (sign_text (2 ^ 31 \<le> unat f) @ num_text 10 (float_magnitude f div float_unit_count) @ ''.'' @
       fixed_text 6 (10 ^ 6 * (float_magnitude f mod float_unit_count) div float_unit_count)))"
proof -
  define b n s where "b = double_of_float f" and "n = float_magnitude f" and "s = (2::nat) ^ 925"
  have s: "0 < s" by (simp add: s_def)
  have mag: "magnitude b = n * s" using double_of_float_magnitude [OF assms] by (simp only: b_def n_def s_def)
  have u: "unit_count = float_unit_count * s" unfolding s_def by (rule unit_count_float)
  have fin: "\<not> IsNan b" "\<not> IsInf b" using assms by (simp_all add: b_def double_of_float_special)
  define r where "r = n mod float_unit_count * s"
  have parts: "magnitude b div unit_count = n div float_unit_count" "magnitude b mod unit_count = r"
      "2 ^ 64 * unit_count \<le> magnitude b \<longleftrightarrow> 2 ^ 64 * float_unit_count \<le> n"
    using s unfolding mag u r_def by (simp_all add: mult_mod_left flip: mult.assoc)
  have r: "r < unit_count" "representable r"
    using mod_unit_less [of "magnitude b"] representable_unit(1) [OF magnitude_representable, of b] by (simp_all add: parts)
  have "few_bits 6 (n * 2 ^ 925 mod 2 ^ 1074)" unfolding n_def by (intro few_bits_mod float_few_bits)
  then have "exact_steps 6 r"
    unfolding parts(2) [symmetric] mag unit_count_def s_def by (rule exact_steps_few)
  then have "dec_value (decimals 6 r) = 10 ^ 6 * r div unit_count" using r(1) by (rule decimals_exact)
  also have "\<dots> = 10 ^ 6 * (n mod float_unit_count) div float_unit_count" using s by (simp add: r_def u flip: mult.assoc)
  finally have "map digit (decimals 6 r) = fixed_text 6 (10 ^ 6 * (n mod float_unit_count) div float_unit_count)"
    using decimals_text(1) [OF r(2,1), of 6] by simp
  moreover have "SignBit b \<longleftrightarrow> 2 ^ 31 \<le> unat f" unfolding b_def by (rule double_of_float_fields)
  ultimately show ?thesis
    unfolding WriteFloat_def b_def [symmetric] WriteDouble_decimals [OF fin] parts n_def [symmetric] by simp
qed

text \<open>
  C20. The text of floating point numbers. A \<^verbatim>\<open>double\<close> that is no number or infinite is written as such; a
  finite one of \<open>2 ^ 64\<close> or more in magnitude makes the conversion of its integer part undefined. Every other one is
  written as its sign, its exact integer part, a point and six decimals: no digit is read outside the
  table, and the decimals are those of the number cut off after the sixth, exactly from 4 on, and
  otherwise up to \<open>2 ^ -33\<close> of the last place. A finite \<^verbatim>\<open>float\<close> below \<open>2 ^ 64\<close> is always cut off exactly.
\<close>

theorem floating_point_text:
  "(IsNan b \<longrightarrow> WriteValue (ArgF64 b) = Inr ''nan'') \<and>
   (IsInf b \<longrightarrow> WriteValue (ArgF64 b) = Inr (sign_text (SignBit b) @ ''inf'')) \<and>
   (\<not> IsNan b \<and> \<not> IsInf b \<longrightarrow>
      (if 2 ^ 64 * unit_count \<le> magnitude b then WriteValue (ArgF64 b) = Inl BadCast
       else \<exists>k < 10 ^ 6. WriteValue (ArgF64 b) =
              Inr (sign_text (SignBit b) @ num_text 10 (magnitude b div unit_count) @ ''.'' @ fixed_text 6 k) \<and>
            nearly_cut k (magnitude b mod unit_count) \<and>
            (4 * unit_count \<le> magnitude b \<longrightarrow> k = 10 ^ 6 * (magnitude b mod unit_count) div unit_count))) \<and>
   (float_exponent f \<noteq> 255 \<and> float_magnitude f < 2 ^ 64 * float_unit_count \<longrightarrow>
      WriteValue (ArgF32 f) =
        Inr (sign_text (2 ^ 31 \<le> unat f) @ num_text 10 (float_magnitude f div float_unit_count) @ ''.'' @
          fixed_text 6 (10 ^ 6 * (float_magnitude f mod float_unit_count) div float_unit_count)))"
proof (intro conjI impI)
  assume "IsInf b"
  then show "WriteValue (ArgF64 b) = Inr (sign_text (SignBit b) @ ''inf'')"
    by (auto simp: WriteDouble_def sign_text_def IsNan_def IsInf_def)
next
  assume fin: "\<not> IsNan b \<and> \<not> IsInf b"
  define r where "r = magnitude b mod unit_count"
  have r: "representable r" "r < unit_count"
    by (simp_all add: r_def mod_unit_less representable_unit magnitude_representable)
  have "4 * unit_count \<le> magnitude b \<Longrightarrow> dec_value (decimals 6 r) = 10 ^ 6 * r div unit_count"
    using decimals_exact [OF exact_steps_grid [OF _ r(2)] r(2)] magnitude_grid [of b] by (simp add: r_def)
  then show "if 2 ^ 64 * unit_count \<le> magnitude b then WriteValue (ArgF64 b) = Inl BadCast
      else \<exists>k < 10 ^ 6. WriteValue (ArgF64 b) =
          Inr (sign_text (SignBit b) @ num_text 10 (magnitude b div unit_count) @ ''.'' @ fixed_text 6 k) \<and>
        nearly_cut k (magnitude b mod unit_count) \<and>
        (4 * unit_count \<le> magnitude b \<longrightarrow> k = 10 ^ 6 * (magnitude b mod unit_count) div unit_count)"
    using fin decimals_text [OF r, of 6] decimals_nearly_cut [OF r(2)]
    by (auto simp: WriteDouble_decimals simp flip: r_def)
qed (use WriteFloat_cut [of f] in \<open>auto simp: WriteDouble_def\<close>)

theorem floating_point_text_witness:
  "WriteValue (ArgF64 0xC017000000000000) = Inr ''-5.750000'' \<and> WriteValue (ArgF32 0x3DCCCCCD) = Inr ''0.100000''"
proof
  let ?b = "0xC017000000000000 :: u64" and ?f = "0x3DCCCCCD :: u32"
  have b: "exponent_field ?b = 1025" "mantissa_field ?b = 7 * 2 ^ 48" "SignBit ?b"
    by (simp_all add: exponent_field_def mantissa_field_def SignBit_def doubleSignMask_def)
  have fin: "\<not> IsNan ?b" "\<not> IsInf ?b" using finite_double [of ?b] b(1) by auto
  have mag: "magnitude ?b = 23 * rounding_error * 2 ^ 48" "unit_count = 4 * rounding_error * 2 ^ 48"
    unfolding magnitude_def b rounding_error_def unit_count_error by simp_all
  have pos: "0 < rounding_error" by (simp add: rounding_error_def)
  have "magnitude ?b div unit_count = 5" "10 ^ 6 * (magnitude ?b mod unit_count) div unit_count = 750000"
    unfolding mag using pos by simp_all
  moreover have "num_text 10 5 = ''5''" by (subst num_text.simps) (simp add: digit_def digits_def)
  moreover have "fixed_text 6 750000 = ''750000''" 
    by (subst fixed_textI [of "[7, 5, 0, 0, 0, 0]"]) (simp_all add: digit_def digits_def)
  ultimately show "WriteValue (ArgF64 ?b) = Inr ''-5.750000''"
    using floating_point_text [of ?b 0] fin b(3) pos unfolding mag by (simp add: sign_text_def)
  have f: "float_exponent ?f = 123" "float_mantissa ?f = 0x4CCCCD" by (simp_all add: float_exponent_def float_mantissa_def)
  have "float_magnitude ?f div float_unit_count = 0" "10 ^ 6 * (float_magnitude ?f mod float_unit_count) div float_unit_count = 100000"
      "float_magnitude ?f < 2 ^ 64 * float_unit_count"
    unfolding float_magnitude_def f float_unit_count_def by simp_all
  moreover have "num_text 10 0 = ''0''" by (subst num_text.simps) (simp add: digit_def digits_def)
  moreover have "fixed_text 6 100000 = ''100000''" 
    by (subst fixed_textI [of "[1, 0, 0, 0, 0, 0]"]) (simp_all add: digit_def digits_def)
  ultimately show "WriteValue (ArgF32 ?f) = Inr ''0.100000''"
    using floating_point_text [of 0 ?f] f(1) by (simp add: sign_text_def)
qed

end
