(* ===== verification/Exception_Report.thy ===== *)
theory Exception_Report
  imports Interrupt_Table Kernel_Log
begin

text \<open>
  What the kernel writes when the processor raises an exception (\<^verbatim>\<open>HandleException\<close> and the entry point
  \<^verbatim>\<open>ExceptionHandler\<close> of \<^verbatim>\<open>Interrupts/IDT.cpp\<close>, the names and the saved registers of \<^verbatim>\<open>Interrupts/IDT.h\<close>), through the
  formatter, the log, the serial port and the console, before it halts. The theory Interrupt_Table has
  the outcome of an exception without its messages.

  The text of file and line of a log statement is put in by the preprocessor and is a parameter, by line.
\<close>

section \<open>The handler\<close>

definition ExceptionNames :: "string list" where
  "ExceptionNames = [
     ''<FATAL_CPU_EXCEPTION_0> Division By Zero'',
     ''<FATAL_CPU_EXCEPTION_1> Debug'',
     ''<FATAL_CPU_EXCEPTION_2> Non Maskable Interrupt'',
     ''<FATAL_CPU_EXCEPTION_3> Breakpoint'',
     ''<FATAL_CPU_EXCEPTION_4> Detected Overflow'',
     ''<FATAL_CPU_EXCEPTION_5> Out of Bounds'',
     ''<FATAL_CPU_EXCEPTION_6> Invalid Opcode'',
     ''<FATAL_CPU_EXCEPTION_7> No Coprocessor'',
     ''<FATAL_CPU_EXCEPTION_8> Double Fault'',
     ''<FATAL_CPU_EXCEPTION_9> Coprocessor Segment Overrun'',
     ''<FATAL_CPU_EXCEPTION_10> Bad TSS'',
     ''<FATAL_CPU_EXCEPTION_11> Segment Not Present'',
     ''<FATAL_CPU_EXCEPTION_12> Stack Fault'',
     ''<FATAL_CPU_EXCEPTION_13> General Protection Fault'',
     ''<FATAL_CPU_EXCEPTION_14> Page Fault'',
     ''<FATAL_CPU_EXCEPTION_15> Unknown Interrupt'',
     ''<FATAL_CPU_EXCEPTION_16> Coprocessor Fault'',
     ''<FATAL_CPU_EXCEPTION_17> Alignment Check failure (486+)'',
     ''<FATAL_CPU_EXCEPTION_18> Machine Check failure (Pentium/586+)'',
     ''<FATAL_CPU_EXCEPTION_19> Reserved'',
     ''<FATAL_CPU_EXCEPTION_20> Reserved'',
     ''<FATAL_CPU_EXCEPTION_21> Reserved'',
     ''<FATAL_CPU_EXCEPTION_22> Reserved'',
     ''<FATAL_CPU_EXCEPTION_23> Reserved'',
     ''<FATAL_CPU_EXCEPTION_24> Reserved'',
     ''<FATAL_CPU_EXCEPTION_25> Reserved'',
     ''<FATAL_CPU_EXCEPTION_26> Reserved'',
     ''<FATAL_CPU_EXCEPTION_27> Reserved'',
     ''<FATAL_CPU_EXCEPTION_28> Reserved'',
     ''<FATAL_CPU_EXCEPTION_29> Reserved'',
     ''<FATAL_CPU_EXCEPTION_30> Reserved'',
     ''<FATAL_CPU_EXCEPTION_31> Reserved'']"

record Registers =
  reg_rax :: u64
  reg_rbx :: u64
  reg_rcx :: u64
  reg_rdx :: u64
  reg_rsi :: u64
  reg_rdi :: u64
  reg_rbp :: u64
  reg_r8 :: u64
  reg_r9 :: u64
  reg_r10 :: u64
  reg_r11 :: u64
  reg_r12 :: u64
  reg_r13 :: u64
  reg_r14 :: u64
  reg_r15 :: u64
  reg_error_code :: u64
  reg_rip :: u64
  reg_cs :: u64
  reg_rflags :: u64
  reg_user_rsp :: u64
  reg_ss :: u64

definition exception_name :: "u32 \<Rightarrow> string" where
  "exception_name exceptionVector = (if exceptionVector < 32 then ExceptionNames ! unat exceptionVector else ''Unknown'')"

text \<open>The statements \<^verbatim>\<open>LOG_ERROR\<close> of a handler, one after the other.\<close>

fun log_errors :: "port_device \<Rightarrow> (string \<times> string \<times> fmt_arg list) list \<Rightarrow> kernel \<Rightarrow> (fault + kernel) option" where
  "log_errors dev [] k = Some (Inr k)"
| "log_errors dev ((loc, msg, args) # ms) k = bindO (LOG_MESSAGE dev ERROR loc (cstr msg []) args k) (log_errors dev ms)"

definition fault_messages :: "(nat \<Rightarrow> string) \<Rightarrow> u64 \<Rightarrow> u32 \<Rightarrow> u32 \<Rightarrow> (string \<times> string \<times> fmt_arg list) list" where
  "fault_messages line cr2 exceptionVector errorCode =
     [(line 96, [CHR 0x0A, CHR 0x0D, CHR 0x0A, CHR 0x0D] @ ''-- CPU Exception Occurred --'' @ [CHR 0x0A, CHR 0x0D], []),
      (line 97, ''Exception: {} (Vector {})'', [ArgCStr (cstr (exception_name exceptionVector) []), ArgU32 exceptionVector])] @
     (if exceptionVector = 14 then [(line 100, ''Page fault at address {}'', [ArgPtr cr2])] else []) @
     [(line 103, ''Error Code {}'', [ArgPtr (ucast errorCode)])]"

definition register_messages :: "(nat \<Rightarrow> string) \<Rightarrow> Registers \<Rightarrow> (string \<times> string \<times> fmt_arg list) list" where
  "register_messages line r =
     [(line 104, ''RAX: {} RBX: {} RCX: {} RDX: {}'', [ArgPtr (reg_rax r), ArgPtr (reg_rbx r), ArgPtr (reg_rcx r), ArgPtr (reg_rdx r)]),
      (line 105, ''RSI: {} RDI: {} RBP: {} R8: {}'', [ArgPtr (reg_rsi r), ArgPtr (reg_rdi r), ArgPtr (reg_rbp r), ArgPtr (reg_r8 r)]),
      (line 106, ''R9: {} R10: {} R11: {} R12: {}'', [ArgPtr (reg_r9 r), ArgPtr (reg_r10 r), ArgPtr (reg_r11 r), ArgPtr (reg_r12 r)]),
      (line 107, ''R13: {} R14: {} R15: {}'', [ArgPtr (reg_r13 r), ArgPtr (reg_r14 r), ArgPtr (reg_r15 r)])]"

text \<open>Saved registers at a null pointer are \<open>None\<close>. The other control registers the code reads are not used.\<close>

definition IDT_HandleException ::
    "port_device \<Rightarrow> (nat \<Rightarrow> string) \<Rightarrow> u64 \<Rightarrow> u32 \<Rightarrow> u32 \<Rightarrow> Registers option \<Rightarrow> IDT \<Rightarrow> kernel \<Rightarrow> (fault + kernel) option" where
  "IDT_HandleException dev line cr2 exceptionVector errorCode registers s k =
     (if isTesting s
      then LOG_MESSAGE dev INFO (line 85) (cstr ''IDT testing mode: Exception {} occurred with error code {}'' [])
             [ArgCStr (cstr (exception_name exceptionVector) []), ArgU32 errorCode] k
      else
        bindO (log_errors dev (fault_messages line cr2 exceptionVector errorCode) k) (\<lambda>k.
        case registers of None \<Rightarrow> Some (Inl NullDeref)
        | Some r \<Rightarrow> bindO (log_errors dev (register_messages line r) k) (Kernel_Panic dev (cstr ''Exception occurred'' []))))"

definition ExceptionHandler ::
    "port_device \<Rightarrow> (nat \<Rightarrow> string) \<Rightarrow> u64 \<Rightarrow> u64 \<Rightarrow> u64 \<Rightarrow> Registers option \<Rightarrow> IDT \<Rightarrow> kernel \<Rightarrow> (fault + kernel) option" where
  "ExceptionHandler dev line cr2 exceptionVector errorCode regs s k =
     IDT_HandleException dev line cr2 (ucast exceptionVector) (ucast errorCode) regs s k"

section \<open>What it writes\<close>

lemma LogMessage_error [simp]: "LogMessage ERROR k"
  by (simp add: LogMessage_iff)

text \<open>The statements write whole lines, which is one write of all of them.\<close>

lemma log_errors_append: "log_errors dev (ms @ ms') k = bindO (log_errors dev ms k) (log_errors dev ms')"
proof (induction ms arbitrary: k)
  case (Cons m ms)
  then have "log_errors dev (ms @ ms') = (\<lambda>k. bindO (log_errors dev ms k) (log_errors dev ms'))" by blast
  then show ?case by (cases m) (simp add: bindO_assoc)
qed simp

definition error_line :: "(string \<times> string \<times> fmt_arg list) \<Rightarrow> string \<Rightarrow> string" where
  "error_line m t = log_line ERROR (fst m) t"

definition formats :: "(string \<times> string \<times> fmt_arg list) \<Rightarrow> string \<Rightarrow> bool" where
  "formats m t \<longleftrightarrow> WriteArgs (cstr (fst (snd m)) []) (snd (snd m)) = Inr t"

lemma log_errors_lines:
  "list_all2 formats ms ts \<Longrightarrow> ms \<noteq> [] \<Longrightarrow> log_errors dev ms k = Kernel_Log dev (concat (map2 error_line ms ts)) k"
proof (induction arbitrary: k rule: list_all2_induct)
  case (Cons m ms t ts)
  obtain loc msg args where m: "m = (loc, msg, args)" by (cases m)
  have line: "LOG_MESSAGE dev ERROR loc (cstr msg []) args k = Kernel_Log dev (error_line m t) k"
    using Cons.hyps(1) LOG_MESSAGE_line [of "cstr msg []" args t ERROR k] by (simp add: m formats_def error_line_def)
  then have step: "log_errors dev (m # ms) k = bindO (Kernel_Log dev (error_line m t) k) (log_errors dev ms)" by (simp add: m)
  show ?case
  proof (cases "ms = []")
    case True
    then show ?thesis unfolding step using Cons.hyps(2) by (cases "Kernel_Log dev (error_line m t) k") (auto simp: bindO_def split: sum.splits)
  next
    case False
    then have "log_errors dev ms = Kernel_Log dev (concat (map2 error_line ms ts))" using Cons.IH by blast
    then show ?thesis unfolding step by (simp add: Kernel_Log_append)
  qed
qed simp

text \<open>The text of a line: a format string with holes for pointers, names and numbers.\<close>

definition hex_text :: "u64 \<Rightarrow> string" where
  "hex_text v = ''0x'' @ num_text 16 (unat v)"

lemma WriteValue_pointer: "WriteValue (ArgPtr v) = Inr (hex_text v)"
  by (simp add: WriteUnsigned_16 hex_text_def)

lemma formats_holes:
  assumes "msg = with_holes ws" and "list_all piece ws" and "length ws = Suc (length args)"
    and "list_all2 (\<lambda>a t. WriteValue a = Inr t) args ts"
  shows "formats (loc, msg, args) (interleave ws ts)"
  using WriteArgs_pieces [OF assms(2-4), of "[]"] assms(1) by (simp add: formats_def)

lemma exception_name_no_nul: "no_nul (exception_name v)"
proof -
  have "list_all no_nul ExceptionNames" by (simp add: ExceptionNames_def no_nul_def)
  moreover have "length ExceptionNames = 32" by (simp add: ExceptionNames_def)
  ultimately show ?thesis
    by (auto simp: exception_name_def list_all_length word_less_nat_alt no_nul_def [of "''Unknown''"])
qed

lemma WriteValue_name: "WriteValue (ArgCStr (cstr (exception_name v) [])) = Inr (exception_name v)"
  using exception_name_no_nul [of v] by simp

lemma WriteValue_u32: "WriteValue (ArgU32 v) = Inr (num_text 10 (unat v))"
proof -
  have "unat v < 2 ^ 32" using unsigned_less [of v, where ?'a = nat] by simp
  then show ?thesis by (simp add: WriteUnsigned_10 unsigned_ucast_eq take_bit_nat_eq_self)
qed

text \<open>The lines of the report, with the numbers of the statements that write them.\<close>

definition exception_report :: "u64 \<Rightarrow> u32 \<Rightarrow> u32 \<Rightarrow> Registers \<Rightarrow> (nat \<times> string) list" where
  "exception_report cr2 v err r =
     [(96, [CHR 0x0A, CHR 0x0D, CHR 0x0A, CHR 0x0D] @ ''-- CPU Exception Occurred --'' @ [CHR 0x0A, CHR 0x0D]),
      (97, ''Exception: '' @ exception_name v @ '' (Vector '' @ num_text 10 (unat v) @ '')'')] @
     (if v = 14 then [(100, ''Page fault at address '' @ hex_text cr2)] else []) @
     [(103, ''Error Code '' @ hex_text (ucast err))] @
     [(104, ''RAX: '' @ hex_text (reg_rax r) @ '' RBX: '' @ hex_text (reg_rbx r) @ '' RCX: '' @ hex_text (reg_rcx r) @ '' RDX: '' @ hex_text (reg_rdx r)),
      (105, ''RSI: '' @ hex_text (reg_rsi r) @ '' RDI: '' @ hex_text (reg_rdi r) @ '' RBP: '' @ hex_text (reg_rbp r) @ '' R8: '' @ hex_text (reg_r8 r)),
      (106, ''R9: '' @ hex_text (reg_r9 r) @ '' R10: '' @ hex_text (reg_r10 r) @ '' R11: '' @ hex_text (reg_r11 r) @ '' R12: '' @ hex_text (reg_r12 r)),
      (107, ''R13: '' @ hex_text (reg_r13 r) @ '' R14: '' @ hex_text (reg_r14 r) @ '' R15: '' @ hex_text (reg_r15 r))]"

definition report_text :: "(nat \<Rightarrow> string) \<Rightarrow> (nat \<times> string) list \<Rightarrow> string" where
  "report_text line ls = concat (map (\<lambda>(n, body). log_line ERROR (line n) body) ls)"

lemma formats_pointers:
  assumes "list_all piece ws" and "length ws = Suc (length vs)"
  shows "formats (loc, with_holes ws, map ArgPtr vs) (interleave ws (map hex_text vs))"
  using assms by (intro formats_holes) (simp_all add: list_all2_conv_all_nth WriteValue_pointer del: WriteValue.simps)

lemma formats_head:
  "formats (loc, [CHR 0x0A, CHR 0x0D, CHR 0x0A, CHR 0x0D] @ ''-- CPU Exception Occurred --'' @ [CHR 0x0A, CHR 0x0D], [])
     ([CHR 0x0A, CHR 0x0D, CHR 0x0A, CHR 0x0D] @ ''-- CPU Exception Occurred --'' @ [CHR 0x0A, CHR 0x0D])"
  using formats_pointers [of "[[CHR 0x0A, CHR 0x0D, CHR 0x0A, CHR 0x0D] @ ''-- CPU Exception Occurred --'' @ [CHR 0x0A, CHR 0x0D]]" "[]" loc]
  by (simp add: piece_def no_nul_def)

lemma formats_name:
  "formats (loc, ''Exception: {} (Vector {})'', [ArgCStr (cstr (exception_name v) []), ArgU32 v])
     (''Exception: '' @ exception_name v @ '' (Vector '' @ num_text 10 (unat v) @ '')'')"
  using formats_holes [where loc = loc and ts = "[exception_name v, num_text 10 (unat v)]" and
      args = "[ArgCStr (cstr (exception_name v) []), ArgU32 v]" and ws = "[''Exception: '', '' (Vector '', '')'']", OF refl]
  by (simp add: piece_def no_nul_def WriteValue_name WriteValue_u32 del: WriteValue.simps)

lemma formats_dump:
  "formats (loc, ''Page fault at address {}'', [ArgPtr a]) (''Page fault at address '' @ hex_text a)"
  "formats (loc, ''Error Code {}'', [ArgPtr a]) (''Error Code '' @ hex_text a)"
  "formats (loc, ''RAX: {} RBX: {} RCX: {} RDX: {}'', [ArgPtr a, ArgPtr b, ArgPtr c, ArgPtr d])
     (''RAX: '' @ hex_text a @ '' RBX: '' @ hex_text b @ '' RCX: '' @ hex_text c @ '' RDX: '' @ hex_text d)"
  "formats (loc, ''RSI: {} RDI: {} RBP: {} R8: {}'', [ArgPtr a, ArgPtr b, ArgPtr c, ArgPtr d])
     (''RSI: '' @ hex_text a @ '' RDI: '' @ hex_text b @ '' RBP: '' @ hex_text c @ '' R8: '' @ hex_text d)"
  "formats (loc, ''R9: {} R10: {} R11: {} R12: {}'', [ArgPtr a, ArgPtr b, ArgPtr c, ArgPtr d])
     (''R9: '' @ hex_text a @ '' R10: '' @ hex_text b @ '' R11: '' @ hex_text c @ '' R12: '' @ hex_text d)"
  "formats (loc, ''R13: {} R14: {} R15: {}'', [ArgPtr a, ArgPtr b, ArgPtr c])
     (''R13: '' @ hex_text a @ '' R14: '' @ hex_text b @ '' R15: '' @ hex_text c)"
  using formats_pointers [of "[''Page fault at address '', []]" "[a]" loc] formats_pointers [of "[''Error Code '', []]" "[a]" loc]
    formats_pointers [of "[''RAX: '', '' RBX: '', '' RCX: '', '' RDX: '', []]" "[a, b, c, d]" loc]
    formats_pointers [of "[''RSI: '', '' RDI: '', '' RBP: '', '' R8: '', []]" "[a, b, c, d]" loc]
    formats_pointers [of "[''R9: '', '' R10: '', '' R11: '', '' R12: '', []]" "[a, b, c, d]" loc]
    formats_pointers [of "[''R13: '', '' R14: '', '' R15: '', []]" "[a, b, c]" loc]
  by (simp_all add: piece_def no_nul_def)

lemma report_errors:
  fixes line :: "nat \<Rightarrow> string"
  assumes "list_all2 (\<lambda>m p. formats m (snd p) \<and> fst m = line (fst p)) ms ls" and "ms \<noteq> []"
  shows "log_errors dev ms k = Kernel_Log dev (report_text line ls) k"
proof -
  have "list_all2 formats ms (map snd ls)" using assms(1) by (auto simp: list_all2_conv_all_nth)
  moreover have "map2 error_line ms (map snd ls) = map (\<lambda>(n, body). log_line ERROR (line n) body) ls"
    using assms(1) by (intro nth_equalityI) (auto simp: list_all2_conv_all_nth error_line_def split: prod.splits)
  ultimately show ?thesis using log_errors_lines [of ms "map snd ls"] assms(2) by (simp add: report_text_def)
qed

lemma HandleException_writes:
  assumes "\<not> isTesting s"
  shows "IDT_HandleException dev line cr2 v err (Some r) s k =
    Kernel_Log dev (report_text line (exception_report cr2 v err r) @ ''Kernel panic: Exception occurred'') (k\<lparr>kernel_interrupts := False\<rparr>)"
proof -
  have panic: "Kernel_Panic dev (cstr ''Exception occurred'' []) k = Kernel_Log dev ''Kernel panic: Exception occurred'' (k\<lparr>kernel_interrupts := False\<rparr>)" for k
    using Kernel_Panic_log [of "''Exception occurred''" dev "[]" k] by (simp add: no_nul_def)
  let ?P = "\<lambda>m p. formats m (snd p) \<and> fst m = line (fst p)"
  define ms where "ms = fault_messages line cr2 v err @ register_messages line r"
  have all: "list_all2 ?P ms (exception_report cr2 v err r)"
    unfolding ms_def fault_messages_def register_messages_def exception_report_def append_assoc
    by (cases "v = 14"; intro list_all2_appendI;
        simp only: if_True if_False list_all2_Cons list_all2_Nil fst_conv snd_conv formats_head formats_name formats_dump simp_thms)
  have "IDT_HandleException dev line cr2 v err (Some r) s k = bindO (log_errors dev ms k) (Kernel_Panic dev (cstr ''Exception occurred'' []))"
    unfolding IDT_HandleException_def ms_def log_errors_append using assms by (simp only: if_False option.case bindO_assoc)
  also have "log_errors dev ms k = Kernel_Log dev (report_text line (exception_report cr2 v err r)) k"
    using all by (rule report_errors) (simp add: ms_def fault_messages_def)
  finally show ?thesis
    unfolding Kernel_Log_append panic Kernel_Log_interrupts bindO_assoc by (simp only: bindO_simps bindO_assoc)
qed

lemma HandleException_testing:
  assumes "isTesting s"
  shows "IDT_HandleException dev line cr2 v err regs s k =
    (if LogMessage INFO k
     then Kernel_Log dev (log_line INFO (line 85) (''IDT testing mode: Exception '' @ exception_name v @ '' occurred with error code '' @ num_text 10 (unat err))) k
     else Some (Inr k))"
proof -
  have "formats (line 85, ''IDT testing mode: Exception {} occurred with error code {}'', [ArgCStr (cstr (exception_name v) []), ArgU32 err])
     (''IDT testing mode: Exception '' @ exception_name v @ '' occurred with error code '' @ num_text 10 (unat err))"
    using formats_holes [where loc = "line 85" and ts = "[exception_name v, num_text 10 (unat err)]" and
        args = "[ArgCStr (cstr (exception_name v) []), ArgU32 err]" and
        ws = "[''IDT testing mode: Exception '', '' occurred with error code '', []]", OF refl]
    by (simp add: piece_def no_nul_def WriteValue_name WriteValue_u32 del: WriteValue.simps)
  then have "WriteArgs (cstr ''IDT testing mode: Exception {} occurred with error code {}'' []) [ArgCStr (cstr (exception_name v) []), ArgU32 err] =
      Inr (''IDT testing mode: Exception '' @ exception_name v @ '' occurred with error code '' @ num_text 10 (unat err))"
    by (simp only: formats_def fst_conv snd_conv)
  from LOG_MESSAGE_text [OF this] show ?thesis unfolding IDT_HandleException_def using assms by (simp only: if_True)
qed

text \<open>The outcome that the set-up of the table relies on is that of the handler: it returns during the self test and halts otherwise.\<close>

lemma HandleException_outcome:
  assumes "drains dev (comPort (debugPort k))" and "init_status (debugPort k) = Inr ready"
  shows "\<exists>k'. IDT_HandleException dev line cr2 v err (Some r) s k = Some (Inr k') \<and>
    (case HandleException n s of Inr s' \<Rightarrow> s' = s \<and> kernel_interrupts k' = kernel_interrupts k | Inl e \<Rightarrow> \<not> kernel_interrupts k')"
proof (cases "isTesting s")
  case True
  then show ?thesis
    using HandleException_testing [OF True] Kernel_Log_both [OF assms] by (cases "LogMessage INFO k") (fastforce simp: HandleException_def)+
next
  case False
  then show ?thesis
    using HandleException_writes [OF False] Kernel_Log_both [of dev "k\<lparr>kernel_interrupts := False\<rparr>"] assms by (fastforce simp: HandleException_def)
qed

section \<open>Property\<close>

text \<open>
  C32. An exception is reported. Outside of the self test the handler returns from all its output: a report with the name and
  the number of the exception, the faulting address if it is a page fault, the error code and the saved registers, followed by the panic message,
  appears as one text on the console, if it is up, and on the serial port, if it was found, each byte sent when the
  transmitter was empty; interrupts are then off. During the self test one line is written, if the log level asks for it, and the handler returns with
  everything else unchanged. The vector and the error code count with their lower 32 bits.
\<close>

theorem exception_reported:
  fixes vec code cr2 :: u64 and r :: Registers and s :: IDT and k :: kernel and line :: "nat \<Rightarrow> string"
  assumes "drains dev (comPort (debugPort k))" and "init_status (debugPort k) = Inr ready"
  defines "v \<equiv> ucast vec :: u32" and "err \<equiv> ucast code :: u32"
  defines "message \<equiv>
    (if \<not> isTesting s then report_text line (exception_report cr2 v err r) @ ''Kernel panic: Exception occurred''
     else if LogMessage INFO k
     then log_line INFO (line 85) (''IDT testing mode: Exception '' @ exception_name v @ '' occurred with error code '' @ num_text 10 (unat err))
     else [])"
  shows "\<exists>new. ExceptionHandler dev line cr2 vec code (Some r) s k =
      Some (Inr (k\<lparr>kernel_interrupts := kernel_interrupts k \<and> isTesting s, debugPort := (debugPort k)\<lparr>ports := ports (debugPort k) @ new\<rparr>,
        framebufferConsole := FB_Write message (framebufferConsole k)\<rparr>)) \<and>
    sent (comPort (debugPort k)) new = (if ready then to_bytes message else []) \<and>
    paced dev (comPort (debugPort k)) (ports (debugPort k)) new"
proof -
  let ?k = "k\<lparr>kernel_interrupts := kernel_interrupts k \<and> isTesting s\<rparr>"
  have same: "?k = k" if "isTesting s" using that by simp
  show ?thesis
  proof (cases "isTesting s \<and> \<not> LogMessage INFO k")
    case True
    then have "ExceptionHandler dev line cr2 vec code (Some r) s k = Some (Inr k)" "message = []"
      using HandleException_testing [of s dev line cr2 v err "Some r" k] by (simp_all add: ExceptionHandler_def message_def v_def err_def)
    then show ?thesis using True by (intro exI [of _ "[]"]) (simp add: FB_Write_def to_bytes_def sent_def paced_def)
  next
    case False
    have "ExceptionHandler dev line cr2 vec code (Some r) s k = Kernel_Log dev message ?k"
    proof (cases "isTesting s")
      case True
      then show ?thesis
        using False HandleException_testing [OF True, of dev line cr2 v err "Some r" k]
        unfolding ExceptionHandler_def message_def v_def err_def same [OF True] by simp
    next
      case False
      then show ?thesis
        using HandleException_writes [OF False, of dev line cr2 v err r k]
        unfolding ExceptionHandler_def message_def v_def err_def by simp
    qed
    then show ?thesis using Kernel_Log_both [of dev ?k ready message] assms(1,2) by simp
  qed
qed

text \<open>A page fault on the example kernel.\<close>

definition example_registers :: Registers where
  "example_registers = \<lparr>reg_rax = 1, reg_rbx = 2, reg_rcx = 3, reg_rdx = 4, reg_rsi = 5, reg_rdi = 6, reg_rbp = 7, reg_r8 = 8, reg_r9 = 9,
     reg_r10 = 10, reg_r11 = 11, reg_r12 = 12, reg_r13 = 13, reg_r14 = 14, reg_r15 = 15, reg_error_code = 2, reg_rip = 16, reg_cs = 8,
     reg_rflags = 2, reg_user_rsp = 0, reg_ss = 16\<rparr>"

definition example_idt :: IDT where
  "example_idt = \<lparr>idtPointer_Limit = 4095, idtPointer_Base = 0, idtEntries = [], exceptionHandlers = [], irqHandlers = [],
     registersForInterrupts = [], allocatedVectors = [], isTesting = False, idt_loaded = True, idt_interrupts = True\<rparr>"

theorem exception_reported_witness:
  "\<exists>k' rest1 rest2. ExceptionHandler example_line (\<lambda>n. ''[IDT.cpp]'') 0x1000 14 2 (Some example_registers) example_idt example_kernel = Some (Inr k') \<and>
     \<not> kernel_interrupts k' \<and>
     sent 0x3F8 (ports (debugPort k')) = to_bytes (rest1 @ log_line ERROR ''[IDT.cpp]'' ''Page fault at address 0x1000'' @ rest2)"
proof -
  have i: "init_status (debugPort example_kernel) = Inr True" by (simp add: example_kernel_def init_status_def GetPortIndex_def)
  have "num_text 16 0x1000 = ''1000''" by (simp add: num_text.simps digit_def digits_def)
  then have page: "hex_text 0x1000 = ''0x1000''" by (simp add: hex_text_def)
  let ?line = "\<lambda>n::nat. ''[IDT.cpp]''"
  have t: "\<not> isTesting example_idt" by (simp add: example_idt_def)
  have split: "\<exists>r1 r2. report_text ?line (exception_report 0x1000 14 2 r) @ p = r1 @ log_line ERROR ''[IDT.cpp]'' ''Page fault at address 0x1000'' @ r2" for r p
  proof -
    have "\<exists>ls1 ls2. exception_report 0x1000 14 2 r = ls1 @ (100, ''Page fault at address '' @ hex_text 0x1000) # ls2"
      unfolding exception_report_def by (simp only: if_True simp_thms append_Cons append_Nil) (blast intro: Cons_eq_appendI)
    then show ?thesis by (auto simp: report_text_def page) (intro exI, rule refl)
  qed
  note out = exception_reported [OF example_line_drains i, where s = example_idt and line = ?line and ?cr2.0 = "0x1000" and vec = 14 and code = 2 and r = example_registers]
  define message where "message = report_text ?line (exception_report 0x1000 14 2 example_registers) @ ''Kernel panic: Exception occurred''"
  obtain r1 r2 where m: "message = r1 @ log_line ERROR ''[IDT.cpp]'' ''Page fault at address 0x1000'' @ r2" unfolding message_def using split by blast
  have "ucast (14 :: u64) = (14 :: u32)" "ucast (2 :: u64) = (2 :: u32)" by simp_all
  from out [unfolded this] obtain k' where "ExceptionHandler example_line ?line 0x1000 14 2 (Some example_registers) example_idt example_kernel = Some (Inr k')"
      "\<not> kernel_interrupts k'" "sent 0x3F8 (ports (debugPort k')) = to_bytes message"
    using t unfolding message_def by (auto simp: example_kernel_def)
  then show ?thesis unfolding m by blast
qed

end
