(* ===== verification/Spec2Isabelle.thy ===== *)
theory Spec2Isabelle
  imports Kernel_Boot Concurrent_Memory Double_Text Exception_Report
begin

text \<open>
  A verification library for BorealOS, a kernel for x86-64 in C++ (\<^verbatim>\<open>src/src/kernel\<close>) that is started by the Limine boot loader. This
  theory imports the whole library and describes it.

  \<^bold>\<open>The program.\<close> \<^verbatim>\<open>Kernel::Initialize\<close> sets up, in this order, the serial port and the console, the command line, the descriptor
  tables, the physical memory manager, paging, the interrupt table, the processor, the ACPI tables, the IO APICs and the local APIC. The components keep
  static or per-CPU state and call each other: paging takes frames from the memory manager; the IO APIC manager and the local APIC map their
  registers through paging and find them through the ACPI tables and the model specific registers; interrupt dispatch switches page
  tables and talks to the local APIC; all of them log through the formatter to the serial port and the console; shared state is
  guarded by spinlocks.

  \<^bold>\<open>How the code is modelled.\<close> Machine integers are words of their width, so arithmetic wraps as in the code; where a model uses \<open>nat\<close>, the text
  of its theory says why nothing wraps. A function of the code is a function on an explicit state (a record with the members of
  the class). Its result is of type \<open>fault + 'a\<close>: a \<open>Panic\<close> with the message of the code, an access out of bounds, a null
  dereference, an undefined conversion of a floating point number, or \<open>Hang\<close> for a loop that is seen not to end. Loops that may wait for ever are of type \<open>option\<close>, with \<open>None\<close> for not
  returning; that they return is then a theorem under a hypothesis on the device. No model uses fuel: loops over counted ranges are folds
  (\<open>foldR\<close>), other loops have a measure. Devices (ports, the APICs, CPUID), the firmware's memory, the boot loader's responses and
  the terminal emulator are parameters. Locks are left out of the sequential models and treated once, as a step relation.

  \<^bold>\<open>Theories and what they show.\<close>
  \<^item> \<open>Prelude\<close>: faults, sequencing (\<open>bindR\<close>, \<open>bindO\<close>, \<open>foldR\<close> and the rule \<open>foldR_invariant\<close>), lemmas on words and single bits.
  \<^item> \<open>Math_Util\<close> (\<^verbatim>\<open>Utility/Math.h\<close>) and \<open>Bitmap\<close>: alignment, and bitmaps as a \<open>bit_array\<close> interface.
  \<^item> \<open>Physical_Memory\<close>, \<open>Memory_Map\<close> (\<^verbatim>\<open>Memory/PhysicalMemoryManager.cpp\<close>): first fit, exact freeing, the round trip of both, the self test, and which
    frames the boot-time set-up makes available. The locale \<open>frame_allocator\<close> is what paging relies on, interpreted for the manager.
  \<^item> \<open>Paging\<close>, \<open>Page_Tables\<close>, \<open>Address_Space\<close>, \<open>Paging_Theorems\<close> (\<^verbatim>\<open>Memory/Paging.cpp\<close>): page tables as trees, mapping and unmapping as refinements
    of a map from pages to entries, no leaked frames, isolation of address spaces, the search for virtual pages, the higher half.
  \<^item> \<open>Boot_Paging\<close>: taking over the boot loader's tables keeps every translation, and the new tables are a tree of own frames.
  \<^item> \<open>Kernel_Window\<close>: the kernel's pages for device registers; the search for a page and its mapping go together.
  \<^item> \<open>Spinlock\<close>, \<open>Concurrent_Memory\<close> (\<^verbatim>\<open>Threading/Spinlock.cpp\<close>): mutual exclusion, interrupt flag and absence of deadlock for any number of CPUs; the
    locale \<open>guarded_component\<close> carries an invariant of the guarded data over all interleavings and is interpreted for the memory manager:
    no frame is ever given to two CPUs.
  \<^item> \<open>C_Strings\<close>, \<open>String_View\<close>, \<open>Formatter\<close>, \<open>Command_Line\<close> (\<^verbatim>\<open>Utility\<close>, \<^verbatim>\<open>memops.cpp\<close>): the string and memory routines on every overlap and every
    terminator, printing and parsing as inverse functions (locale \<open>print_parse\<close>), format strings, and settings read from the command line.
  \<^item> \<open>Doubles\<close>, \<open>Double_Text\<close> (\<^verbatim>\<open>Utility/Formatter.cpp\<close>): floating point numbers as bit patterns with exact values and rounding to nearest, and how
    far the text of a number is from its value.
  \<^item> \<open>Processor\<close>, \<open>Descriptors\<close> (\<^verbatim>\<open>CPU/CPU.cpp\<close>, \<^verbatim>\<open>Interrupts/GDT.cpp\<close>, \<^verbatim>\<open>Interrupts/TSS.cpp\<close>): the brand string, the control
    registers after the set-up of a core, and descriptors read the way the processor reads them.
  \<^item> \<open>Local_APIC\<close>, \<open>Interrupt_Table\<close>, \<open>IO_APIC\<close>, \<open>Interrupt_Routing\<close> (\<^verbatim>\<open>Interrupts\<close>): gates, vector allocation, dispatch, inter-processor interrupts,
    redirection entries, and the routing set up from the firmware's table.
  \<^item> \<open>Port_IO\<close>, \<open>Serial_Port\<close>, \<open>Kernel_Log\<close> (\<^verbatim>\<open>IO\<close>, \<^verbatim>\<open>Logging.h\<close>, \<^verbatim>\<open>Kernel.cpp\<close>): port traces and waiting loops (locale \<open>status_poll\<close>), what reaches
    the serial line, and when and how a log message is printed.
  \<^item> \<open>Exception_Report\<close> (\<^verbatim>\<open>Interrupts/IDT.cpp\<close>): what the kernel writes about an exception, down to the bytes on the serial line, before it halts.
  \<^item> \<open>ACPI_Tables\<close> (\<^verbatim>\<open>Firmware/ACPI.cpp\<close>): checksums, table lookup, the walks over the interrupt table, and all outcomes of the set-up.
  \<^item> \<open>Kernel_Boot\<close> (\<^verbatim>\<open>Kernel.cpp\<close>, \<^verbatim>\<open>KernelData.h\<close>, \<^verbatim>\<open>main.cpp\<close>): the set-up functions of all components in the order of \<^verbatim>\<open>Kernel::Initialize\<close>, on one
    state in which they share the page tables, the ports, the registers and the data of the CPU: the start completes, and the invariants of the components hold together.

  \<^bold>\<open>Bounds.\<close> Frame numbers are below \<open>2 ^ 40\<close>, the bound of a physical address of 52 bits; the counts of free frames that theorems ask for (3 for a
  mapping, 256 for the higher half, one per copied table) are the numbers of allocations the code can make. The start of the kernel asks for a boot loader with at most
  2255 tables, because the 2563 frames that the memory manager's self test needs are then enough for everything the start allocates. Entries of an IO APIC are limited to 120
  because the code computes the register number in 8 bits.

  \<^bold>\<open>Not modelled.\<close> The assembly files; the vendored boot protocol header; the translation cache (the \<^verbatim>\<open>invlpg\<close>
  instructions); the memory model of the processor below sequential consistency; interrupts that arrive during the start; the text of individual log messages other than the report of an exception.
\<close>

end
